(* ===== verification/Prelude.thy ===== *)
theory Prelude
  imports Complex_Main "HOL-Library.Word" "HOL-Library.AList"
    "HOL-Library.Char_ord" "HOL-Library.List_Lexorder"
begin

text \<open>
  Shared vocabulary of the development.

  The first part names the machine types of the Go source (\<open>byte\<close>, \<open>uint32\<close>, \<open>uint64\<close>)
  and the way a Go string, which is a byte sequence, is read as an Isabelle \<^typ>\<open>string\<close>
  (one \<^typ>\<open>char\<close> per byte).  The second part is the error-propagation idiom
  \<open>if err != nil { return err }\<close> on results of type \<open>'e + 'a\<close>.
\<close>

unbundle bit_operations_syntax


section \<open>Machine types\<close>

type_synonym byte = "8 word"
type_synonym uint32 = "32 word"
type_synonym uint64 = "64 word"

text \<open>A Go string is a sequence of bytes; \<open>[]byte(s)\<close> and \<open>string(b)\<close> convert both ways.\<close>

definition bytes_of :: "string \<Rightarrow> byte list" where
  "bytes_of s = map of_char s"

definition string_of :: "byte list \<Rightarrow> string" where
  "string_of b = map (\<lambda>w. char_of (unat w)) b"

section \<open>Results\<close>

text \<open>\<open>x, err := f(); if err != nil { return err }; \<dots>\<close>\<close>

fun bindE :: "'e + 'a \<Rightarrow> ('a \<Rightarrow> 'e + 'b) \<Rightarrow> 'e + 'b" where
  "bindE (Inl e) f = Inl e"
| "bindE (Inr x) f = f x"

lemma bindE_Inr [simp]: "bindE r Inr = r"
  by (cases r) simp_all

lemma bindE_assoc: "bindE (bindE r f) g = bindE r (\<lambda>x. bindE (f x) g)"
  by (cases r) simp_all

lemma bindE_eq_Inr_iff: "bindE r f = Inr y \<longleftrightarrow> (\<exists>x. r = Inr x \<and> f x = Inr y)"
  by (cases r) simp_all

lemma bindE_cong [fundef_cong]:
  "r = r' \<Longrightarrow> (\<And>x. r' = Inr x \<Longrightarrow> f x = f' x) \<Longrightarrow> bindE r f = bindE r' f'"
  by (cases r') simp_all

lemma length_bytes_of [simp]: "length (bytes_of s) = length s"
  by (simp add: bytes_of_def)

lemma char_of_of_char_byte [simp]: "char_of (unat (of_char c :: byte)) = c"
proof -
  have "(of_char c :: byte) = of_nat (of_char c)"
    by (simp only: of_nat_of_char)
  then have "unat (of_char c :: byte) = of_char c mod 256"
    by (simp only: unat_of_nat) (simp add: take_bit_eq_mod)
  then show ?thesis
    by simp
qed

lemma string_of_bytes_of [simp]: "string_of (bytes_of s) = s"
  by (simp add: string_of_def bytes_of_def map_idI)

lemma bytes_of_eq_Nil_iff [simp]: "bytes_of s = [] \<longleftrightarrow> s = []"
  by (simp add: bytes_of_def)

section \<open>Go maps\<close>

text \<open>
  A Go \<open>map[K]V\<close> is an association list with distinct keys (\<open>mwf\<close>).  The order of the list
  is not observable: every access goes through the four operations below, and \<open>len\<close> is the
  length of the list because the keys are distinct.
\<close>

type_synonym ('k, 'v) gomap = "('k \<times> 'v) list"

definition mget :: "('k, 'v) gomap \<Rightarrow> 'k \<Rightarrow> 'v option" where
  "mget m k = map_of m k"

definition mput :: "'k \<Rightarrow> 'v \<Rightarrow> ('k, 'v) gomap \<Rightarrow> ('k, 'v) gomap" where
  "mput k v m = AList.update k v m"

definition mdel :: "'k \<Rightarrow> ('k, 'v) gomap \<Rightarrow> ('k, 'v) gomap" where
  "mdel k m = AList.delete k m"

definition mkeys :: "('k, 'v) gomap \<Rightarrow> 'k set" where
  "mkeys m = fst ` set m"

definition mwf :: "('k, 'v) gomap \<Rightarrow> bool" where
  "mwf m \<longleftrightarrow> distinct (map fst m)"

lemma mget_Nil [simp]: "mget [] k = None"
  by (simp add: mget_def)

lemma mget_Cons [simp]: "mget (p # m) k = (if fst p = k then Some (snd p) else mget m k)"
  by (cases p) (simp add: mget_def)

lemma mwf_Nil [simp]: "mwf []"
  by (simp add: mwf_def)

lemma mwf_mput [simp]: "mwf m \<Longrightarrow> mwf (mput k v m)"
  by (simp add: mwf_def mput_def distinct_update)

lemma mwf_mdel [simp]: "mwf m \<Longrightarrow> mwf (mdel k m)"
  by (simp add: mwf_def mdel_def distinct_delete)

lemma mget_mput [simp]: "mget (mput k v m) k' = (if k' = k then Some v else mget m k')"
  by (simp add: mget_def mput_def update_conv')

lemma mget_mdel [simp]: "mget (mdel k m) k' = (if k' = k then None else mget m k')"
  by (simp add: mget_def mdel_def delete_conv')

lemma mkeys_mget: "k \<in> mkeys m \<longleftrightarrow> mget m k \<noteq> None"
  by (simp add: mkeys_def mget_def map_of_eq_None_iff)

lemma mkeys_simps [simp]:
  "mkeys [] = {}" "mkeys (mput k v m) = insert k (mkeys m)" "mkeys (mdel k m) = mkeys m - {k}"
  by (auto simp: mkeys_mget split: if_splits)

lemma finite_mkeys [simp]: "finite (mkeys m)"
  by (simp add: mkeys_def)

lemma card_mkeys: "mwf m \<Longrightarrow> card (mkeys m) = length m"
  by (metis distinct_card length_map list.set_map mkeys_def mwf_def)

lemma length_mput: "mwf m \<Longrightarrow> length (mput k v m) = (if k \<in> mkeys m then length m else Suc (length m))"
  by (metis card_insert_if card_mkeys finite_mkeys mkeys_simps(2) mwf_mput)

lemma length_mdel: "mwf m \<Longrightarrow> length (mdel k m) = (if k \<in> mkeys m then length m - 1 else length m)"
  by (metis card_Diff_singleton card_mkeys Diff_empty Diff_insert0 mkeys_simps(3) mwf_mdel)

section \<open>Time\<close>

text \<open>
  A \<open>time.Time\<close> is its distance from the Go zero time in nanoseconds, a \<open>time.Duration\<close> a
  signed 64-bit number of nanoseconds.  Arithmetic on durations wraps around (\<open>wrap64\<close>), while
  \<open>Time.Sub\<close> saturates, as its documentation says.
\<close>

type_synonym time = int
type_synonym duration = int

definition wrap64 :: "int \<Rightarrow> int" where
  "wrap64 x = signed_take_bit 63 x"

definition maxDuration :: duration where
  "maxDuration = 2 ^ 63 - 1"

definition minDuration :: duration where
  "minDuration = - (2 ^ 63)"

definition time_Sub :: "time \<Rightarrow> time \<Rightarrow> duration" where
  "time_Sub t u =
     (if t - u < minDuration then minDuration
      else if maxDuration < t - u then maxDuration
      else t - u)"

definition Second :: duration where
  "Second = 1000000000"

text \<open>
  \<open>time.Unix(sec, 0)\<close>: the seconds are shifted to the zero time of year 1, in 64-bit
  arithmetic.
\<close>

definition unixToInternal :: int where
  "unixToInternal = 62135596800"

definition time_Unix :: "int \<Rightarrow> time" where
  "time_Unix sec = wrap64 (sec + unixToInternal) * Second"

lemma wrap64_id: "- (2 ^ 63) \<le> x \<Longrightarrow> x < 2 ^ 63 \<Longrightarrow> wrap64 x = x"
  by (simp add: wrap64_def signed_take_bit_int_eq_self)

lemma wrap64_neg_min: "wrap64 (- minDuration) = minDuration"
  by (simp add: wrap64_def minDuration_def signed_take_bit_eq_take_bit_shift take_bit_eq_mod)

lemma time_Sub_exact:
  "minDuration \<le> t - u \<Longrightarrow> t - u \<le> maxDuration \<Longrightarrow> time_Sub t u = t - u"
  by (simp add: time_Sub_def)

end
