(* ===== verification/GoStrings.thy ===== *)
theory GoStrings
  imports Prelude
begin

text \<open>
  The functions of Go's \<open>strings\<close> and \<open>strconv\<close> packages that the agent calls.  A string is a
  byte sequence; where a function works on runes (\<open>TrimSpace\<close>) the UTF-8 encodings of the
  runes concerned are written out as bytes.
\<close>

section \<open>Prefixes, suffixes, substrings\<close>

fun HasPrefix :: "string \<Rightarrow> string \<Rightarrow> bool" where
  "HasPrefix s [] = True"
| "HasPrefix [] (p # ps) = False"
| "HasPrefix (c # s) (p # ps) = (c = p \<and> HasPrefix s ps)"

definition HasSuffix :: "string \<Rightarrow> string \<Rightarrow> bool" where
  "HasSuffix s suffix = HasPrefix (rev s) (rev suffix)"

definition TrimPrefix :: "string \<Rightarrow> string \<Rightarrow> string" where
  "TrimPrefix s prefix = (if HasPrefix s prefix then drop (length prefix) s else s)"

definition TrimSuffix :: "string \<Rightarrow> string \<Rightarrow> string" where
  "TrimSuffix s suffix = (if HasSuffix s suffix then take (length s - length suffix) s else s)"

fun Contains :: "string \<Rightarrow> string \<Rightarrow> bool" where
  "Contains [] sub = HasPrefix [] sub"
| "Contains (c # s) sub = (HasPrefix (c # s) sub \<or> Contains s sub)"

lemma HasPrefix_iff: "HasPrefix s p \<longleftrightarrow> (\<exists>r. s = p @ r)"
  by (induction s p rule: HasPrefix.induct) auto

lemma HasSuffix_iff: "HasSuffix s p \<longleftrightarrow> (\<exists>r. s = r @ p)"
  by (simp add: HasSuffix_def HasPrefix_iff) (metis rev_append rev_rev_ident)

lemma TrimPrefix_append [simp]: "TrimPrefix (p @ s) p = s"
  by (auto simp: TrimPrefix_def HasPrefix_iff)

lemma TrimSuffix_append [simp]: "TrimSuffix (s @ p) p = s"
  by (auto simp: TrimSuffix_def HasSuffix_iff)

lemma Contains_iff: "Contains s sub \<longleftrightarrow> (\<exists>a b. s = a @ sub @ b)"
proof (induction s)
  case Nil
  then show ?case by (cases sub) auto
next
  case (Cons c s)
  show ?case
    unfolding Contains.simps Cons.IH HasPrefix_iff
    by (metis append_Cons append_Nil list.inject neq_Nil_conv)
qed

section \<open>Splitting\<close>

text \<open>\<open>strings.Split(s, sep)\<close> for a one-byte separator.\<close>

fun Split :: "string \<Rightarrow> char \<Rightarrow> string list" where
  "Split [] sep = [[]]"
| "Split (c # s) sep =
     (if c = sep then [] # Split s sep
      else (case Split s sep of p # ps \<Rightarrow> (c # p) # ps | [] \<Rightarrow> [[c]]))"

text \<open>\<open>strings.SplitN(s, sep, 2)\<close> for a one-byte separator.\<close>

definition SplitN2 :: "string \<Rightarrow> char \<Rightarrow> string list" where
  "SplitN2 s sep =
     (if sep \<in> set s
      then [takeWhile (\<lambda>c. c \<noteq> sep) s, tl (dropWhile (\<lambda>c. c \<noteq> sep) s)]
      else [s])"

fun Join :: "string list \<Rightarrow> string \<Rightarrow> string" where
  "Join [] sep = []"
| "Join [s] sep = s"
| "Join (s # t # ts) sep = s @ sep @ Join (t # ts) sep"

lemma Split_neq_Nil [simp]: "Split s sep \<noteq> []"
  by (cases s) (auto split: list.split)

lemma Join_Split: "Join (Split s sep) [sep] = s"
proof (induction s)
  case (Cons c s)
  then show ?case
    by (cases "Split s sep"; cases "tl (Split s sep)") auto
qed simp

lemma Split_no_sep: "p \<in> set (Split s sep) \<Longrightarrow> sep \<notin> set p"
proof (induction s arbitrary: p)
  case (Cons c s)
  then show ?case
    by (cases "Split s sep") (auto split: if_splits)
qed simp

lemma Split_single: "sep \<notin> set s \<Longrightarrow> Split s sep = [s]"
  by (induction s) auto

lemma Split_append: "sep \<notin> set p \<Longrightarrow> Split (p @ sep # s) sep = p # Split s sep"
  by (induction p) auto

lemma SplitN2_append: "sep \<notin> set p \<Longrightarrow> SplitN2 (p @ sep # s) sep = [p, s]"
  by (induction p) (auto simp: SplitN2_def)

lemma SplitN2_pair: "SplitN2 s sep = [p, q] \<Longrightarrow> s = p @ sep # q \<and> sep \<notin> set p"
proof (induction s arbitrary: p)
  case (Cons c s)
  then show ?case
    by (cases "c = sep"; cases "sep \<in> set s") (auto simp: SplitN2_def)
qed (simp add: SplitN2_def)

section \<open>White space\<close>

text \<open>
  The UTF-8 encodings of the runes for which \<open>unicode.IsSpace\<close> holds: six ASCII characters,
  \<open>U+0085\<close>, \<open>U+00A0\<close>, \<open>U+1680\<close>, \<open>U+2000\<close>--\<open>U+200A\<close>, \<open>U+2028\<close>, \<open>U+2029\<close>, \<open>U+202F\<close>, \<open>U+205F\<close>
  and \<open>U+3000\<close>.
\<close>

definition utf8_spaces :: "string list" where
  "utf8_spaces = map (map char_of)
     ([[9], [10], [11], [12], [13], [32 :: nat], [194, 133], [194, 160], [225, 154, 128]]
      @ map (\<lambda>i. [226, 128, 128 + i]) [0..<11]
      @ [[226, 128, 168], [226, 128, 169], [226, 128, 175], [226, 129, 159], [227, 128, 128]])"

definition strip_one :: "string list \<Rightarrow> string \<Rightarrow> string option" where
  "strip_one encs s =
     (case List.find (HasPrefix s) encs of None \<Rightarrow> None | Some e \<Rightarrow> Some (drop (length e) s))"

function strip_left :: "string list \<Rightarrow> string \<Rightarrow> string" where
  "strip_left encs s =
     (case strip_one encs s of
        None \<Rightarrow> s
      | Some s' \<Rightarrow> if length s' < length s then strip_left encs s' else s)"
  by pat_completeness auto
termination by (relation "measure (\<lambda>(encs, s). length s)") auto

declare strip_left.simps [simp del]

definition TrimSpace :: "string \<Rightarrow> string" where
  "TrimSpace s = rev (strip_left (map rev utf8_spaces) (rev (strip_left utf8_spaces s)))"

lemma strip_left_suffix: "\<exists>p. s = p @ strip_left encs s"
proof (induction encs s rule: strip_left.induct)
  case (1 encs s)
  show ?case
  proof (cases "strip_one encs s")
    case None
    then show ?thesis by (subst strip_left.simps) simp
  next
    case (Some s')
    then have "\<exists>p. s = p @ s'"
      by (auto simp: strip_one_def split: option.splits) (metis append_take_drop_id)
    with Some 1 [OF Some] show ?thesis
      by (subst strip_left.simps) (auto, metis append.assoc)
  qed
qed

lemma strip_left_id: "\<forall>e \<in> set encs. \<not> HasPrefix s e \<Longrightarrow> strip_left encs s = s"
proof -
  assume "\<forall>e \<in> set encs. \<not> HasPrefix s e"
  then have "strip_one encs s = None"
    by (simp add: strip_one_def find_None_iff [THEN iffD2])
  then show ?thesis
    by (subst strip_left.simps) simp
qed

lemma TrimSpace_infix: "\<exists>a b. s = a @ TrimSpace s @ b"
proof -
  let ?l = "strip_left utf8_spaces s"
  obtain a where a: "s = a @ ?l"
    using strip_left_suffix by blast
  obtain p where p: "rev ?l = p @ strip_left (map rev utf8_spaces) (rev ?l)"
    using strip_left_suffix by blast
  have "?l = TrimSpace s @ rev p"
    unfolding TrimSpace_def by (metis p rev_append rev_rev_ident)
  with a show ?thesis
    by metis
qed

lemma TrimSpace_Nil [simp]: "TrimSpace [] = []"
  using TrimSpace_infix [of "[]"] by simp

text \<open>A string that begins and ends with a visible ASCII character has nothing to trim.\<close>

definition visible :: "char \<Rightarrow> bool" where
  "visible c \<longleftrightarrow> 33 \<le> (of_char c :: nat) \<and> (of_char c :: nat) < 127"

lemma utf8_spaces_ends: "e \<in> set utf8_spaces \<Longrightarrow> e \<noteq> [] \<and> \<not> visible (hd e) \<and> \<not> visible (last e)"
  by (auto simp: utf8_spaces_def visible_def)

lemma HasPrefix_hd: "HasPrefix s e \<Longrightarrow> e \<noteq> [] \<Longrightarrow> s \<noteq> [] \<and> hd s = hd e"
  by (cases s; cases e) auto

lemma TrimSpace_visible:
  assumes "s \<noteq> []" and "visible (hd s)" and "visible (last s)"
  shows "TrimSpace s = s"
proof -
  have "strip_left utf8_spaces s = s"
    by (rule strip_left_id) (metis HasPrefix_hd utf8_spaces_ends assms(2))
  moreover have "strip_left (map rev utf8_spaces) (rev s) = rev s"
    by (rule strip_left_id) (use HasPrefix_hd utf8_spaces_ends assms in \<open>fastforce simp: hd_rev\<close>)
  ultimately show ?thesis
    by (simp add: TrimSpace_def)
qed

section \<open>Case\<close>

text \<open>
  \<open>strings.ToLower\<close>, used only to compare with ASCII keywords.  ASCII letters are mapped; of
  the other runes just two have an ASCII lower case, the Kelvin sign \<open>U+212A\<close> (\<open>k\<close>) and
  \<open>U+0130\<close> (\<open>i\<close>).  The remaining runes stay outside ASCII and are left as they are.
\<close>

definition lower_char :: "char \<Rightarrow> char" where
  "lower_char c =
     (if 65 \<le> (of_char c :: nat) \<and> (of_char c :: nat) \<le> 90 then char_of (of_char c + 32 :: nat) else c)"

definition kelvin :: string where
  "kelvin = map char_of [226, 132, 170 :: nat]"

definition dotted_I :: string where
  "dotted_I = map char_of [196, 176 :: nat]"

fun ToLower :: "string \<Rightarrow> string" where
  "ToLower [] = []"
| "ToLower (c # s) =
     (if HasPrefix (c # s) kelvin then CHR ''k'' # ToLower (drop 2 s)
      else if HasPrefix (c # s) dotted_I then CHR ''i'' # ToLower (drop 1 s)
      else lower_char c # ToLower s)"

lemma ToLower_ascii: "\<forall>c \<in> set s. (of_char c :: nat) < 128 \<Longrightarrow> ToLower s = map lower_char s"
  by (induction s rule: ToLower.induct) (auto simp: kelvin_def dotted_I_def)

section \<open>Numbers\<close>

datatype num_error = ErrSyntax | ErrRange

text \<open>The scanning loop of \<open>strconv.ParseUint(s, 10, 64)\<close>: overflow is noticed as it happens.\<close>

fun parse_digits :: "nat \<Rightarrow> string \<Rightarrow> num_error + nat" where
  "parse_digits n [] = Inr n"
| "parse_digits n (c # s) =
     (let d = of_char c :: nat
      in if 48 \<le> d \<and> d \<le> 57
         then (if 2 ^ 64 \<le> n * 10 + (d - 48) then Inl ErrRange
               else parse_digits (n * 10 + (d - 48)) s)
         else Inl ErrSyntax)"

definition ParseUint :: "string \<Rightarrow> num_error + nat" where
  "ParseUint s = (if s = [] then Inl ErrSyntax else parse_digits 0 s)"

definition ParseInt :: "string \<Rightarrow> num_error + int" where
  "ParseInt s =
     (case s of
        [] \<Rightarrow> Inl ErrSyntax
      | c # cs \<Rightarrow>
          let neg = (c = CHR ''-'');
              digits = (if c = CHR ''+'' \<or> c = CHR ''-'' then cs else s)
          in bindE (ParseUint digits) (\<lambda>un.
               if \<not> neg \<and> 2 ^ 63 \<le> un then Inl ErrRange
               else if neg \<and> 2 ^ 63 < un then Inl ErrRange
               else Inr (if neg then - int un else int un)))"

definition digit_char :: "nat \<Rightarrow> char" where
  "digit_char d = char_of (48 + d)"

fun show_nat :: "nat \<Rightarrow> string" where
  "show_nat n = (if n < 10 then [digit_char n] else show_nat (n div 10) @ [digit_char (n mod 10)])"

declare show_nat.simps [simp del]

text \<open>\<open>strconv.Itoa\<close>, and the verb \<open>%d\<close>.\<close>

definition Itoa :: "int \<Rightarrow> string" where
  "Itoa i = (if i < 0 then CHR ''-'' # show_nat (nat (- i)) else show_nat (nat i))"

lemma of_char_digit [simp]: "d < 10 \<Longrightarrow> (of_char (digit_char d) :: nat) = 48 + d"
  by (simp add: digit_char_def)

lemma parse_digits_append:
  "parse_digits n (s @ t) = bindE (parse_digits n s) (\<lambda>m. parse_digits m t)"
  by (induction n s rule: parse_digits.induct) (simp_all add: Let_def)

lemma parse_digits_less: "parse_digits n s = Inr m \<Longrightarrow> n < 2 ^ 64 \<Longrightarrow> m < 2 ^ 64"
  by (induction n s rule: parse_digits.induct) (auto simp: Let_def split: if_splits)

lemma parse_digits_chars:
  "parse_digits n s = Inr m \<Longrightarrow> c \<in> set s \<Longrightarrow> 48 \<le> (of_char c :: nat) \<and> (of_char c :: nat) \<le> 57"
  by (induction n s rule: parse_digits.induct) (auto simp: Let_def split: if_splits)

lemma parse_show_nat: "n < 2 ^ 64 \<Longrightarrow> parse_digits 0 (show_nat n) = Inr n"
proof (induction n rule: show_nat.induct)
  case (1 n)
  show ?case
  proof (cases "n < 10")
    case True
    then show ?thesis by (simp add: show_nat.simps)
  next
    case False
    with 1 have "parse_digits 0 (show_nat (n div 10)) = Inr (n div 10)"
      by simp
    with False 1(2) show ?thesis
      by (subst show_nat.simps) (simp add: parse_digits_append Let_def)
  qed
qed

lemma show_nat_neq_Nil [simp]: "show_nat n \<noteq> []"
  by (subst show_nat.simps) simp

lemma ParseUint_show_nat: "n < 2 ^ 64 \<Longrightarrow> ParseUint (show_nat n) = Inr n"
  by (simp add: ParseUint_def parse_show_nat)

lemma show_nat_hd: "\<exists>c cs. show_nat n = c # cs \<and> 48 \<le> (of_char c :: nat)"
proof (induction n rule: show_nat.induct)
  case (1 n)
  then show ?case
    by (cases "n < 10") (auto simp: show_nat.simps [of n])
qed

lemma ParseInt_Itoa:
  assumes "- (2 ^ 63) \<le> i" "i < 2 ^ 63"
  shows "ParseInt (Itoa i) = Inr i"
proof (cases "i < 0")
  case True
  with assms show ?thesis
    by (simp add: ParseInt_def Itoa_def ParseUint_show_nat nat_less_iff)
next
  case False
  obtain c cs where c: "show_nat (nat i) = c # cs" "48 \<le> (of_char c :: nat)"
    using show_nat_hd by blast
  then have "c \<noteq> CHR ''-''" "c \<noteq> CHR ''+''"
    by auto
  moreover have "ParseUint (c # cs) = Inr (nat i)"
    using False assms ParseUint_show_nat [of "nat i"] c(1) by (simp add: nat_less_iff)
  ultimately show ?thesis
    using False assms c(1) by (simp add: ParseInt_def Itoa_def nat_le_iff le_nat_iff)
qed

text \<open>A string that parses as a number has no line break.\<close>

lemma ParseInt_no_newline: "ParseInt s = Inr i \<Longrightarrow> CHR 0x0A \<notin> set s"
proof
  assume p: "ParseInt s = Inr i" and n: "CHR 0x0A \<in> set s"
  from p obtain c cs where s: "s = c # cs"
    by (cases s) (simp_all add: ParseInt_def)
  define ds where "ds = (if c = CHR ''+'' \<or> c = CHR ''-'' then cs else s)"
  have "CHR 0x0A \<in> set ds"
    using n s by (auto simp: ds_def)
  moreover from p s obtain un where "ParseUint ds = Inr un"
    by (auto simp: ParseInt_def ds_def Let_def bindE_eq_Inr_iff)
  ultimately have "48 \<le> (of_char (CHR 0x0A) :: nat)"
    using parse_digits_chars by (fastforce simp: ParseUint_def split: if_splits)
  then show False
    by simp
qed

end
