(* ===== verification/Http.thy ===== *)
theory Http
  imports GoStrings
begin

text \<open>
  Requests, responses and handlers of \<open>net/http\<close>, and JSON values.

  A handler is modelled by the sequence of calls it makes on its \<open>http.ResponseWriter\<close>
  (\<open>wop list\<close>) and the new state of the agent.  So the same handler can be run against the
  connection (\<open>serve\<close>) or against the recorder of the idempotency middleware.  The bytes of a
  response are chunks: literal bytes, or the JSON text of a value, kept as the value.
\<close>

section \<open>JSON values\<close>

text \<open>
  What an \<open>interface{}\<close> holds in the agent: \<open>nil\<close>, a \<open>bool\<close>, an integer, a \<open>float64\<close>, a
  \<open>string\<close>, a slice or a map.  A \<open>float64\<close> is the rational number it stands for.
\<close>

datatype jv =
    JNull
  | JBool bool
  | JInt int
  | JFloat rat
  | JStr string
  | JArr "jv list"
  | JObj "(string \<times> jv) list"

section \<open>Headers\<close>

type_synonym header = "(string, string list) gomap"

text \<open>\<open>textproto.CanonicalMIMEHeaderKey\<close>\<close>

definition upper_char :: "char \<Rightarrow> char" where
  "upper_char c =
     (if 97 \<le> (of_char c :: nat) \<and> (of_char c :: nat) \<le> 122 then char_of (of_char c - 32 :: nat) else c)"

definition header_marks :: string where
  "header_marks = ''!#$%&*+-.^_|~''"

definition valid_header_byte :: "char \<Rightarrow> bool" where
  "valid_header_byte c =
     (let n = of_char c :: nat
      in (48 \<le> n \<and> n \<le> 57) \<or> (65 \<le> n \<and> n \<le> 90) \<or> (97 \<le> n \<and> n \<le> 122)
         \<or> c \<in> set header_marks \<or> n = 39 \<or> n = 96)"

fun canonical_from :: "bool \<Rightarrow> string \<Rightarrow> string" where
  "canonical_from upper [] = []"
| "canonical_from upper (c # s) =
     (let c = (if upper then upper_char c else lower_char c) in c # canonical_from (c = CHR ''-'') s)"

definition CanonicalHeaderKey :: "string \<Rightarrow> string" where
  "CanonicalHeaderKey s = (if list_all valid_header_byte s then canonical_from True s else s)"

definition Header_Get :: "header \<Rightarrow> string \<Rightarrow> string" where
  "Header_Get h key = (case mget h (CanonicalHeaderKey key) of Some (v # vs) \<Rightarrow> v | _ \<Rightarrow> '''')"

definition Header_Set :: "string \<Rightarrow> string \<Rightarrow> header \<Rightarrow> header" where
  "Header_Set key value h = mput (CanonicalHeaderKey key) [value] h"

definition Header_Add :: "string \<Rightarrow> string \<Rightarrow> header \<Rightarrow> header" where
  "Header_Add key value h =
     (let k = CanonicalHeaderKey key
      in mput k ((case mget h k of None \<Rightarrow> [] | Some vs \<Rightarrow> vs) @ [value]) h)"

section \<open>Requests\<close>

text \<open>A body delivers \<open>body_data\<close> and then either ends or fails.\<close>

record body =
  body_data :: string
  body_fails :: bool

record request =
  r_method :: string
  r_path :: string
  r_header :: header
  r_body :: body

definition ReadAll :: "body \<Rightarrow> string option" where
  "ReadAll b = (if body_fails b then None else Some (body_data b))"

text \<open>\<open>io.ReadAll(io.LimitReader(b, n))\<close>: a failure after the first \<open>n\<close> bytes is not seen.\<close>

definition ReadAll_limited :: "nat \<Rightarrow> body \<Rightarrow> string option" where
  "ReadAll_limited n b =
     (if n \<le> length (body_data b) then Some (take n (body_data b)) else ReadAll b)"

text \<open>\<open>io.NopCloser(bytes.NewReader(data))\<close>\<close>

definition NewReader :: "string \<Rightarrow> body" where
  "NewReader s = \<lparr>body_data = s, body_fails = False\<rparr>"

section \<open>Responses\<close>

datatype chunk = Bytes string | Json jv

datatype wop = HSet string string | HAdd string string | WriteHeader int | Write chunk

type_synonym 's handler = "request \<Rightarrow> 's \<Rightarrow> wop list \<times> 's"

record response =
  rsp_status :: int
  rsp_header :: header
  rsp_body :: "chunk list"

text \<open>
  The connection: the live header map, the status and the header map sent by the first
  \<open>WriteHeader\<close> (explicit or implied), the body so far.
\<close>

record conn =
  c_header :: header
  c_sent :: "(int \<times> header) option"
  c_body :: "chunk list"

definition conn_new :: conn where
  "conn_new = \<lparr>c_header = [], c_sent = None, c_body = []\<rparr>"

definition conn_WriteHeader :: "int \<Rightarrow> conn \<Rightarrow> conn" where
  "conn_WriteHeader code c =
     (case c_sent c of None \<Rightarrow> c\<lparr>c_sent := Some (code, c_header c)\<rparr> | Some _ \<Rightarrow> c)"

fun conn_op :: "wop \<Rightarrow> conn \<Rightarrow> conn" where
  "conn_op (HSet k v) c = c\<lparr>c_header := Header_Set k v (c_header c)\<rparr>"
| "conn_op (HAdd k v) c = c\<lparr>c_header := Header_Add k v (c_header c)\<rparr>"
| "conn_op (WriteHeader code) c = conn_WriteHeader code c"
| "conn_op (Write d) c = (let c = conn_WriteHeader 200 c in c\<lparr>c_body := c_body c @ [d]\<rparr>)"

definition serve :: "wop list \<Rightarrow> response" where
  "serve ops =
     (let c = conn_WriteHeader 200 (fold conn_op ops conn_new)
      in case c_sent c of
           Some (code, h) \<Rightarrow> \<lparr>rsp_status = code, rsp_header = h, rsp_body = c_body c\<rparr>
         | None \<Rightarrow> \<lparr>rsp_status = 200, rsp_header = c_header c, rsp_body = c_body c\<rparr>)"

text \<open>\<open>http.Error\<close> and \<open>http.NotFound\<close>\<close>

definition http_Error :: "string \<Rightarrow> int \<Rightarrow> wop list" where
  "http_Error msg code =
     [HSet ''Content-Type'' ''text/plain; charset=utf-8'', HSet ''X-Content-Type-Options'' ''nosniff'',
      WriteHeader code, Write (Bytes (msg @ [CHR 0x0A]))]"

definition http_NotFound :: "wop list" where
  "http_NotFound = http_Error ''404 page not found'' 404"

text \<open>The three calls with which every handler of the agent answers in JSON.\<close>

definition json_reply :: "int \<Rightarrow> jv \<Rightarrow> wop list" where
  "json_reply code v = [HSet ''Content-Type'' ''application/json'', WriteHeader code, Write (Json v)]"

lemma serve_json_reply:
  "serve (json_reply code v) =
     \<lparr>rsp_status = code, rsp_header = [(''Content-Type'', [''application/json''])], rsp_body = [Json v]\<rparr>"
proof -
  have "CanonicalHeaderKey ''Content-Type'' = ''Content-Type''"
    by code_simp
  then show ?thesis
    by (simp add: json_reply_def serve_def conn_new_def conn_WriteHeader_def Header_Set_def mput_def)
qed

section \<open>Canonical header keys\<close>

lemma of_char_less_256: "(of_char c :: nat) < 256"
  by simp

lemma upper_char_idem [simp]: "upper_char (upper_char c) = upper_char c"
  by (auto simp: upper_char_def)

lemma lower_char_idem [simp]: "lower_char (lower_char c) = lower_char c"
  by (auto simp: lower_char_def)

lemma canonical_from_idem: "canonical_from u (canonical_from u s) = canonical_from u s"
  by (induction s arbitrary: u) (simp_all add: Let_def)

lemma valid_upper: "valid_header_byte c \<Longrightarrow> valid_header_byte (upper_char c)"
  by (auto simp: valid_header_byte_def upper_char_def Let_def)

lemma valid_lower: "valid_header_byte c \<Longrightarrow> valid_header_byte (lower_char c)"
  by (auto simp: valid_header_byte_def lower_char_def Let_def)

lemma valid_canonical_from:
  "list_all valid_header_byte s \<Longrightarrow> list_all valid_header_byte (canonical_from u s)"
  by (induction s arbitrary: u) (simp_all add: Let_def valid_upper valid_lower)

lemma CanonicalHeaderKey_idem [simp]:
  "CanonicalHeaderKey (CanonicalHeaderKey s) = CanonicalHeaderKey s"
  by (simp add: CanonicalHeaderKey_def valid_canonical_from canonical_from_idem)

end
