(* ===== verification/Json.thy ===== *)
theory Json
  imports Http
begin

text \<open>
  JSON values as the agent handles them (\<open>map[string]interface{}\<close> trees), the files that hold
  them, and the helpers that read fields out of them.

  A file holds either the output of \<open>json.MarshalIndent\<close> (\<open>Doc v\<close>, kept as the value that is
  read back from it) or bytes of another origin (\<open>Raw bs p\<close>, where \<open>p\<close> is what
  \<open>json.Unmarshal\<close> makes of the bytes).  Two files have the same bytes exactly when their
  contents are equal.  Strings are taken to be valid UTF-8, which encoding and decoding preserve.
\<close>

section \<open>Numbers\<close>

text \<open>A \<open>float64\<close> has 53 significant bits; conversion rounds to the nearest, ties to even.\<close>

fun bit_length :: "nat \<Rightarrow> nat" where
  "bit_length n = (if n = 0 then 0 else Suc (bit_length (n div 2)))"

declare bit_length.simps [simp del]

definition round53 :: "nat \<Rightarrow> nat" where
  "round53 n =
     (if n < 2 ^ 53 then n
      else let e = bit_length n - 53; q = n div 2 ^ e; r = n mod 2 ^ e; h = 2 ^ (e - 1)
           in (if h < r \<or> (r = h \<and> odd q) then q + 1 else q) * 2 ^ e)"

definition float64_of_int :: "int \<Rightarrow> rat" where
  "float64_of_int i = (if i < 0 then - of_nat (round53 (nat (- i))) else of_nat (round53 (nat i)))"

text \<open>\<open>int(f)\<close>: towards zero; a value that does not fit gives the smallest \<open>int64\<close> on amd64.\<close>

definition int_of_float :: "rat \<Rightarrow> int" where
  "int_of_float q =
     (let t = (if q < 0 then \<lceil>q\<rceil> else \<lfloor>q\<rfloor>)
      in if - (2 ^ 63) \<le> t \<and> t < 2 ^ 63 then t else - (2 ^ 63))"

lemma float64_of_int_exact: "\<bar>i\<bar> < 2 ^ 53 \<Longrightarrow> float64_of_int i = of_int i"
proof -
  assume "\<bar>i\<bar> < 2 ^ 53"
  then have "nat (- i) < 2 ^ 53" "nat i < 2 ^ 53"
    by (simp_all add: nat_less_iff)
  then show ?thesis
    by (simp add: float64_of_int_def round53_def of_nat_nat)
qed

lemma int_of_float_exact: "- (2 ^ 63) \<le> i \<Longrightarrow> i < 2 ^ 63 \<Longrightarrow> int_of_float (of_int i) = i"
  by (simp add: int_of_float_def)

section \<open>Values read back\<close>

text \<open>
  What \<open>json.Unmarshal\<close> makes of the text that \<open>json.Marshal\<close> wrote for a value: every number a
  \<open>float64\<close>, and the keys of every object in the sorted order of the text.
\<close>

primrec canon :: "jv \<Rightarrow> jv" where
  "canon JNull = JNull"
| "canon (JBool b) = JBool b"
| "canon (JInt i) = JFloat (float64_of_int i)"
| "canon (JFloat q) = JFloat q"
| "canon (JStr s) = JStr s"
| "canon (JArr vs) = JArr (map canon vs)"
| "canon (JObj m) = JObj (sort_key fst (map (map_prod id canon) m))"

text \<open>A value that represents a Go value: no object has a key twice.\<close>

primrec jwf :: "jv \<Rightarrow> bool" where
  "jwf JNull = True"
| "jwf (JBool b) = True"
| "jwf (JInt i) = True"
| "jwf (JFloat q) = True"
| "jwf (JStr s) = True"
| "jwf (JArr vs) = list_all id (map jwf vs)"
| "jwf (JObj m) = (distinct (map fst m) \<and> list_all snd (map (map_prod id jwf) m))"

datatype content = Doc jv | Raw string "jv option"

definition MarshalIndent :: "jv \<Rightarrow> content" where
  "MarshalIndent v = Doc (canon v)"

fun Unmarshal :: "content \<Rightarrow> jv option" where
  "Unmarshal (Doc v) = Some v"
| "Unmarshal (Raw bs p) = p"

lemma map_of_map_snd: "map_of (map (map_prod id f) m) k = map_option f (map_of m k)"
  by (induction m) auto

lemma distinct_keys_sort [simp]: "distinct (map fst (sort_key fst m)) = distinct (map fst m)"
  by (simp add: distinct_map)

lemma map_of_sort_key: "distinct (map fst m) \<Longrightarrow> map_of (sort_key fst m) = map_of m"
  by (subst map_of_inject_set) simp_all

lemma mget_canon:
  "mwf m \<Longrightarrow> mget (sort_key fst (map (map_prod id canon) m)) k = map_option canon (mget m k)"
  by (simp add: mget_def mwf_def map_of_sort_key map_of_map_snd)

lemma mwf_canon: "mwf (sort_key fst (map (map_prod id canon) m)) = mwf m"
  by (simp add: mwf_def)

lemma canon_idem [simp]: "canon (canon v) = canon v"
proof (induction v)
  case (JObj m)
  have "map_prod id canon (map_prod id canon p) = map_prod id canon p" if "p \<in> set m" for p
    using JObj [OF that, of "snd p"] by (cases p) (simp add: snds.simps)
  then have "map (map_prod id canon) (sort_key fst (map (map_prod id canon) m)) =
      sort_key fst (map (map_prod id canon) m)"
    by (intro map_idI) (auto simp only: set_sort set_map image_iff)
  then show ?case
    by (simp only: canon.simps sort_key_id_if_sorted sorted_sort_key)
qed simp_all

lemma Unmarshal_MarshalIndent [simp]: "Unmarshal (MarshalIndent v) = Some (canon v)"
  by (simp add: MarshalIndent_def)

section \<open>Reading fields\<close>

type_synonym jobj = "(string, jv) gomap"

text \<open>\<open>s, _ := m[key].(string)\<close>; also \<open>getString\<close> of \<open>internal/singbox/client.go\<close>.\<close>

definition getString :: "jobj \<Rightarrow> string \<Rightarrow> string" where
  "getString m key = (case mget m key of Some (JStr s) \<Rightarrow> s | _ \<Rightarrow> [])"

fun getInt :: "jobj \<Rightarrow> string list \<Rightarrow> int" where
  "getInt m [] = 0"
| "getInt m (key # keys) =
     (case mget m key of
        Some (JFloat n) \<Rightarrow> int_of_float n
      | Some (JInt n) \<Rightarrow> n
      | _ \<Rightarrow> getInt m keys)"

text \<open>The objects among the elements of a slice: the others are skipped (\<open>if !ok { continue }\<close>).\<close>

fun objects :: "jv list \<Rightarrow> jobj list" where
  "objects [] = []"
| "objects (JObj m # vs) = m # objects vs"
| "objects (_ # vs) = objects vs"

lemma objects_append [simp]: "objects (a @ b) = objects a @ objects b"
  by (induction a rule: objects.induct) simp_all

lemma objects_map_JObj [simp]: "objects (map JObj ms) = ms"
  by (induction ms) simp_all

lemma set_objects: "m \<in> set (objects vs) \<longleftrightarrow> JObj m \<in> set vs"
  by (induction vs rule: objects.induct) auto

lemma getString_mput: "getString (mput k v m) k' =
    (if k' = k then (case v of JStr s \<Rightarrow> s | _ \<Rightarrow> []) else getString m k')"
  by (simp add: getString_def)

lemma getString_canon: "mwf m \<Longrightarrow> getString (sort_key fst (map (map_prod id canon) m)) k = getString m k"
  by (auto simp: getString_def mget_canon split: option.split jv.split)

section \<open>Well-formed and canonical values\<close>

lemma jwf_JArr: "jwf (JArr vs) \<longleftrightarrow> (\<forall>v \<in> set vs. jwf v)"
  by (simp add: list_all_iff)

lemma jwf_JObj: "jwf (JObj m) \<longleftrightarrow> mwf m \<and> (\<forall>v \<in> snd ` set m. jwf v)"
  by (auto simp: mwf_def list_all_iff)

declare jwf.simps(6,7) [simp del]

lemma jwf_mget: "jwf (JObj m) \<Longrightarrow> mget m k = Some v \<Longrightarrow> jwf v"
  by (force simp: jwf_JObj mget_def dest: map_of_SomeD)

lemma in_mput: "p \<in> set (mput k v m) \<Longrightarrow> snd p = v \<or> p \<in> set m"
  by (induction m) (auto simp: mput_def split: if_splits)

lemma jwf_mput: "jwf (JObj m) \<Longrightarrow> jwf v \<Longrightarrow> jwf (JObj (mput k v m))"
  by (auto simp: jwf_JObj dest: in_mput)

lemma jwf_canon: "jwf v \<Longrightarrow> jwf (canon v)"
proof (induction v)
  case (JArr vs)
  then show ?case by (auto simp: jwf_JArr)
next
  case (JObj m)
  then have "jwf (canon (snd p))" if "p \<in> set m" for p
    using that by (cases p) (force simp: jwf_JObj snds.simps)
  with JObj.prems show ?case
    by (auto simp: jwf_JObj mwf_def)
qed simp_all

text \<open>The values that come out of \<open>json.Unmarshal\<close> of a text the agent wrote.\<close>

definition canonical :: "jv \<Rightarrow> bool" where
  "canonical v \<longleftrightarrow> canon v = v"

lemma canonical_canon [simp]: "canonical (canon v)"
  by (simp add: canonical_def)

lemma canonical_JObj: "canonical (JObj m) \<longleftrightarrow> sorted (map fst m) \<and> (\<forall>v \<in> snd ` set m. canonical v)"
proof
  assume can: "canonical (JObj m)"
  then have eq: "sort_key fst (map (map_prod id canon) m) = m"
    by (simp add: canonical_def)
  then have "sorted (map fst m)"
    by (metis sorted_sort_key)
  moreover have "map (map_prod id canon) m = m"
  proof -
    have "sorted (map fst (map (map_prod id canon) m))"
      using \<open>sorted (map fst m)\<close> by simp
    with eq show ?thesis
      by (simp only: sort_key_id_if_sorted)
  qed
  then have "\<forall>p \<in> set m. map_prod id canon p = p"
    by (metis map_eq_conv list.map_id0 id_apply)
  ultimately show "sorted (map fst m) \<and> (\<forall>v \<in> snd ` set m. canonical v)"
    by (auto simp: prod_eq_iff canonical_def)
next
  assume *: "sorted (map fst m) \<and> (\<forall>v \<in> snd ` set m. canonical v)"
  then have "map (map_prod id canon) m = m"
    by (intro map_idI) (auto simp: prod_eq_iff canonical_def)
  with * show "canonical (JObj m)"
    by (simp add: sort_key_id_if_sorted canonical_def)
qed

lemma keys_mput_present: "k \<in> mkeys m \<Longrightarrow> map fst (mput k v m) = map fst m"
  by (induction m) (auto simp: mput_def mkeys_def)

lemma canonical_mput:
  "canonical (JObj m) \<Longrightarrow> canonical v \<Longrightarrow> k \<in> mkeys m \<Longrightarrow>
   canonical (JObj (mput k v m))"
  unfolding canonical_JObj by (auto simp: keys_mput_present dest: in_mput)

lemma mput_restore: "mget m k = Some old \<Longrightarrow> mput k old (mput k v m) = m"
  by (induction m) (auto simp: mput_def)

lemma canonical_mget: "canonical (JObj m) \<Longrightarrow> mget m k = Some v \<Longrightarrow> canonical v"
  unfolding canonical_JObj by (force simp: mget_def dest: map_of_SomeD)

lemma canonical_JArr: "canonical (JArr vs) \<longleftrightarrow> (\<forall>v \<in> set vs. canonical v)"
  unfolding canonical_def by (auto intro: map_idI) (metis map_eq_conv list.map_id0 id_apply)

end
