(* ===== verification/Models.thy ===== *)
theory Models
  imports Json
begin

text \<open>
  The data of \<open>internal/models/models.go\<close> and its JSON form, with the \<open>omitempty\<close> rules of the
  struct tags.  A \<open>time.Time\<close> that goes through JSON is the instant with the RFC 3339 text it is
  written as.  \<open>Options\<close> is a map of JSON values; a nil map is the empty one.
\<close>

type_synonym stamp = "time \<times> string"

record User =
  SubID :: string
  UUID :: string
  InboundTag :: string
  Email :: string
  Enabled :: bool
  Flow :: string
  LimitIP :: int
  UploadLimit :: uint64
  DownloadLimit :: uint64
  ResetAt :: "stamp option"

record Inbound =
  Tag :: string
  Type :: string
  Listen :: string
  Port :: int
  Options :: jobj

record DesiredState =
  ds_Version :: int
  ds_Inbounds :: "Inbound list"
  ds_Users :: "User list"

text \<open>A field with \<open>omitempty\<close> is left out when it is the zero value.\<close>

definition opt_string :: "string \<Rightarrow> string \<Rightarrow> (string \<times> jv) list" where
  "opt_string key s = (if s = [] then [] else [(key, JStr s)])"

definition opt_int :: "string \<Rightarrow> int \<Rightarrow> (string \<times> jv) list" where
  "opt_int key i = (if i = 0 then [] else [(key, JInt i)])"

definition user_fields :: "User \<Rightarrow> jobj" where
  "user_fields u =
     [(''subId'', JStr (SubID u))] @ opt_string ''uuid'' (UUID u) @ [(''inboundTag'', JStr (InboundTag u))]
     @ opt_string ''email'' (Email u) @ [(''enabled'', JBool (Enabled u))] @ opt_string ''flow'' (Flow u)
     @ opt_int ''limitIp'' (LimitIP u) @ opt_int ''uploadLimit'' (uint (UploadLimit u))
     @ opt_int ''downloadLimit'' (uint (DownloadLimit u))
     @ (case ResetAt u of None \<Rightarrow> [] | Some (t, txt) \<Rightarrow> [(''resetAt'', JStr txt)])"

definition inbound_fields :: "Inbound \<Rightarrow> jobj" where
  "inbound_fields i =
     [(''tag'', JStr (Tag i)), (''type'', JStr (Type i))] @ opt_string ''listen'' (Listen i)
     @ opt_int ''port'' (Port i) @ (if Options i = [] then [] else [(''options'', JObj (Options i))])"

text \<open>\<open>modelToMap\<close>: through JSON text and back.\<close>

definition modelToMap :: "jobj \<Rightarrow> jobj" where
  "modelToMap fs = (case canon (JObj fs) of JObj m \<Rightarrow> m | _ \<Rightarrow> [])"

lemma modelToMap_simp: "modelToMap m = sort_key fst (map (map_prod id canon) m)"
  by (simp add: modelToMap_def)

lemma canon_JObj: "canon (JObj m) = JObj (modelToMap m)"
  by (simp add: modelToMap_simp)

lemma fresh_fields:
  "k \<noteq> j \<Longrightarrow> k \<notin> mkeys m \<Longrightarrow> k \<notin> mkeys (opt_string j s @ m)"
  "k \<noteq> j \<Longrightarrow> k \<notin> mkeys m \<Longrightarrow> k \<notin> mkeys (opt_int j i @ m)"
  "k \<noteq> j \<Longrightarrow> k \<notin> mkeys m \<Longrightarrow> k \<notin> mkeys ([(j, v)] @ m)"
  "k \<noteq> j \<Longrightarrow> k \<notin> mkeys (case r of None \<Rightarrow> [] | Some (t, x) \<Rightarrow> [(j, JStr x)])"
  by (auto simp: mkeys_def opt_string_def opt_int_def split: option.split)

lemma mwf_fields:
  "j \<notin> mkeys m \<Longrightarrow> mwf m \<Longrightarrow> mwf (opt_string j s @ m)"
  "j \<notin> mkeys m \<Longrightarrow> mwf m \<Longrightarrow> mwf (opt_int j i @ m)"
  "j \<notin> mkeys m \<Longrightarrow> mwf m \<Longrightarrow> mwf ([(j, v)] @ m)"
  "mwf (case r of None \<Rightarrow> [] | Some (t, x) \<Rightarrow> [(j, JStr x)])"
  by (auto simp: mwf_def mkeys_def opt_string_def opt_int_def split: option.split)

lemma mwf_user_fields: "mwf (user_fields u)"
  unfolding user_fields_def append_assoc
  by (intro mwf_fields fresh_fields) (simp_all only: list.inject char.inject, simp_all)

lemma mwf_inbound_fields: "mwf (inbound_fields i)"
  by (simp add: inbound_fields_def opt_string_def opt_int_def mwf_def)

lemma mget_append: "mget (a @ b) k = (case mget a k of None \<Rightarrow> mget b k | Some v \<Rightarrow> Some v)"
  by (induction a) auto

lemma mget_modelToMap: "mwf m \<Longrightarrow> mget (modelToMap m) k = map_option canon (mget m k)"
  by (simp add: modelToMap_simp mget_canon)

lemma getString_modelToMap: "mwf m \<Longrightarrow> getString (modelToMap m) k = getString m k"
  by (simp add: modelToMap_simp getString_canon)

lemma mwf_modelToMap: "mwf m \<Longrightarrow> mwf (modelToMap m)"
  by (simp add: modelToMap_simp mwf_canon)

lemma getString_inbound_fields [simp]:
  "getString (modelToMap (inbound_fields i)) ''tag'' = Tag i"
  "getString (modelToMap (inbound_fields i)) ''type'' = Type i"
  by (simp_all add: getString_modelToMap mwf_inbound_fields)
    (simp_all add: getString_def inbound_fields_def)

lemma getString_user_fields [simp]:
  "getString (modelToMap (user_fields u)) ''subId'' = SubID u"
  by (simp add: getString_modelToMap mwf_user_fields) (simp add: getString_def user_fields_def)

end
