(* ===== verification/ConfigManager.thy ===== *)
theory ConfigManager
  imports Models
begin

text \<open>
  The desired-state writer of the sing-box configuration, \<open>internal/sync/config_manager.go\<close>.
  Every operation is one load-modify-save cycle under \<open>m.mu\<close> and the lock of \<open>cfglock\<close>, hence one
  step on the file.  The file is \<^term>\<open>None\<close> when it cannot be read.  \<open>os.WriteFile\<close> truncates
  the file before it writes: when it fails, the file is left with what was written so far, the
  argument of \<open>WriteFails\<close>.
\<close>

section \<open>Model\<close>

type_synonym cfgfile = "content option"

datatype write_outcome = WriteOk | WriteFails content

datatype cm_error =
    ReadConfig | ParseConfig | WriteConfig
  | InboundsNotFound | InvalidInbounds | InboundNotFound string | InboundExists string
  | InvalidUsers | InvalidOptions | InvalidOptionsUsers | UsersListNotFound
  | UserExists string | UserNotFound string
  | NoConfigManager | MissingPrevious | NoReloader | ReloadFailed string

definition loadConfigMap :: "cfgfile \<Rightarrow> cm_error + jobj" where
  "loadConfigMap f =
     (case f of
        None \<Rightarrow> Inl ReadConfig
      | Some data \<Rightarrow>
          (case Unmarshal data of
             Some (JObj cfg) \<Rightarrow> Inr cfg
           | Some JNull \<Rightarrow> Inr []
           | _ \<Rightarrow> Inl ParseConfig))"

definition saveConfigMap :: "write_outcome \<Rightarrow> jobj \<Rightarrow> cfgfile \<times> cm_error option" where
  "saveConfigMap w cfg =
     (case w of
        WriteOk \<Rightarrow> (Some (MarshalIndent (JObj cfg)), None)
      | WriteFails partial \<Rightarrow> (Some partial, Some WriteConfig))"

definition inboundsSlice :: "jobj \<Rightarrow> bool \<Rightarrow> cm_error + jv list" where
  "inboundsSlice cfg create =
     (case mget cfg ''inbounds'' of
        None \<Rightarrow> if create then Inr [] else Inl InboundsNotFound
      | Some (JArr inbounds) \<Rightarrow> Inr inbounds
      | Some _ \<Rightarrow> Inl InvalidInbounds)"

text \<open>The position of the first object with a given tag; a missing or non-string tag reads as empty.\<close>

fun find_tag :: "string \<Rightarrow> jv list \<Rightarrow> (nat \<times> jobj) option" where
  "find_tag tag [] = None"
| "find_tag tag (JObj m # vs) =
     (if getString m ''tag'' = tag then Some (0, m) else map_option (apfst Suc) (find_tag tag vs))"
| "find_tag tag (v # vs) = map_option (apfst Suc) (find_tag tag vs)"

text \<open>
  \<open>findInbound\<close> returns a reference into \<open>cfg\<close>: the position of the inbound in the slice, and
  the inbound.
\<close>

definition findInbound :: "jobj \<Rightarrow> string \<Rightarrow> cm_error + (jv list \<times> nat \<times> jobj)" where
  "findInbound cfg tag =
     bindE (inboundsSlice cfg False) (\<lambda>inbounds.
       case find_tag tag inbounds of
         None \<Rightarrow> Inl (InboundNotFound tag)
       | Some (i, inbound) \<Rightarrow> Inr (inbounds, i, inbound))"

text \<open>Where the users of an inbound are, the closure \<open>setUsers\<close> of the source.\<close>

datatype users_loc = InInbound | InOptions jobj

definition usersAccessor :: "jobj \<Rightarrow> bool \<Rightarrow> cm_error + (jv list \<times> users_loc)" where
  "usersAccessor inbound create =
     (case mget inbound ''users'' of
        Some (JArr users) \<Rightarrow> Inr (users, InInbound)
      | Some _ \<Rightarrow> Inl InvalidUsers
      | None \<Rightarrow>
          let fallback = (if create then Inr ([], InInbound) else Inl UsersListNotFound)
          in case mget inbound ''options'' of
               None \<Rightarrow> fallback
             | Some (JObj options) \<Rightarrow>
                 (case mget options ''users'' of
                    Some (JArr users) \<Rightarrow> Inr (users, InOptions options)
                  | Some _ \<Rightarrow> Inl InvalidOptionsUsers
                  | None \<Rightarrow> fallback)
             | Some _ \<Rightarrow> Inl InvalidOptions)"

fun setUsers :: "users_loc \<Rightarrow> jv list \<Rightarrow> jobj \<Rightarrow> jobj" where
  "setUsers InInbound updated inbound = mput ''users'' (JArr updated) inbound"
| "setUsers (InOptions options) updated inbound =
     mput ''options'' (JObj (mput ''users'' (JArr updated) options)) inbound"

definition userMapMatchesSubID :: "jobj \<Rightarrow> string \<Rightarrow> bool" where
  "userMapMatchesSubID userMap subID \<longleftrightarrow>
     mget userMap ''subId'' = Some (JStr subID) \<or> mget userMap ''sub_id'' = Some (JStr subID) \<or>
     mget userMap ''uuid'' = Some (JStr subID) \<or> mget userMap ''name'' = Some (JStr subID)"

fun is_user :: "string \<Rightarrow> jv \<Rightarrow> bool" where
  "is_user subID (JObj m) = userMapMatchesSubID m subID"
| "is_user subID _ = False"

fun has_tag :: "string \<Rightarrow> jv \<Rightarrow> bool" where
  "has_tag tag (JObj m) = (getString m ''tag'' = tag)"
| "has_tag tag _ = False"

text \<open>The loops that replace the first match.\<close>

fun replace_first :: "('a \<Rightarrow> bool) \<Rightarrow> ('a \<Rightarrow> 'a) \<Rightarrow> 'a list \<Rightarrow> 'a list" where
  "replace_first P f [] = []"
| "replace_first P f (x # xs) = (if P x then f x # xs else x # replace_first P f xs)"

definition preserveUsers :: "jobj \<Rightarrow> jobj \<Rightarrow> jobj" where
  "preserveUsers source target =
     (let target =
        (if mget target ''users'' = None
         then (case mget source ''users'' of Some users \<Rightarrow> mput ''users'' users target | None \<Rightarrow> target)
         else target)
      in case mget source ''options'' of
           Some (JObj sourceOptions) \<Rightarrow>
             let targetOptions = (case mget target ''options'' of Some (JObj o1) \<Rightarrow> o1 | _ \<Rightarrow> []);
                 targetOptions =
                   (if mget targetOptions ''users'' = None
                    then (case mget sourceOptions ''users'' of
                            Some users \<Rightarrow> mput ''users'' users targetOptions | None \<Rightarrow> targetOptions)
                    else targetOptions)
             in mput ''options'' (JObj targetOptions) target
         | _ \<Rightarrow> target)"

section \<open>The edits\<close>

definition set_inbounds :: "jv list \<Rightarrow> jobj \<Rightarrow> jobj" where
  "set_inbounds inbounds cfg = mput ''inbounds'' (JArr inbounds) cfg"

definition edit_AddUser :: "string \<Rightarrow> User \<Rightarrow> jobj \<Rightarrow> cm_error + jobj" where
  "edit_AddUser inboundTag user cfg =
     bindE (findInbound cfg inboundTag) (\<lambda>(inbounds, i, inbound).
     bindE (usersAccessor inbound True) (\<lambda>(users, loc).
       if list_ex (is_user (SubID user)) users then Inl (UserExists (SubID user))
       else Inr (set_inbounds (inbounds[i := JObj (setUsers loc
                   (users @ [JObj (modelToMap (user_fields user))]) inbound)]) cfg)))"

definition edit_UpdateUser :: "string \<Rightarrow> User \<Rightarrow> jobj \<Rightarrow> cm_error + jobj" where
  "edit_UpdateUser inboundTag user cfg =
     bindE (findInbound cfg inboundTag) (\<lambda>(inbounds, i, inbound).
     bindE (usersAccessor inbound False) (\<lambda>(users, loc).
       if list_ex (is_user (SubID user)) users
       then Inr (set_inbounds (inbounds[i := JObj (setUsers loc
                   (replace_first (is_user (SubID user)) (\<lambda>_. JObj (modelToMap (user_fields user))) users)
                   inbound)]) cfg)
       else Inl (UserNotFound (SubID user))))"

definition edit_DeleteUser :: "string \<Rightarrow> string \<Rightarrow> jobj \<Rightarrow> cm_error + jobj" where
  "edit_DeleteUser inboundTag subID cfg =
     bindE (findInbound cfg inboundTag) (\<lambda>(inbounds, i, inbound).
     bindE (usersAccessor inbound False) (\<lambda>(users, loc).
       if list_ex (is_user subID) users
       then Inr (set_inbounds (inbounds[i := JObj (setUsers loc
                   (filter (\<lambda>e. \<not> is_user subID e) users) inbound)]) cfg)
       else Inl (UserNotFound subID)))"

definition edit_AddInbound :: "Inbound \<Rightarrow> jobj \<Rightarrow> cm_error + jobj" where
  "edit_AddInbound inbound cfg =
     bindE (inboundsSlice cfg True) (\<lambda>inbounds.
       if list_ex (has_tag (Tag inbound)) inbounds then Inl (InboundExists (Tag inbound))
       else Inr (set_inbounds (inbounds @ [JObj (modelToMap (inbound_fields inbound))]) cfg))"

definition update_inbound :: "jobj \<Rightarrow> jv \<Rightarrow> jv" where
  "update_inbound inboundMap existing =
     (case existing of JObj m \<Rightarrow> JObj (preserveUsers m inboundMap) | v \<Rightarrow> v)"

definition edit_UpdateInbound :: "Inbound \<Rightarrow> jobj \<Rightarrow> cm_error + jobj" where
  "edit_UpdateInbound inbound cfg =
     bindE (inboundsSlice cfg False) (\<lambda>inbounds.
       if list_ex (has_tag (Tag inbound)) inbounds
       then Inr (set_inbounds (replace_first (has_tag (Tag inbound))
                   (update_inbound (modelToMap (inbound_fields inbound))) inbounds) cfg)
       else Inl (InboundNotFound (Tag inbound)))"

definition edit_DeleteInbound :: "string \<Rightarrow> jobj \<Rightarrow> cm_error + jobj" where
  "edit_DeleteInbound tag cfg =
     bindE (inboundsSlice cfg False) (\<lambda>inbounds.
       if list_ex (has_tag tag) inbounds
       then Inr (set_inbounds (filter (\<lambda>e. \<not> has_tag tag e) inbounds) cfg)
       else Inl (InboundNotFound tag))"

section \<open>The operations\<close>

definition load_edit_save ::
  "(jobj \<Rightarrow> cm_error + jobj) \<Rightarrow> write_outcome \<Rightarrow> cfgfile \<Rightarrow> cfgfile \<times> cm_error option" where
  "load_edit_save edit w f =
     (case bindE (loadConfigMap f) edit of
        Inl err \<Rightarrow> (f, Some err)
      | Inr cfg \<Rightarrow> saveConfigMap w cfg)"

definition cm_AddUser :: "string \<Rightarrow> User \<Rightarrow> write_outcome \<Rightarrow> cfgfile \<Rightarrow> cfgfile \<times> cm_error option" where
  "cm_AddUser inboundTag user = load_edit_save (edit_AddUser inboundTag user)"

definition cm_UpdateUser :: "string \<Rightarrow> User \<Rightarrow> write_outcome \<Rightarrow> cfgfile \<Rightarrow> cfgfile \<times> cm_error option" where
  "cm_UpdateUser inboundTag user = load_edit_save (edit_UpdateUser inboundTag user)"

definition cm_DeleteUser :: "string \<Rightarrow> string \<Rightarrow> write_outcome \<Rightarrow> cfgfile \<Rightarrow> cfgfile \<times> cm_error option" where
  "cm_DeleteUser inboundTag subID = load_edit_save (edit_DeleteUser inboundTag subID)"

definition cm_AddInbound :: "Inbound \<Rightarrow> write_outcome \<Rightarrow> cfgfile \<Rightarrow> cfgfile \<times> cm_error option" where
  "cm_AddInbound inbound = load_edit_save (edit_AddInbound inbound)"

definition cm_UpdateInbound :: "Inbound \<Rightarrow> write_outcome \<Rightarrow> cfgfile \<Rightarrow> cfgfile \<times> cm_error option" where
  "cm_UpdateInbound inbound = load_edit_save (edit_UpdateInbound inbound)"

definition cm_DeleteInbound :: "string \<Rightarrow> write_outcome \<Rightarrow> cfgfile \<Rightarrow> cfgfile \<times> cm_error option" where
  "cm_DeleteInbound tag = load_edit_save (edit_DeleteInbound tag)"

section \<open>What the edits do\<close>

text \<open>The inbounds of a configuration and their tags, in order.\<close>

definition inbound_objs :: "jobj \<Rightarrow> jobj list" where
  "inbound_objs cfg = (case mget cfg ''inbounds'' of Some (JArr vs) \<Rightarrow> objects vs | _ \<Rightarrow> [])"

definition tags_of :: "jobj \<Rightarrow> string list" where
  "tags_of cfg = map (\<lambda>m. getString m ''tag'') (inbound_objs cfg)"

lemma tags_of_set_inbounds [simp]:
  "tags_of (set_inbounds vs cfg) = map (\<lambda>m. getString m ''tag'') (objects vs)"
  by (simp add: tags_of_def inbound_objs_def set_inbounds_def)

lemma inboundsSlice_ok:
  "inboundsSlice cfg create = Inr vs \<Longrightarrow> tags_of cfg = map (\<lambda>m. getString m ''tag'') (objects vs)"
  by (auto simp: inboundsSlice_def tags_of_def inbound_objs_def split: option.splits jv.splits if_splits)

lemma inboundsSlice_False: "inboundsSlice cfg False = Inr vs \<longleftrightarrow> mget cfg ''inbounds'' = Some (JArr vs)"
  by (auto simp: inboundsSlice_def split: option.splits jv.splits)

lemma ex_has_tag: "list_ex (has_tag tag) vs \<longleftrightarrow> tag \<in> (\<lambda>m. getString m ''tag'') ` set (objects vs)"
  by (induction vs rule: objects.induct) auto

lemma find_tag_Some:
  "find_tag tag vs = Some (i, m) \<Longrightarrow> i < length vs \<and> vs ! i = JObj m \<and> getString m ''tag'' = tag \<and>
     (\<forall>j < i. \<not> has_tag tag (vs ! j))"
proof (induction vs arbitrary: i)
  case (Cons v vs)
  then show ?case
    by (cases v; cases i) (auto simp: less_Suc_eq_0_disj split: if_splits)
qed simp

lemma find_tag_None: "find_tag tag vs = None \<longleftrightarrow> \<not> list_ex (has_tag tag) vs"
  by (induction tag vs rule: find_tag.induct) auto

lemma objects_update:
  "i < length vs \<Longrightarrow> vs ! i = JObj m \<Longrightarrow> getString m' ''tag'' = getString m ''tag'' \<Longrightarrow>
   map (\<lambda>m. getString m ''tag'') (objects (vs[i := JObj m'])) = map (\<lambda>m. getString m ''tag'') (objects vs)"
proof (induction vs arbitrary: i)
  case (Cons v vs)
  then show ?case
    by (cases i; cases v) auto
qed simp

lemma getString_setUsers: "k \<noteq> ''users'' \<Longrightarrow> k \<noteq> ''options'' \<Longrightarrow> getString (setUsers loc us m) k = getString m k"
  by (cases loc) (simp_all add: getString_mput)

lemma getString_preserveUsers:
  "k \<noteq> ''users'' \<Longrightarrow> k \<noteq> ''options'' \<Longrightarrow> getString (preserveUsers s t) k = getString t k"
  by (simp add: preserveUsers_def getString_mput Let_def split: option.split jv.split)

text \<open>The edits of users leave the tags as they are.\<close>

lemma findInbound_Inr:
  "findInbound cfg tag = Inr (vs, i, m) \<longleftrightarrow>
     mget cfg ''inbounds'' = Some (JArr vs) \<and> find_tag tag vs = Some (i, m)"
  by (auto simp: findInbound_def inboundsSlice_def split: option.splits jv.splits)

lemma user_edit_tags:
  assumes "findInbound cfg tag = Inr (vs, i, m)"
  shows "tags_of (set_inbounds (vs[i := JObj (setUsers loc us m)]) cfg) = tags_of cfg"
proof -
  have "i < length vs" "vs ! i = JObj m" "tags_of cfg = map (\<lambda>m. getString m ''tag'') (objects vs)"
    using assms find_tag_Some by (auto simp: findInbound_Inr tags_of_def inbound_objs_def)
  then show ?thesis
    by (simp add: objects_update getString_setUsers)
qed

lemma edit_AddUser_tags: "edit_AddUser tag u cfg = Inr cfg' \<Longrightarrow> tags_of cfg' = tags_of cfg"
  by (auto simp: edit_AddUser_def bindE_eq_Inr_iff simp del: tags_of_set_inbounds split: if_splits intro!: user_edit_tags)

lemma edit_UpdateUser_tags: "edit_UpdateUser tag u cfg = Inr cfg' \<Longrightarrow> tags_of cfg' = tags_of cfg"
  by (auto simp: edit_UpdateUser_def bindE_eq_Inr_iff simp del: tags_of_set_inbounds split: if_splits intro!: user_edit_tags)

lemma edit_DeleteUser_tags: "edit_DeleteUser tag s cfg = Inr cfg' \<Longrightarrow> tags_of cfg' = tags_of cfg"
  by (auto simp: edit_DeleteUser_def bindE_eq_Inr_iff simp del: tags_of_set_inbounds split: if_splits intro!: user_edit_tags)

lemma edit_AddInbound_tags:
  "edit_AddInbound i cfg = Inr cfg' \<Longrightarrow> tags_of cfg' = tags_of cfg @ [Tag i] \<and> Tag i \<notin> set (tags_of cfg)"
  by (auto simp: edit_AddInbound_def bindE_eq_Inr_iff ex_has_tag inboundsSlice_ok split: if_splits)

lemma tags_replace_first:
  assumes "getString inboundMap ''tag'' = tag"
  shows "map (\<lambda>m. getString m ''tag'') (objects (replace_first (has_tag tag) (update_inbound inboundMap) vs)) =
    map (\<lambda>m. getString m ''tag'') (objects vs)"
  using assms by (induction vs rule: objects.induct) (auto simp: update_inbound_def getString_preserveUsers)

lemma edit_UpdateInbound_tags:
  "edit_UpdateInbound i cfg = Inr cfg' \<Longrightarrow> tags_of cfg' = tags_of cfg \<and> Tag i \<in> set (tags_of cfg)"
  by (auto simp: edit_UpdateInbound_def bindE_eq_Inr_iff ex_has_tag inboundsSlice_ok tags_replace_first
      split: if_splits)

lemma tags_filter:
  "map (\<lambda>m. getString m ''tag'') (objects (filter (\<lambda>e. \<not> has_tag tag e) vs)) =
   filter (\<lambda>t. t \<noteq> tag) (map (\<lambda>m. getString m ''tag'') (objects vs))"
  by (induction vs rule: objects.induct) auto

lemma edit_DeleteInbound_tags:
  "edit_DeleteInbound tag cfg = Inr cfg' \<Longrightarrow>
   tags_of cfg' = filter (\<lambda>t. t \<noteq> tag) (tags_of cfg) \<and> tag \<in> set (tags_of cfg)"
  by (auto simp: edit_DeleteInbound_def bindE_eq_Inr_iff ex_has_tag inboundsSlice_ok tags_filter
      split: if_splits)

text \<open>When an edit succeeds, other than by a missing or misplaced list.\<close>

lemma edit_AddInbound_ok:
  "mget cfg ''inbounds'' = Some (JArr vs) \<Longrightarrow> Tag i \<notin> set (tags_of cfg) \<Longrightarrow> \<exists>cfg'. edit_AddInbound i cfg = Inr cfg'"
  by (auto simp: edit_AddInbound_def inboundsSlice_def ex_has_tag tags_of_def inbound_objs_def)

section \<open>Well-formed configurations\<close>

lemma jwf_set_inbounds: "jwf (JObj cfg) \<Longrightarrow> \<forall>v \<in> set vs. jwf v \<Longrightarrow> jwf (JObj (set_inbounds vs cfg))"
  by (simp add: set_inbounds_def jwf_mput jwf_JArr)

definition inbound_wf :: "Inbound \<Rightarrow> bool" where
  "inbound_wf i \<longleftrightarrow> jwf (JObj (Options i))"

lemma jwf_modelToMap: "jwf (JObj m) \<Longrightarrow> jwf (JObj (modelToMap m))"
  using jwf_canon [of "JObj m"] by (simp add: modelToMap_simp)

lemma jwf_user_fields: "jwf (JObj (user_fields u))"
  using mwf_user_fields [of u]
  by (auto simp: jwf_JObj user_fields_def opt_string_def opt_int_def split: if_splits option.splits)

lemma jwf_inbound_fields: "inbound_wf i \<Longrightarrow> jwf (JObj (inbound_fields i))"
  using mwf_inbound_fields [of i]
  by (auto simp: jwf_JObj [of "inbound_fields i"] inbound_wf_def)
    (auto simp: inbound_fields_def opt_string_def opt_int_def split: if_splits)

lemma jwf_inbounds: "jwf (JObj cfg) \<Longrightarrow> inboundsSlice cfg c = Inr vs \<Longrightarrow> \<forall>v \<in> set vs. jwf v"
  by (auto simp: inboundsSlice_def jwf_JArr split: option.splits jv.splits if_splits dest!: jwf_mget)

lemma jwf_JArr_Nil [simp]: "jwf (JArr [])"
  by (simp add: jwf_JArr)

lemma jwf_usersAccessor:
  "jwf (JObj m) \<Longrightarrow> usersAccessor m c = Inr (us, loc) \<Longrightarrow>
   (\<forall>u \<in> set us. jwf u) \<and> (\<forall>o1. loc = InOptions o1 \<longrightarrow> jwf (JObj o1))"
  by (auto simp: usersAccessor_def Let_def jwf_JArr [symmetric] split: option.splits jv.splits if_splits dest: jwf_mget)

lemma jwf_setUsers:
  "jwf (JObj m) \<Longrightarrow> \<forall>u \<in> set us. jwf u \<Longrightarrow> \<forall>o1. loc = InOptions o1 \<longrightarrow> jwf (JObj o1) \<Longrightarrow>
   jwf (JObj (setUsers loc us m))"
  by (cases loc) (simp_all add: jwf_mput jwf_JArr)

lemma jwf_user_edit:
  assumes "jwf (JObj cfg)" and "findInbound cfg tag = Inr (vs, i, m)" and "usersAccessor m c = Inr (us, loc)"
    and "\<forall>u \<in> set us'. jwf u \<or> u \<in> set us"
  shows "jwf (JObj (set_inbounds (vs[i := JObj (setUsers loc us' m)]) cfg))"
proof -
  have vs: "\<forall>v \<in> set vs. jwf v"
    using assms(1,2) jwf_inbounds [of cfg False vs] by (simp add: findInbound_Inr inboundsSlice_False)
  moreover have "i < length vs" "vs ! i = JObj m"
    using assms(2) find_tag_Some by (auto simp: findInbound_Inr)
  ultimately have m: "jwf (JObj m)"
    by (metis nth_mem)
  note acc = jwf_usersAccessor [OF m assms(3)]
  have "\<forall>u \<in> set us'. jwf u"
    using acc assms(4) by blast
  with m acc have "jwf (JObj (setUsers loc us' m))"
    by (intro jwf_setUsers) simp_all
  with vs have "\<forall>v \<in> set (vs[i := JObj (setUsers loc us' m)]). jwf v"
    using set_update_subset_insert [of vs i "JObj (setUsers loc us' m)"] by blast
  with assms(1) show ?thesis
    by (rule jwf_set_inbounds)
qed

lemma set_replace_first: "set (replace_first P f xs) \<subseteq> set xs \<union> f ` set (filter P xs)"
  by (induction xs) auto

lemma jwf_user_map: "jwf (JObj (modelToMap (user_fields u)))"
  by (rule jwf_modelToMap) (rule jwf_user_fields)

lemma jwf_edit_user:
  assumes "jwf (JObj cfg)"
  shows "edit_AddUser tag u cfg = Inr cfg' \<Longrightarrow> jwf (JObj cfg')"
    and "edit_UpdateUser tag u cfg = Inr cfg' \<Longrightarrow> jwf (JObj cfg')"
    and "edit_DeleteUser tag s cfg = Inr cfg' \<Longrightarrow> jwf (JObj cfg')"
proof -
  assume "edit_AddUser tag u cfg = Inr cfg'"
  with assms show "jwf (JObj cfg')"
    by (auto simp: edit_AddUser_def bindE_eq_Inr_iff jwf_user_map split: if_splits intro!: jwf_user_edit)
next
  assume "edit_UpdateUser tag u cfg = Inr cfg'"
  with assms show "jwf (JObj cfg')"
    using set_replace_first [of "is_user (SubID u)" "\<lambda>_. JObj (modelToMap (user_fields u))"] jwf_user_map [of u]
    by (fastforce simp: edit_UpdateUser_def bindE_eq_Inr_iff split: if_splits intro!: jwf_user_edit)
next
  assume "edit_DeleteUser tag s cfg = Inr cfg'"
  with assms show "jwf (JObj cfg')"
    by (auto simp: edit_DeleteUser_def bindE_eq_Inr_iff split: if_splits intro!: jwf_user_edit)
qed

lemma jwf_preserveUsers:
  assumes "jwf (JObj s)" and "jwf (JObj t)"
  shows "jwf (JObj (preserveUsers s t))"
proof -
  define t1 where "t1 = (if mget t ''users'' = None
      then (case mget s ''users'' of Some users \<Rightarrow> mput ''users'' users t | None \<Rightarrow> t) else t)"
  have t1: "jwf (JObj t1)"
    using assms by (auto simp: t1_def jwf_mput split: option.split dest: jwf_mget)
  show ?thesis
  proof (cases "\<exists>so. mget s ''options'' = Some (JObj so)")
    case True
    then obtain so where so: "mget s ''options'' = Some (JObj so)"
      by blast
    define t2 where "t2 = (case mget t1 ''options'' of Some (JObj o1) \<Rightarrow> o1 | _ \<Rightarrow> [])"
    define t3 where "t3 = (if mget t2 ''users'' = None
      then (case mget so ''users'' of Some users \<Rightarrow> mput ''users'' users t2 | None \<Rightarrow> t2) else t2)"
    have "jwf (JObj so)"
      using assms(1) so by (rule jwf_mget)
    moreover have "jwf (JObj t2)"
      using t1 by (auto simp: t2_def jwf_JObj [of "[]"] split: option.split jv.split dest: jwf_mget)
    ultimately have "jwf (JObj t3)"
      by (auto simp: t3_def jwf_mput split: option.split dest: jwf_mget)
    moreover have "preserveUsers s t = mput ''options'' (JObj t3) t1"
      unfolding preserveUsers_def Let_def t1_def [symmetric] so t2_def [symmetric] by (simp add: t3_def)
    ultimately show ?thesis
      using t1 by (simp add: jwf_mput)
  next
    case False
    then have "preserveUsers s t = t1"
      unfolding preserveUsers_def Let_def t1_def [symmetric] by (auto split: option.split jv.split)
    with t1 show ?thesis
      by simp
  qed
qed

lemma jwf_edit_inbound:
  assumes "jwf (JObj cfg)" and "inbound_wf i"
  shows "edit_AddInbound i cfg = Inr cfg' \<Longrightarrow> jwf (JObj cfg')"
    and "edit_UpdateInbound i cfg = Inr cfg' \<Longrightarrow> jwf (JObj cfg')"
proof -
  have new: "jwf (JObj (modelToMap (inbound_fields i)))"
    using assms(2) by (intro jwf_modelToMap jwf_inbound_fields)
  { assume "edit_AddInbound i cfg = Inr cfg'"
    then show "jwf (JObj cfg')"
      using assms(1) new jwf_inbounds [OF assms(1), of True]
      by (auto simp: edit_AddInbound_def bindE_eq_Inr_iff split: if_splits intro!: jwf_set_inbounds) }
  { assume "edit_UpdateInbound i cfg = Inr cfg'"
    then obtain vs where vs: "inboundsSlice cfg False = Inr vs" and
      cfg': "cfg' = set_inbounds (replace_first (has_tag (Tag i)) (update_inbound (modelToMap (inbound_fields i))) vs) cfg"
      by (auto simp: edit_UpdateInbound_def bindE_eq_Inr_iff split: if_splits)
    have wf: "\<forall>v \<in> set vs. jwf v"
      using assms(1) vs by (rule jwf_inbounds)
    then have "jwf (update_inbound (modelToMap (inbound_fields i)) v)" if "v \<in> set vs" for v
      using that new by (cases v) (auto simp: update_inbound_def jwf_preserveUsers)
    with wf have "\<forall>v \<in> set (replace_first (has_tag (Tag i)) (update_inbound (modelToMap (inbound_fields i))) vs). jwf v"
      using set_replace_first [of "has_tag (Tag i)" "update_inbound (modelToMap (inbound_fields i))" vs]
      by auto
    with assms(1) show "jwf (JObj cfg')"
      unfolding cfg' by (rule jwf_set_inbounds) }
qed

lemma jwf_edit_DeleteInbound:
  "jwf (JObj cfg) \<Longrightarrow> edit_DeleteInbound tag cfg = Inr cfg' \<Longrightarrow> jwf (JObj cfg')"
  using jwf_inbounds [of cfg False]
  by (auto simp: edit_DeleteInbound_def bindE_eq_Inr_iff split: if_splits intro!: jwf_set_inbounds)

section \<open>The operations on the file\<close>

definition file_ok :: "cfgfile \<Rightarrow> bool" where
  "file_ok f \<longleftrightarrow> (\<exists>cfg. loadConfigMap f = Inr cfg \<and> jwf (JObj cfg))"

definition file_tags :: "cfgfile \<Rightarrow> string list" where
  "file_tags f = (case loadConfigMap f of Inr cfg \<Rightarrow> tags_of cfg | Inl _ \<Rightarrow> [])"

lemma load_MarshalIndent [simp]: "loadConfigMap (Some (MarshalIndent (JObj cfg))) = Inr (modelToMap cfg)"
  by (simp add: loadConfigMap_def modelToMap_def)

lemma objects_map_canon: "objects (map canon vs) = map modelToMap (objects vs)"
  by (induction vs rule: objects.induct) (simp_all add: modelToMap_simp)

lemma tags_modelToMap: "jwf (JObj cfg) \<Longrightarrow> tags_of (modelToMap cfg) = tags_of cfg"
proof -
  assume wf: "jwf (JObj cfg)"
  then have "mget (modelToMap cfg) ''inbounds'' = map_option canon (mget cfg ''inbounds'')"
    by (simp add: mget_modelToMap jwf_JObj)
  moreover have "getString (modelToMap m) ''tag'' = getString m ''tag''"
    if "mget cfg ''inbounds'' = Some (JArr vs)" "m \<in> set (objects vs)" for vs m
    using jwf_mget [OF wf that(1)] that(2)
    by (intro getString_modelToMap) (auto simp: jwf_JArr set_objects jwf_JObj)
  ultimately show ?thesis
    by (auto simp: tags_of_def inbound_objs_def objects_map_canon split: option.split jv.split)
qed

lemma load_edit_save_ok:
  assumes "load_edit_save edit w f = (f', None)"
  obtains cfg cfg' where "loadConfigMap f = Inr cfg" "edit cfg = Inr cfg'" "w = WriteOk"
    "f' = Some (MarshalIndent (JObj cfg'))"
proof -
  from assms obtain cfg' where "bindE (loadConfigMap f) edit = Inr cfg'" "saveConfigMap w cfg' = (f', None)"
    by (auto simp: load_edit_save_def split: sum.splits)
  then show thesis
    using that by (auto simp: bindE_eq_Inr_iff saveConfigMap_def split: write_outcome.splits)
qed

lemma load_edit_save_error:
  "load_edit_save edit w f = (f', Some e) \<Longrightarrow> f' = f \<or> (\<exists>partial. w = WriteFails partial \<and> f' = Some partial \<and> e = WriteConfig)"
  by (auto simp: load_edit_save_def saveConfigMap_def split: sum.splits write_outcome.splits)

lemma load_edit_save_tags:
  assumes "file_ok f" and "load_edit_save edit w f = (f', None)"
    and "\<And>cfg cfg'. jwf (JObj cfg) \<Longrightarrow> edit cfg = Inr cfg' \<Longrightarrow> jwf (JObj cfg') \<and> P (tags_of cfg) (tags_of cfg')"
  shows "file_ok f' \<and> P (file_tags f) (file_tags f')"
  using assms(2)
proof (rule load_edit_save_ok)
  fix cfg cfg'
  assume *: "loadConfigMap f = Inr cfg" "edit cfg = Inr cfg'" "f' = Some (MarshalIndent (JObj cfg'))"
  with assms(1) have "jwf (JObj cfg)"
    by (simp add: file_ok_def)
  with * assms(3) [of cfg cfg'] show ?thesis
    by (simp add: file_ok_def file_tags_def tags_modelToMap jwf_modelToMap)
qed

lemma cm_tags:
  assumes "file_ok f"
  shows "inbound_wf i \<Longrightarrow> cm_AddInbound i w f = (f', None) \<Longrightarrow>
      file_ok f' \<and> (file_tags f' = file_tags f @ [Tag i] \<and> Tag i \<notin> set (file_tags f))"
    and "inbound_wf i \<Longrightarrow> cm_UpdateInbound i w f = (f', None) \<Longrightarrow>
      file_ok f' \<and> (file_tags f' = file_tags f \<and> Tag i \<in> set (file_tags f))"
    and "cm_DeleteInbound tag w f = (f', None) \<Longrightarrow>
      file_ok f' \<and> (file_tags f' = filter (\<lambda>t. t \<noteq> tag) (file_tags f) \<and> tag \<in> set (file_tags f))"
    and "cm_AddUser tag u w f = (f', None) \<Longrightarrow> file_ok f' \<and> file_tags f' = file_tags f"
    and "cm_UpdateUser tag u w f = (f', None) \<Longrightarrow> file_ok f' \<and> file_tags f' = file_tags f"
    and "cm_DeleteUser tag s w f = (f', None) \<Longrightarrow> file_ok f' \<and> file_tags f' = file_tags f"
  unfolding cm_AddInbound_def cm_UpdateInbound_def cm_DeleteInbound_def cm_AddUser_def cm_UpdateUser_def
    cm_DeleteUser_def
  by (erule load_edit_save_tags [OF assms]; auto dest: jwf_edit_inbound jwf_edit_DeleteInbound jwf_edit_user
      edit_AddInbound_tags edit_UpdateInbound_tags edit_DeleteInbound_tags edit_AddUser_tags
      edit_UpdateUser_tags edit_DeleteUser_tags)+

section \<open>Undoing an addition\<close>

text \<open>
  A file the agent wrote is the output of \<open>MarshalIndent\<close>, hence \<open>Doc\<close> of a canonical value.
\<close>

definition written_file :: "jobj \<Rightarrow> cfgfile" where
  "written_file cfg = Some (Doc (JObj cfg))"

lemma load_written_file [simp]: "loadConfigMap (written_file cfg) = Inr cfg"
  by (simp add: loadConfigMap_def written_file_def)

lemma save_canonical:
  "canonical (JObj cfg) \<Longrightarrow> Some (MarshalIndent (JObj cfg)) = written_file cfg"
  by (simp add: MarshalIndent_def written_file_def canonical_def)

lemma canonical_set_inbounds:
  assumes "canonical (JObj cfg)" and "mget cfg ''inbounds'' = Some (JArr vs)"
    and "\<forall>v \<in> set vs'. canonical v \<or> v \<in> set vs"
  shows "canonical (JObj (set_inbounds vs' cfg))"
  unfolding set_inbounds_def
proof (rule canonical_mput [OF assms(1)])
  have "canonical (JArr vs)"
    using assms(1,2) by (rule canonical_mget)
  with assms(3) show "canonical (JArr vs')"
    by (auto simp only: canonical_JArr)
  show "''inbounds'' \<in> mkeys cfg"
    using assms(2) by (simp add: mkeys_mget)
qed

lemma canonical_modelToMap [simp]: "canonical (JObj (modelToMap m))"
  using canonical_canon [of "JObj m"] by (simp only: canon.simps modelToMap_simp)

lemma set_inbounds_restore:
  "mget cfg ''inbounds'' = Some (JArr vs) \<Longrightarrow> set_inbounds vs (set_inbounds vs' cfg) = cfg"
  by (simp add: set_inbounds_def mput_restore)

lemma mget_set_inbounds [simp]: "mget (set_inbounds vs cfg) ''inbounds'' = Some (JArr vs)"
  by (simp add: set_inbounds_def)

lemma find_tag_update:
  "find_tag tag vs = Some (i, m) \<Longrightarrow> getString m' ''tag'' = tag \<Longrightarrow> find_tag tag (vs[i := JObj m']) = Some (i, m')"
proof (induction vs arbitrary: i)
  case (Cons v vs)
  then show ?case
    by (cases v; cases i) (auto split: if_splits)
qed simp

lemma find_tag_other:
  "i < length vs \<Longrightarrow> vs ! i = JObj m \<Longrightarrow> getString m ''tag'' \<noteq> tag \<Longrightarrow> getString m' ''tag'' \<noteq> tag \<Longrightarrow>
   find_tag tag (vs[i := JObj m']) = find_tag tag vs"
proof (induction vs arbitrary: i)
  case (Cons v vs)
  then show ?case
    by (cases i; cases v) auto
qed simp

lemma usersAccessor_setUsers:
  assumes "usersAccessor m False = Inr (us, loc)"
  shows "\<exists>loc'. usersAccessor (setUsers loc us' m) False = Inr (us', loc') \<and>
    setUsers loc' us (setUsers loc us' m) = m"
  using assms
  by (auto simp: usersAccessor_def Let_def mput_restore split: option.splits jv.splits)

lemma usersAccessor_create:
  "usersAccessor m False = Inr r \<Longrightarrow> usersAccessor m True = Inr r"
  by (auto simp: usersAccessor_def Let_def split: option.splits jv.splits)

lemma canonical_setUsers:
  assumes "canonical (JObj m)" and "usersAccessor m False = Inr (us, loc)"
    and "\<forall>u \<in> set us'. canonical u \<or> u \<in> set us"
  shows "canonical (JObj (setUsers loc us' m))"
proof (cases loc)
  case InInbound
  with assms(2) have u: "mget m ''users'' = Some (JArr us)"
    by (auto simp: usersAccessor_def Let_def split: option.splits jv.splits)
  with assms(1) have "canonical (JArr us)"
    by (rule canonical_mget)
  with assms(3) have "canonical (JArr us')"
    by (auto simp only: canonical_JArr)
  with InInbound u assms(1) show ?thesis
    by (simp only: setUsers.simps) (rule canonical_mput; simp add: mkeys_mget)
next
  case (InOptions opts)
  with assms(2) have u: "mget m ''options'' = Some (JObj opts)" "mget opts ''users'' = Some (JArr us)"
    by (auto simp: usersAccessor_def Let_def split: option.splits jv.splits)
  have opts: "canonical (JObj opts)"
    using assms(1) u(1) by (rule canonical_mget)
  then have "canonical (JArr us)"
    using u(2) by (rule canonical_mget)
  with assms(3) have "canonical (JArr us')"
    by (auto simp only: canonical_JArr)
  with opts u(2) have "canonical (JObj (mput ''users'' (JArr us') opts))"
    by (intro canonical_mput) (simp_all add: mkeys_mget)
  with InOptions u(1) assms(1) show ?thesis
    by (simp only: setUsers.simps) (rule canonical_mput; simp add: mkeys_mget)
qed

lemma is_user_new: "is_user (SubID u) (JObj (modelToMap (user_fields u)))"
proof -
  have "mget (user_fields u) ''subId'' = Some (JStr (SubID u))"
    by (simp add: user_fields_def)
  then show ?thesis
    by (simp add: userMapMatchesSubID_def mget_modelToMap mwf_user_fields)
qed

lemma filter_append_new: "\<not> list_ex P us \<Longrightarrow> P v \<Longrightarrow> filter (\<lambda>e. \<not> P e) (us @ [v]) = us"
  by (simp add: list_ex_iff filter_id_conv)

lemma add_delete_inbound:
  assumes "canonical (JObj cfg)" and "mget cfg ''inbounds'' = Some (JArr vs)"
    and "cm_AddInbound i WriteOk (written_file cfg) = (f1, None)"
  shows "cm_DeleteInbound (Tag i) WriteOk f1 = (written_file cfg, None)"
proof -
  let ?new = "JObj (modelToMap (inbound_fields i))" and ?cfg1 = "set_inbounds (vs @ [JObj (modelToMap (inbound_fields i))]) cfg"
  from assms(2,3) have fresh: "\<not> list_ex (has_tag (Tag i)) vs" and f1: "f1 = Some (MarshalIndent (JObj ?cfg1))"
    by (auto simp: cm_AddInbound_def load_edit_save_def edit_AddInbound_def inboundsSlice_def saveConfigMap_def
        split: if_splits)
  have "canonical (JObj ?cfg1)"
    by (rule canonical_set_inbounds [OF assms(1,2)])
      simp
  with f1 have "f1 = written_file ?cfg1"
    by (simp only: save_canonical)
  moreover have "filter (\<lambda>e. \<not> has_tag (Tag i) e) (vs @ [?new]) = vs"
    using fresh by (rule filter_append_new) simp
  ultimately show ?thesis
    using assms(1,2)
    by (simp add: cm_DeleteInbound_def load_edit_save_def edit_DeleteInbound_def inboundsSlice_def
        saveConfigMap_def set_inbounds_restore save_canonical del: filter_append)
qed

lemma add_delete_user:
  assumes "canonical (JObj cfg)"
    and "findInbound cfg tag = Inr (vs, i, m)" and "usersAccessor m False = Inr (us, loc)"
    and "cm_AddUser tag u WriteOk (written_file cfg) = (f1, None)"
  shows "cm_DeleteUser tag (SubID u) WriteOk f1 = (written_file cfg, None)"
proof -
  let ?new = "JObj (modelToMap (user_fields u))"
  let ?m1 = "setUsers loc (us @ [JObj (modelToMap (user_fields u))]) m"
  let ?cfg1 = "set_inbounds (vs[i := JObj (setUsers loc (us @ [JObj (modelToMap (user_fields u))]) m)]) cfg"
  note slice = assms(2) [unfolded findInbound_Inr]
  have im: "i < length vs" "vs ! i = JObj m" "getString m ''tag'' = tag"
    using slice find_tag_Some by auto
  have edit: "edit_AddUser tag u cfg = (if list_ex (is_user (SubID u)) us then Inl (UserExists (SubID u)) else Inr ?cfg1)"
    using assms(2) usersAccessor_create [OF assms(3)] by (simp add: edit_AddUser_def)
  have fresh: "\<not> list_ex (is_user (SubID u)) us"
  proof
    assume "list_ex (is_user (SubID u)) us"
    with assms(4) edit show False
      by (simp add: cm_AddUser_def load_edit_save_def)
  qed
  with assms(4) edit have f1: "f1 = Some (MarshalIndent (JObj ?cfg1))"
    by (simp add: cm_AddUser_def load_edit_save_def saveConfigMap_def)
  have "canonical (JArr vs)"
    using slice by (auto intro: canonical_mget [OF assms(1)])
  then have "canonical (JObj m)"
    using im(1,2) by (metis canonical_JArr nth_mem)
  then have "canonical (JObj ?m1)"
    by (rule canonical_setUsers [OF _ assms(3)]) simp
  then have "canonical (JObj ?cfg1)"
    using set_update_subset_insert [of vs i "JObj ?m1"] slice
    by (intro canonical_set_inbounds [OF assms(1)]) auto
  with f1 have f1: "f1 = written_file ?cfg1"
    by (simp only: save_canonical)
  have "findInbound ?cfg1 tag = Inr (vs[i := JObj ?m1], i, ?m1)"
    using slice im(3) by (simp add: findInbound_Inr find_tag_update getString_setUsers)
  moreover from usersAccessor_setUsers [OF assms(3), of "us @ [?new]"] obtain loc' where
    "usersAccessor ?m1 False = Inr (us @ [?new], loc')" "setUsers loc' us ?m1 = m"
    by blast
  moreover have "filter (\<lambda>e. \<not> is_user (SubID u) e) (us @ [?new]) = us"
    using fresh is_user_new by (rule filter_append_new)
  moreover have "set_inbounds (vs[i := JObj m]) ?cfg1 = cfg"
    using slice im(1,2) by (metis list_update_id set_inbounds_restore)
  ultimately show ?thesis
    using assms(1) f1 is_user_new
    by (simp add: cm_DeleteUser_def load_edit_save_def edit_DeleteUser_def saveConfigMap_def save_canonical
        del: filter_append is_user.simps)
qed

section \<open>Properties\<close>

text \<open>
  C15.  Undoing an added inbound is exact.  From a file the agent wrote, with a list of inbounds,
  adding an inbound and then deleting its tag (what the rollback of a create step does) gives
  the very bytes the file had before.
\<close>

theorem AddInbound_DeleteInbound_restores:
  assumes "canonical (JObj cfg)" and "mget cfg ''inbounds'' = Some (JArr vs)"
    and "cm_AddInbound i WriteOk (written_file cfg) = (f1, None)"
  shows "cm_DeleteInbound (Tag i) WriteOk f1 = (written_file cfg, None)"
  using assms by (rule add_delete_inbound)

theorem AddInbound_DeleteInbound_restores_witness:
  "\<exists>f1. cm_AddInbound \<lparr>Tag = ''a'', Type = ''vless'', Listen = [], Port = 0, Options = []\<rparr> WriteOk
      (written_file [(''inbounds'', JArr [])]) = (f1, None) \<and>
    cm_DeleteInbound ''a'' WriteOk f1 = (written_file [(''inbounds'', JArr [])], None)"
proof -
  let ?i = "\<lparr>Tag = ''a'', Type = ''vless'', Listen = [], Port = 0, Options = []\<rparr>"
  let ?f1 = "Some (MarshalIndent (JObj (set_inbounds [JObj (modelToMap (inbound_fields ?i))] [(''inbounds'', JArr [])])))"
  have 1: "cm_AddInbound ?i WriteOk (written_file [(''inbounds'', JArr [])]) = (?f1, None)"
    by (simp add: cm_AddInbound_def load_edit_save_def edit_AddInbound_def inboundsSlice_def saveConfigMap_def)
  have "cm_DeleteInbound (Tag ?i) WriteOk ?f1 = (written_file [(''inbounds'', JArr [])], None)"
    by (rule AddInbound_DeleteInbound_restores [OF _ _ 1]) (simp_all add: canonical_def)
  with 1 show ?thesis
    by auto
qed

text \<open>
  C16.  Undoing an added user is exact: from a file the agent wrote, where the inbound has a list
  of users (in the inbound or under its options), adding a user and deleting it again gives the
  bytes the file had before.
\<close>

theorem AddUser_DeleteUser_restores:
  assumes "canonical (JObj cfg)"
    and "findInbound cfg tag = Inr (vs, i, m)" and "usersAccessor m False = Inr (us, loc)"
    and "cm_AddUser tag u WriteOk (written_file cfg) = (f1, None)"
  shows "cm_DeleteUser tag (SubID u) WriteOk f1 = (written_file cfg, None)"
  using assms by (rule add_delete_user)

definition demo_user :: User where
  "demo_user = \<lparr>SubID = ''u1'', UUID = [], InboundTag = ''a'', Email = [], Enabled = True, Flow = [], LimitIP = 0,
     UploadLimit = 0, DownloadLimit = 0, ResetAt = None\<rparr>"

definition demo_cfg :: jobj where
  "demo_cfg = [(''inbounds'', JArr [JObj [(''tag'', JStr ''a''), (''users'', JArr [])]])]"

theorem AddUser_DeleteUser_restores_witness:
  "\<exists>f1. cm_AddUser ''a'' demo_user WriteOk (written_file demo_cfg) = (f1, None) \<and>
    cm_DeleteUser ''a'' ''u1'' WriteOk f1 = (written_file demo_cfg, None)"
proof -
  have can: "canonical (JObj demo_cfg)"
    by code_simp
  have find: "findInbound demo_cfg ''a'' = Inr ([JObj [(''tag'', JStr ''a''), (''users'', JArr [])]], 0,
      [(''tag'', JStr ''a''), (''users'', JArr [])])"
    by (simp add: demo_cfg_def findInbound_Inr getString_def)
  have acc: "usersAccessor [(''tag'', JStr ''a''), (''users'', JArr [])] c = Inr ([], InInbound)" for c
    by (simp add: usersAccessor_def)
  obtain f1 where f1: "cm_AddUser ''a'' demo_user WriteOk (written_file demo_cfg) = (f1, None)"
    using find acc by (simp add: cm_AddUser_def load_edit_save_def edit_AddUser_def saveConfigMap_def)
  from AddUser_DeleteUser_restores [OF can find acc f1] f1 show ?thesis
    by (auto simp: demo_user_def)
qed

definition cm_operation :: "(write_outcome \<Rightarrow> cfgfile \<Rightarrow> cfgfile \<times> cm_error option) \<Rightarrow> bool" where
  "cm_operation op \<longleftrightarrow>
     (\<exists>t u. op = cm_AddUser t u \<or> op = cm_UpdateUser t u) \<or> (\<exists>t s. op = cm_DeleteUser t s) \<or>
     (\<exists>i. op = cm_AddInbound i \<or> op = cm_UpdateInbound i) \<or> (\<exists>t. op = cm_DeleteInbound t)"

lemma bindE_eq_Inl_iff: "bindE r f = Inl e \<longleftrightarrow> r = Inl e \<or> (\<exists>x. r = Inr x \<and> f x = Inl e)"
  by (cases r) simp_all

lemma not_WriteConfig:
  "inboundsSlice cfg create \<noteq> Inl WriteConfig" "findInbound cfg tag \<noteq> Inl WriteConfig" "usersAccessor m create \<noteq> Inl WriteConfig"
proof -
  show slice: "inboundsSlice cfg create \<noteq> Inl WriteConfig" for create
    by (simp add: inboundsSlice_def split: option.split jv.split)
  show "findInbound cfg tag \<noteq> Inl WriteConfig"
    using slice by (auto simp: findInbound_def bindE_eq_Inl_iff split: option.splits)
  show "usersAccessor m create \<noteq> Inl WriteConfig"
    by (simp add: usersAccessor_def Let_def split: option.split jv.split)
qed

lemmas edit_results = bindE_eq_Inr_iff bindE_eq_Inl_iff not_WriteConfig

lemma edit_frame:
  assumes "cm_operation op"
  obtains edit where "op = load_edit_save edit"
    and "\<And>cfg cfg'. edit cfg = Inr cfg' \<Longrightarrow> \<exists>vs. cfg' = set_inbounds vs cfg" and "\<And>cfg. edit cfg \<noteq> Inl WriteConfig"
proof -
  have "\<exists>edit. op = load_edit_save edit \<and> (\<forall>cfg cfg'. edit cfg = Inr cfg' \<longrightarrow> (\<exists>vs. cfg' = set_inbounds vs cfg)) \<and>
      (\<forall>cfg. edit cfg \<noteq> Inl WriteConfig)"
    using assms unfolding cm_operation_def
  proof (elim disjE exE, goal_cases)
    case (1 t u)
    then show ?case
      by (intro exI [of _ "edit_AddUser t u"])
        (auto simp: cm_AddUser_def edit_AddUser_def edit_results split: if_splits)
  next
    case (2 t u)
    then show ?case
      by (intro exI [of _ "edit_UpdateUser t u"])
        (auto simp: cm_UpdateUser_def edit_UpdateUser_def edit_results split: if_splits)
  next
    case (3 t s)
    then show ?case
      by (intro exI [of _ "edit_DeleteUser t s"])
        (auto simp: cm_DeleteUser_def edit_DeleteUser_def edit_results split: if_splits)
  next
    case (4 i)
    then show ?case
      by (intro exI [of _ "edit_AddInbound i"])
        (auto simp: cm_AddInbound_def edit_AddInbound_def edit_results split: if_splits)
  next
    case (5 i)
    then show ?case
      by (intro exI [of _ "edit_UpdateInbound i"])
        (auto simp: cm_UpdateInbound_def edit_UpdateInbound_def edit_results split: if_splits)
  next
    case (6 t)
    then show ?case
      by (intro exI [of _ "edit_DeleteInbound t"])
        (auto simp: cm_DeleteInbound_def edit_DeleteInbound_def edit_results split: if_splits)
  qed
  with that show thesis
    by blast
qed

lemma mget_set_inbounds_other: "k \<noteq> ''inbounds'' \<Longrightarrow> mget (set_inbounds vs cfg) k = mget cfg k"
  by (simp add: set_inbounds_def)

lemma mwf_set_inbounds: "mwf cfg \<Longrightarrow> mwf (set_inbounds vs cfg)"
  by (simp add: set_inbounds_def)



lemma find_tag_canon:
  "\<forall>v \<in> set vs. jwf v \<Longrightarrow> find_tag tag (map canon vs) = map_option (apsnd modelToMap) (find_tag tag vs)"
proof (induction vs)
  case (Cons v vs)
  then show ?case
    by (cases v; cases "find_tag tag vs")
      (simp_all add: canon_JObj getString_modelToMap jwf_JObj split_beta del: canon.simps(7))
qed simp

lemma findInbound_canon:
  assumes "jwf (JObj cfg)" and "findInbound cfg tag = Inr (vs, n, m)"
  shows "findInbound (modelToMap cfg) tag = Inr (map canon vs, n, modelToMap m)"
proof -
  have "\<forall>v \<in> set vs. jwf v"
    using assms jwf_mget [OF assms(1)] by (fastforce simp: findInbound_Inr jwf_JArr)
  with assms show ?thesis
    by (auto simp: findInbound_Inr mget_modelToMap jwf_JObj find_tag_canon)
qed

lemma usersAccessor_canon:
  assumes "jwf (JObj m)" and "usersAccessor m False = Inr (us, loc)"
  shows "\<exists>loc'. usersAccessor (modelToMap m) False = Inr (map canon us, loc')"
proof (cases loc)
  case InInbound
  with assms(2) have "mget m ''users'' = Some (JArr us)"
    by (auto simp: usersAccessor_def Let_def split: option.splits jv.splits)
  with assms(1) show ?thesis
    by (simp add: usersAccessor_def mget_modelToMap jwf_JObj)
next
  case (InOptions opts)
  with assms(2) have u: "mget m ''users'' = None" "mget m ''options'' = Some (JObj opts)"
    "mget opts ''users'' = Some (JArr us)"
    by (auto simp: usersAccessor_def Let_def split: option.splits jv.splits)
  then have "mwf opts"
    using jwf_mget [OF assms(1) u(2)] by (simp add: jwf_JObj)
  with u assms(1) show ?thesis
    by (simp add: usersAccessor_def mget_modelToMap jwf_JObj mget_canon)
qed

lemma usersAccessor_preserveUsers:
  assumes "usersAccessor m False = Inr (us, loc)" and "mget t ''users'' = None"
    and "case mget t ''options'' of Some (JObj opts) \<Rightarrow> mget opts ''users'' = None | v \<Rightarrow> v = None"
  shows "\<exists>loc'. usersAccessor (preserveUsers m t) False = Inr (us, loc')"
proof (cases loc)
  case InInbound
  with assms(1) have "mget m ''users'' = Some (JArr us)"
    by (auto simp: usersAccessor_def Let_def split: option.splits jv.splits)
  then have "mget (preserveUsers m t) ''users'' = Some (JArr us)"
    using assms(2) by (simp add: preserveUsers_def Let_def split: option.split jv.split)
  then show ?thesis
    by (simp add: usersAccessor_def)
next
  case (InOptions opts)
  with assms(1) have u: "mget m ''users'' = None" "mget m ''options'' = Some (JObj opts)"
    "mget opts ''users'' = Some (JArr us)"
    by (auto simp: usersAccessor_def Let_def split: option.splits jv.splits)
  with assms(2,3) show ?thesis
    by (auto simp: usersAccessor_def preserveUsers_def Let_def split: option.splits jv.splits)
qed

lemma find_tag_replace_first:
  "find_tag tag vs = Some (n, m) \<Longrightarrow> getString (preserveUsers m t) ''tag'' = tag \<Longrightarrow>
   find_tag tag (replace_first (has_tag tag) (update_inbound t) vs) = Some (n, preserveUsers m t)"
proof (induction vs arbitrary: n)
  case (Cons v vs)
  then show ?case
    by (cases v; cases n) (auto simp: update_inbound_def split: if_splits)
qed simp

lemma inbound_fields_no_users:
  "mget (modelToMap (inbound_fields i)) ''users'' = None"
  "mget (modelToMap (inbound_fields i)) ''options'' =
     (if Options i = [] then None else Some (JObj (modelToMap (Options i))))"
proof -
  have "mget (inbound_fields i) ''users'' = None"
    "mget (inbound_fields i) ''options'' = (if Options i = [] then None else Some (JObj (Options i)))"
    by (auto simp: inbound_fields_def opt_string_def opt_int_def)
  then show "mget (modelToMap (inbound_fields i)) ''users'' = None"
    "mget (modelToMap (inbound_fields i)) ''options'' =
       (if Options i = [] then None else Some (JObj (modelToMap (Options i))))"
    by (simp_all add: mget_modelToMap mwf_inbound_fields canon_JObj del: canon.simps(7))
qed

text \<open>
  C18.  Updating an inbound keeps its users.  When the new definition of an inbound brings no
  users of its own, then after a successful update the inbound at the same place has exactly the
  users it had, whether they are kept in the inbound or under its options.
\<close>

theorem UpdateInbound_preserves_users:
  assumes "loadConfigMap f = Inr cfg" and "jwf (JObj cfg)" and "inbound_wf i"
    and "mget (Options i) ''users'' = None"
    and "findInbound cfg (Tag i) = Inr (vs, n, m)" and "usersAccessor m False = Inr (us, loc)"
    and "cm_UpdateInbound i WriteOk f = (f', None)"
  shows "\<exists>cfg' vs' m' loc'. loadConfigMap f' = Inr cfg' \<and> findInbound cfg' (Tag i) = Inr (vs', n, m') \<and>
    usersAccessor m' False = Inr (map canon us, loc')"
proof -
  let ?t = "modelToMap (inbound_fields i)"
  let ?vs = "replace_first (has_tag (Tag i)) (update_inbound ?t) vs"
  let ?cfg' = "set_inbounds (replace_first (has_tag (Tag i)) (update_inbound (modelToMap (inbound_fields i))) vs) cfg"
  note slice = assms(5) [unfolded findInbound_Inr]
  have "list_ex (has_tag (Tag i)) vs"
    using slice find_tag_None [of "Tag i" vs] by auto
  with slice have edit: "edit_UpdateInbound i cfg = Inr ?cfg'"
    by (simp add: edit_UpdateInbound_def inboundsSlice_def)
  with assms(1,7) have f': "loadConfigMap f' = Inr (modelToMap ?cfg')"
    by (auto simp: cm_UpdateInbound_def load_edit_save_def saveConfigMap_def)
  have wf: "jwf (JObj ?cfg')"
    using assms(2,3) edit by (rule jwf_edit_inbound(2))
  have find: "findInbound ?cfg' (Tag i) = Inr (?vs, n, preserveUsers m ?t)"
    using slice by (simp add: findInbound_Inr find_tag_replace_first getString_preserveUsers)
  have "mget (modelToMap (Options i)) ''users'' = None"
    using assms(3,4) by (simp add: mget_modelToMap inbound_wf_def jwf_JObj)
  then obtain loc1 where acc: "usersAccessor (preserveUsers m ?t) False = Inr (us, loc1)"
    using usersAccessor_preserveUsers [OF assms(6), of ?t]
    by (cases "Options i = []") (auto simp: inbound_fields_no_users)
  have "jwf (JObj m)"
    using assms(2) slice jwf_mget [OF assms(2)] find_tag_Some [of "Tag i" vs n m]
    by (metis jwf_JArr nth_mem)
  then have "jwf (JObj (preserveUsers m ?t))"
    using assms(3) by (intro jwf_preserveUsers jwf_modelToMap jwf_inbound_fields)
  from usersAccessor_canon [OF this acc] findInbound_canon [OF wf find] f' show ?thesis
    by blast
qed

theorem UpdateInbound_preserves_users_witness:
  "\<exists>cfg' vs' m' loc' f'. cm_UpdateInbound \<lparr>Tag = ''a'', Type = ''vless'', Listen = [], Port = 443, Options = []\<rparr>
      WriteOk (written_file [(''inbounds'', JArr [JObj [(''tag'', JStr ''a''), (''users'', JArr [JNull])]])]) = (f', None) \<and>
    loadConfigMap f' = Inr cfg' \<and> findInbound cfg' ''a'' = Inr (vs', 0, m') \<and>
    usersAccessor m' False = Inr ([JNull], loc')"
proof -
  let ?i = "\<lparr>Tag = ''a'', Type = ''vless'', Listen = [], Port = 443, Options = []\<rparr>"
  let ?m = "[(''tag'', JStr ''a''), (''users'', JArr [JNull])]"
  let ?cfg = "[(''inbounds'', JArr [JObj [(''tag'', JStr ''a''), (''users'', JArr [JNull])]])]"
  have find: "findInbound ?cfg (Tag ?i) = Inr ([JObj ?m], 0, ?m)"
    by (simp add: findInbound_Inr getString_def)
  have acc: "usersAccessor ?m False = Inr ([JNull], InInbound)"
    by (simp add: usersAccessor_def)
  obtain f' where f': "cm_UpdateInbound ?i WriteOk (written_file ?cfg) = (f', None)"
    by (simp add: cm_UpdateInbound_def load_edit_save_def edit_UpdateInbound_def inboundsSlice_def
        saveConfigMap_def getString_def)
  have "\<exists>cfg' vs' m' loc'. loadConfigMap f' = Inr cfg' \<and> findInbound cfg' (Tag ?i) = Inr (vs', 0, m') \<and>
      usersAccessor m' False = Inr (map canon [JNull], loc')"
    by (rule UpdateInbound_preserves_users [OF load_written_file _ _ _ find acc f'])
      (simp_all add: jwf_JObj jwf_JArr mwf_def inbound_wf_def)
  with f' show ?thesis
    by auto
qed

end
