(* ===== verification/ConfigClient.thy ===== *)
theory ConfigClient
  imports ConfigManager
begin

text \<open>
  The REST writer of the sing-box configuration, \<open>internal/singbox/client.go\<close>: reading inbounds
  and users, the six load-modify-save operations, the list of users that sing-box counts traffic
  for, and the atomic replacement of the file.  \<open>uuid.NewString()\<close> is the argument \<open>fresh\<close>.  Every
  operation holds \<open>c.mu\<close> and the lock of \<open>cfglock\<close>.  The debounced reload that follows a write is
  the subject of theory \<open>Debounce\<close>.
\<close>

section \<open>Reading\<close>

text \<open>
  \<open>NilMapPanic\<close>: a file that holds \<open>null\<close> makes the root map nil, and the assignment of the empty
  list of inbounds to it panics.
\<close>

datatype cc_error =
    CC_Read | CC_Parse | CC_NilMapPanic | CC_Backup | CC_Write
  | CC_InboundExists string | CC_InboundNotFound string | CC_UserExists string | CC_UserNotFound string

definition loadRootConfig :: "cfgfile \<Rightarrow> cc_error + jobj" where
  "loadRootConfig f =
     (case f of
        None \<Rightarrow> Inl CC_Read
      | Some data \<Rightarrow>
          (case Unmarshal data of
             Some (JObj rt) \<Rightarrow>
               Inr (if mget rt ''inbounds'' = None then mput ''inbounds'' (JArr []) rt else rt)
           | Some JNull \<Rightarrow> Inl CC_NilMapPanic
           | _ \<Rightarrow> Inl CC_Parse))"

text \<open>An array or an object under a key, \<open>m[k].([]interface{})\<close> and \<open>m[k].(map[string]interface{})\<close>.\<close>

definition arr_at :: "jobj \<Rightarrow> string \<Rightarrow> jv list option" where
  "arr_at m k = (case mget m k of Some (JArr vs) \<Rightarrow> Some vs | _ \<Rightarrow> None)"

definition obj_at :: "jobj \<Rightarrow> string \<Rightarrow> jobj option" where
  "obj_at m k = (case mget m k of Some (JObj m') \<Rightarrow> Some m' | _ \<Rightarrow> None)"

lemma arr_at_modelToMap: "mwf m \<Longrightarrow> arr_at (modelToMap m) k = map_option (map canon) (arr_at m k)"
  by (simp add: arr_at_def mget_modelToMap split: option.split jv.split)

lemma obj_at_modelToMap: "mwf m \<Longrightarrow> obj_at (modelToMap m) k = map_option modelToMap (obj_at m k)"
  by (simp add: obj_at_def mget_modelToMap canon_JObj del: canon.simps(7) split: option.split jv.split)

lemma obj_at_Some: "obj_at m k = Some m' \<longleftrightarrow> mget m k = Some (JObj m')"
  by (auto simp: obj_at_def split: option.splits jv.splits)

lemma arr_at_Some: "arr_at m k = Some vs \<longleftrightarrow> mget m k = Some (JArr vs)"
  by (auto simp: arr_at_def split: option.splits jv.splits)

definition getInbounds :: "jobj \<Rightarrow> jobj list" where
  "getInbounds rt = (case arr_at rt ''inbounds'' of Some raw \<Rightarrow> objects raw | None \<Rightarrow> [])"

definition setInbounds :: "jobj list \<Rightarrow> jobj \<Rightarrow> jobj" where
  "setInbounds inbounds rt = mput ''inbounds'' (JArr (map JObj inbounds)) rt"

fun findInboundIndex :: "jobj list \<Rightarrow> string \<Rightarrow> nat option" where
  "findInboundIndex [] tag = None"
| "findInboundIndex (inbound # inbounds) tag =
     (if getString inbound ''tag'' = tag then Some 0 else map_option Suc (findInboundIndex inbounds tag))"

definition getInboundUsers :: "jobj \<Rightarrow> jv list" where
  "getInboundUsers inbound =
     (case arr_at inbound ''users'' of
        Some raw \<Rightarrow> raw
      | None \<Rightarrow>
          (case obj_at inbound ''options'' of
             Some options \<Rightarrow> (case arr_at options ''users'' of Some raw \<Rightarrow> raw | None \<Rightarrow> [])
           | None \<Rightarrow> []))"

definition setInboundUsers :: "jv list \<Rightarrow> jobj \<Rightarrow> jobj" where
  "setInboundUsers users inbound =
     (if mget inbound ''users'' \<noteq> None then mput ''users'' (JArr users) inbound
      else case obj_at inbound ''options'' of
             Some options \<Rightarrow>
               if mget options ''users'' \<noteq> None
               then mput ''options'' (JObj (mput ''users'' (JArr users) options)) inbound
               else mput ''users'' (JArr users) inbound
           | None \<Rightarrow> mput ''users'' (JArr users) inbound)"

definition userMatchesSubID :: "jobj \<Rightarrow> string \<Rightarrow> bool" where
  "userMatchesSubID userMap subID =
     list_ex (\<lambda>k. getString userMap k = subID) [''subId'', ''name'', ''email'', ''uuid'']"

fun firstNonEmpty :: "string list \<Rightarrow> string" where
  "firstNonEmpty [] = []"
| "firstNonEmpty (value # values) = (if value \<noteq> [] then value else firstNonEmpty values)"

definition userFromMap :: "jobj \<Rightarrow> string \<Rightarrow> User option" where
  "userFromMap userMap inboundTag =
     (let subID = firstNonEmpty [getString userMap ''subId'', getString userMap ''name'',
                                 getString userMap ''email'', getString userMap ''uuid''];
          enabled = (case mget userMap ''enabled'' of Some (JBool b) \<Rightarrow> b | _ \<Rightarrow> True)
      in if subID = [] then None
         else Some \<lparr>SubID = subID,
                    UUID = firstNonEmpty [getString userMap ''uuid'', getString userMap ''password''],
                    InboundTag = inboundTag, Email = getString userMap ''email'', Enabled = enabled,
                    Flow = getString userMap ''flow'', LimitIP = 0, UploadLimit = 0, DownloadLimit = 0,
                    ResetAt = None\<rparr>)"

definition inbound_keys :: "string list" where
  "inbound_keys = [''tag'', ''type'', ''listen'', ''listen_port'', ''port'']"

definition inboundFromMap :: "jobj \<Rightarrow> Inbound" where
  "inboundFromMap inbound =
     \<lparr>Tag = getString inbound ''tag'', Type = getString inbound ''type'', Listen = getString inbound ''listen'',
      Port = getInt inbound [''listen_port'', ''port''],
      Options = filter (\<lambda>p. fst p \<notin> set inbound_keys) inbound\<rparr>"

definition cc_GetInbounds :: "cfgfile \<Rightarrow> cc_error + Inbound list" where
  "cc_GetInbounds f = bindE (loadRootConfig f) (\<lambda>rt. Inr (map inboundFromMap (getInbounds rt)))"

definition inbound_users :: "jobj \<Rightarrow> User list" where
  "inbound_users inbound =
     List.map_filter (\<lambda>userMap. userFromMap userMap (getString inbound ''tag''))
       (objects (getInboundUsers inbound))"

definition cc_GetUsers :: "cfgfile \<Rightarrow> cc_error + User list" where
  "cc_GetUsers f = bindE (loadRootConfig f) (\<lambda>rt. Inr (concat (map inbound_users (getInbounds rt))))"

section \<open>Building users\<close>

definition put_nonempty :: "string \<Rightarrow> string \<Rightarrow> jobj \<Rightarrow> jobj" where
  "put_nonempty key s m = (if s = [] then m else mput key (JStr s) m)"

text \<open>The two groups of protocols of the \<open>switch\<close>.\<close>

definition uuid_protocol :: "string \<Rightarrow> bool" where
  "uuid_protocol t \<longleftrightarrow> t \<in> {''vless'', ''vmess''}"

definition password_protocol :: "string \<Rightarrow> bool" where
  "password_protocol t \<longleftrightarrow> t \<in> {''hysteria2'', ''shadowtls'', ''shadowsocks'', ''trojan'', ''tuic''}"

lemma protocols_disjoint: "uuid_protocol t \<Longrightarrow> \<not> password_protocol t"
  by (auto simp: uuid_protocol_def password_protocol_def)

text \<open>\<open>existing\<close> is nil (the empty map) when a user is created.\<close>

definition buildProtocolUser :: "string \<Rightarrow> string \<Rightarrow> User \<Rightarrow> jobj \<Rightarrow> jobj" where
  "buildProtocolUser fresh inboundType user existing =
     (let t = ToLower inboundType
      in if uuid_protocol t then
           let uuidValue = firstNonEmpty [UUID user, getString existing ''uuid'', fresh];
               nameValue = firstNonEmpty [SubID user, getString existing ''name''];
               result = put_nonempty ''name'' nameValue [(''uuid'', JStr uuidValue)]
           in if Flow user \<noteq> [] then mput ''flow'' (JStr (Flow user)) result
              else put_nonempty ''flow'' (getString existing ''flow'') result
         else if password_protocol t then
           [(''name'', JStr (firstNonEmpty [SubID user, getString existing ''name''])),
            (''password'', JStr (firstNonEmpty [UUID user, getString existing ''password'', fresh]))]
         else
           put_nonempty ''flow'' (Flow user) (put_nonempty ''email'' (Email user)
             (put_nonempty ''uuid'' (UUID user) (put_nonempty ''subId'' (SubID user) existing))))"

section \<open>The users sing-box counts\<close>

text \<open>The names in the order of the file, each once (the map \<open>seen\<close>).\<close>

fun collect_names :: "jobj list \<Rightarrow> string list \<Rightarrow> string list" where
  "collect_names [] names = names"
| "collect_names (userMap # us) names =
     (let name = getString userMap ''name''
      in if name = [] \<or> name \<in> set names then collect_names us names
         else collect_names us (names @ [name]))"

definition stats_users :: "jobj \<Rightarrow> string list" where
  "stats_users rt =
     sort (collect_names (concat (map (\<lambda>i. objects (getInboundUsers i)) (getInbounds rt))) [])"

definition syncStatsUsers :: "jobj \<Rightarrow> jobj" where
  "syncStatsUsers rt =
     (case obj_at rt ''experimental'' of
        Some experimental \<Rightarrow>
          (case obj_at experimental ''v2ray_api'' of
             Some v2rayAPI \<Rightarrow>
               (case obj_at v2rayAPI ''stats'' of
                  Some stats \<Rightarrow>
                    mput ''experimental'' (JObj (mput ''v2ray_api'' (JObj (mput ''stats''
                      (JObj (mput ''users'' (JArr (map JStr (stats_users rt))) stats)) v2rayAPI)) experimental)) rt
                | None \<Rightarrow> rt)
           | None \<Rightarrow> rt)
      | None \<Rightarrow> rt)"

section \<open>The edits\<close>

definition put_all :: "jobj \<Rightarrow> jobj \<Rightarrow> jobj" where
  "put_all new m = fold (\<lambda>(k, v). mput k v) new m"

definition newInbound :: "Inbound \<Rightarrow> jobj" where
  "newInbound inbound =
     put_all (Options inbound)
       ([(''type'', JStr (Type inbound)), (''tag'', JStr (Tag inbound))]
        @ opt_string ''listen'' (Listen inbound) @ opt_int ''listen_port'' (Port inbound))"

definition cc_edit_CreateInbound :: "Inbound \<Rightarrow> jobj \<Rightarrow> cc_error + jobj" where
  "cc_edit_CreateInbound inbound rt =
     (let rawInbounds = getInbounds rt
      in if list_ex (\<lambda>e. getString e ''tag'' = Tag inbound) rawInbounds
         then Inl (CC_InboundExists (Tag inbound))
         else Inr (setInbounds (rawInbounds @ [newInbound inbound]) rt))"

definition updateExisting :: "Inbound \<Rightarrow> jobj \<Rightarrow> jobj" where
  "updateExisting inbound existing =
     (let existing = mput ''type'' (JStr (Type inbound)) existing;
          existing = (if Listen inbound = [] then existing else mput ''listen'' (JStr (Listen inbound)) existing);
          existing = (if Port inbound = 0 then existing else mput ''listen_port'' (JInt (Port inbound)) existing)
      in put_all (Options inbound) existing)"

definition cc_edit_UpdateInbound :: "Inbound \<Rightarrow> jobj \<Rightarrow> cc_error + jobj" where
  "cc_edit_UpdateInbound inbound rt =
     (let rawInbounds = getInbounds rt
      in case findInboundIndex rawInbounds (Tag inbound) of
           None \<Rightarrow> Inl (CC_InboundNotFound (Tag inbound))
         | Some idx \<Rightarrow>
             Inr (setInbounds (rawInbounds[idx := updateExisting inbound (rawInbounds ! idx)]) rt))"

definition cc_edit_DeleteInbound :: "string \<Rightarrow> jobj \<Rightarrow> cc_error + jobj" where
  "cc_edit_DeleteInbound tag rt =
     (let rawInbounds = getInbounds rt
      in case findInboundIndex rawInbounds tag of
           None \<Rightarrow> Inl (CC_InboundNotFound tag)
         | Some idx \<Rightarrow> Inr (setInbounds (take idx rawInbounds @ drop (idx + 1) rawInbounds) rt))"

fun cc_is_user :: "string \<Rightarrow> jv \<Rightarrow> bool" where
  "cc_is_user subID (JObj m) = userMatchesSubID m subID"
| "cc_is_user subID _ = False"

definition cc_edit_CreateUser :: "string \<Rightarrow> User \<Rightarrow> jobj \<Rightarrow> cc_error + jobj" where
  "cc_edit_CreateUser fresh user rt =
     (let rawInbounds = getInbounds rt
      in case findInboundIndex rawInbounds (InboundTag user) of
           None \<Rightarrow> Inl (CC_InboundNotFound (InboundTag user))
         | Some idx \<Rightarrow>
             let inbound = rawInbounds ! idx; users = getInboundUsers inbound
             in if list_ex (cc_is_user (SubID user)) users then Inl (CC_UserExists (SubID user))
                else Inr (setInbounds (rawInbounds[idx := setInboundUsers
                       (users @ [JObj (buildProtocolUser fresh (getString inbound ''type'') user [])]) inbound]) rt))"

fun rebuild_user :: "string \<Rightarrow> string \<Rightarrow> User \<Rightarrow> jv \<Rightarrow> jv" where
  "rebuild_user fresh t user (JObj existing) = JObj (buildProtocolUser fresh t user existing)"
| "rebuild_user fresh t user v = v"

definition cc_edit_UpdateUser :: "string \<Rightarrow> User \<Rightarrow> jobj \<Rightarrow> cc_error + jobj" where
  "cc_edit_UpdateUser fresh user rt =
     (let rawInbounds = getInbounds rt
      in case findInboundIndex rawInbounds (InboundTag user) of
           None \<Rightarrow> Inl (CC_InboundNotFound (InboundTag user))
         | Some idx \<Rightarrow>
             let inbound = rawInbounds ! idx; users = getInboundUsers inbound
             in if list_ex (cc_is_user (SubID user)) users
                then Inr (setInbounds (rawInbounds[idx := setInboundUsers
                       (replace_first (cc_is_user (SubID user))
                         (rebuild_user fresh (getString inbound ''type'') user) users) inbound]) rt)
                else Inl (CC_UserNotFound (SubID user)))"

definition remove_user :: "string \<Rightarrow> jobj \<Rightarrow> jobj" where
  "remove_user subID inbound =
     (let users = getInboundUsers inbound
      in if list_ex (cc_is_user subID) users
         then setInboundUsers (filter (\<lambda>u. \<not> cc_is_user subID u) users) inbound
         else inbound)"

definition cc_edit_DeleteUser :: "string \<Rightarrow> jobj \<Rightarrow> cc_error + jobj" where
  "cc_edit_DeleteUser subID rt =
     (let rawInbounds = getInbounds rt
      in if list_ex (\<lambda>i. list_ex (cc_is_user subID) (getInboundUsers i)) rawInbounds
         then Inr (setInbounds (map (remove_user subID) rawInbounds) rt)
         else Inl (CC_UserNotFound subID))"

section \<open>Replacing the file\<close>

text \<open>
  A directory as the map from path to content.  \<open>os.CreateTemp\<close> picks \<open>tmpName\<close>.  Each system call
  may fail; the state after every call that changes the directory is recorded, since a reader (sing-box
  is not a party to the lock) or a crash may see any of them.  \<open>partials\<close> are the contents the
  temporary file goes through while it is written.
\<close>

type_synonym fs = "(string, content) gomap"

datatype wfa_error = CreateTempFailed | CloseTempFailed | OpenFailed | WriteFailed | CloseFailed | RenameFailed

record wfa_io =
  tmpName :: string
  wfa_fault :: "wfa_error option"
  wfa_partials :: "content list"
  wfa_remove_fails :: bool

definition emptyFile :: content where
  "emptyFile = Raw [] None"

definition Remove :: "wfa_io \<Rightarrow> fs \<Rightarrow> fs" where
  "Remove io fs = (if wfa_remove_fails io then fs else mdel (tmpName io) fs)"

definition writeFileAtomic :: "wfa_io \<Rightarrow> string \<Rightarrow> content \<Rightarrow> fs \<Rightarrow> fs list \<times> wfa_error option" where
  "writeFileAtomic io path data fs =
     (let created = mput (tmpName io) emptyFile fs;
          partial = map (\<lambda>p. mput (tmpName io) p created) (wfa_partials io);
          torn = last (created # partial);
          full = mput (tmpName io) data created
      in case wfa_fault io of
           Some CreateTempFailed \<Rightarrow> ([fs], Some CreateTempFailed)
         | Some CloseTempFailed \<Rightarrow> ([created, Remove io created], Some CloseTempFailed)
         | Some OpenFailed \<Rightarrow> ([created, Remove io created], Some OpenFailed)
         | Some WriteFailed \<Rightarrow> (created # partial @ [Remove io torn], Some WriteFailed)
         | Some CloseFailed \<Rightarrow> (created # partial @ [full, Remove io full], Some CloseFailed)
         | Some RenameFailed \<Rightarrow> (created # partial @ [full, Remove io full], Some RenameFailed)
         | None \<Rightarrow> (created # partial @ [full, mput path data (mdel (tmpName io) full)], None))"

section \<open>Saving\<close>

text \<open>
  What the operating system does during \<open>saveAndReload\<close>: whether the second read of the file
  fails, what the backup file becomes (\<^term>\<open>None\<close>: it cannot be opened; a failure is ignored), and
  the calls of \<open>writeFileAtomic\<close>.  A save that succeeds hands the previous and the new content to
  the debounced reload.
\<close>

record save_io =
  sio_read_fails :: bool
  sio_backup :: "write_outcome option"
  sio_write :: wfa_io

record saved =
  previousConfig :: content
  configJSON :: content

definition write_backup :: "write_outcome option \<Rightarrow> string \<Rightarrow> content \<Rightarrow> fs \<Rightarrow> fs" where
  "write_backup b path data fs =
     (case b of
        None \<Rightarrow> fs
      | Some WriteOk \<Rightarrow> mput (path @ ''.agent.bak'') data fs
      | Some (WriteFails partial) \<Rightarrow> mput (path @ ''.agent.bak'') partial fs)"

definition saveAndReload :: "save_io \<Rightarrow> string \<Rightarrow> jobj \<Rightarrow> fs \<Rightarrow> fs list \<times> (cc_error + saved)" where
  "saveAndReload io configPath rt fs =
     (case (if sio_read_fails io then None else mget fs configPath) of
        None \<Rightarrow> ([fs], Inl CC_Backup)
      | Some previous \<Rightarrow>
          let fs1 = write_backup (sio_backup io) configPath previous fs;
              json = MarshalIndent (JObj (syncStatsUsers rt))
          in case writeFileAtomic (sio_write io) configPath json fs1 of
               (trace, Some err) \<Rightarrow> (fs1 # trace, Inl CC_Write)
             | (trace, None) \<Rightarrow> (fs1 # trace, Inr \<lparr>previousConfig = previous, configJSON = json\<rparr>))"

section \<open>The operations\<close>

definition cc_edit_save ::
  "(jobj \<Rightarrow> cc_error + jobj) \<Rightarrow> save_io \<Rightarrow> string \<Rightarrow> fs \<Rightarrow> fs list \<times> (cc_error + saved)" where
  "cc_edit_save edit io configPath fs =
     (case bindE (loadRootConfig (mget fs configPath)) edit of
        Inl err \<Rightarrow> ([fs], Inl err)
      | Inr rt \<Rightarrow> saveAndReload io configPath rt fs)"

definition cc_CreateInbound where
  "cc_CreateInbound inbound = cc_edit_save (cc_edit_CreateInbound inbound)"

definition cc_UpdateInbound where
  "cc_UpdateInbound inbound = cc_edit_save (cc_edit_UpdateInbound inbound)"

definition cc_DeleteInbound where
  "cc_DeleteInbound tag = cc_edit_save (cc_edit_DeleteInbound tag)"

definition cc_CreateUser where
  "cc_CreateUser fresh user = cc_edit_save (cc_edit_CreateUser fresh user)"

definition cc_UpdateUser where
  "cc_UpdateUser fresh user = cc_edit_save (cc_edit_UpdateUser fresh user)"

definition cc_DeleteUser where
  "cc_DeleteUser subID = cc_edit_save (cc_edit_DeleteUser subID)"

section \<open>The atomic write\<close>

text \<open>
  The promise of \<open>writeFileAtomic\<close>, abstractly: a register per path, where a write is invisible or
  complete at every moment.
\<close>

definition atomic_at :: "string \<Rightarrow> content \<Rightarrow> fs \<Rightarrow> fs \<Rightarrow> bool" where
  "atomic_at path data before now \<longleftrightarrow>
     (mget now path = mget before path \<or> mget now path = Some data)"

lemma trace_writeFileAtomic:
  "set (fst (writeFileAtomic io path data fs)) \<subseteq>
     {fs} \<union> range (\<lambda>p. mput (tmpName io) p (mput (tmpName io) emptyFile fs))
     \<union> {mput (tmpName io) emptyFile fs}
     \<union> range (\<lambda>p. Remove io (mput (tmpName io) p (mput (tmpName io) emptyFile fs)))
     \<union> {Remove io (mput (tmpName io) emptyFile fs)}
     \<union> {mput path data (mdel (tmpName io) (mput (tmpName io) data (mput (tmpName io) emptyFile fs)))}"
  by (cases "wfa_partials io" rule: rev_cases)
    (auto simp: writeFileAtomic_def Let_def last_map split: option.split wfa_error.split)

lemma writeFileAtomic_frame:
  assumes "now \<in> set (fst (writeFileAtomic io path data fs))" and "q \<noteq> tmpName io" and "q \<noteq> path"
  shows "mget now q = mget fs q"
  using set_mp [OF trace_writeFileAtomic assms(1)] assms(2,3) by (auto simp: Remove_def)

lemma writeFileAtomic_path:
  assumes "now \<in> set (fst (writeFileAtomic io path data fs))" and "path \<noteq> tmpName io"
  shows "atomic_at path data fs now"
  using set_mp [OF trace_writeFileAtomic assms(1)] assms(2) by (auto simp: Remove_def atomic_at_def)

lemma trace_nonempty: "fst (writeFileAtomic io path data fs) \<noteq> []"
  by (simp add: writeFileAtomic_def Let_def split: option.split wfa_error.split)

lemma writeFileAtomic_result:
  assumes "writeFileAtomic io path data fs = (trace, err)" and "path \<noteq> tmpName io" and "mget fs (tmpName io) = None"
  shows "err = None \<Longrightarrow> mget (last trace) path = Some data \<and> mget (last trace) (tmpName io) = None"
    and "err = Some e \<Longrightarrow> mget (last trace) path = mget fs path \<and>
          (\<not> wfa_remove_fails io \<longrightarrow> mget (last trace) (tmpName io) = None)"
  using assms by (auto simp: writeFileAtomic_def Let_def Remove_def last_map
      split: option.splits wfa_error.splits if_splits)

lemma writeFileAtomic_error_path:
  assumes "writeFileAtomic io path data fs = (trace, Some e)" and "path \<noteq> tmpName io" and "now \<in> set trace"
  shows "mget now path = mget fs path"
  using assms by (cases "wfa_partials io" rule: rev_cases)
    (auto simp: writeFileAtomic_def Let_def Remove_def last_map
      split: option.splits wfa_error.splits if_splits)

lemma mget_write_backup:
  "q \<noteq> path @ ''.agent.bak'' \<Longrightarrow> mget (write_backup b path data fs) q = mget fs q"
  by (simp add: write_backup_def split: option.split write_outcome.split)

definition cc_operation :: "(save_io \<Rightarrow> string \<Rightarrow> fs \<Rightarrow> fs list \<times> (cc_error + saved)) \<Rightarrow> bool" where
  "cc_operation op \<longleftrightarrow>
     (\<exists>i. op = cc_CreateInbound i \<or> op = cc_UpdateInbound i) \<or> (\<exists>t. op = cc_DeleteInbound t) \<or>
     (\<exists>fresh u. op = cc_CreateUser fresh u \<or> op = cc_UpdateUser fresh u) \<or> (\<exists>s. op = cc_DeleteUser s)"

lemma cc_operation_edit: "cc_operation op \<Longrightarrow> \<exists>edit. op = cc_edit_save edit"
  by (auto simp: cc_operation_def cc_CreateInbound_def cc_UpdateInbound_def cc_DeleteInbound_def
      cc_CreateUser_def cc_UpdateUser_def cc_DeleteUser_def)

lemma saveAndReload_atomic:
  fixes io :: save_io
  defines "tmp \<equiv> tmpName (sio_write io)"
  assumes run: "saveAndReload io path rt fs = (trace, r)" and old: "mget fs path = Some old"
    and tmp: "mget fs tmp = None" "tmp \<noteq> path @ ''.agent.bak''"
  shows "(\<forall>now \<in> set trace. mget now path = Some old \<or> (\<exists>s. r = Inr s \<and> mget now path = Some (configJSON s)))
    \<and> mget (last trace) path = (case r of Inl e \<Rightarrow> Some old | Inr s \<Rightarrow> Some (configJSON s))
    \<and> (\<forall>now \<in> set trace. \<forall>q. q \<notin> {path, tmp, path @ ''.agent.bak''} \<longrightarrow> mget now q = mget fs q)
    \<and> (mget (last trace) tmp = None \<or> wfa_remove_fails (sio_write io) \<and> isl r)"
proof (cases "sio_read_fails io")
  case True
  with run old tmp show ?thesis
    by (auto simp: saveAndReload_def)
next
  case False
  define fs1 where "fs1 = write_backup (sio_backup io) path old fs"
  define json where "json = MarshalIndent (JObj (syncStatsUsers rt))"
  obtain tr err where w: "writeFileAtomic (sio_write io) path json fs1 = (tr, err)"
    by fastforce
  have path: "path \<noteq> tmp" "path \<noteq> path @ ''.agent.bak''"
    using old tmp by auto
  have fs1: "mget fs1 path = Some old" "mget fs1 tmp = None"
    "\<And>q. q \<noteq> path @ ''.agent.bak'' \<Longrightarrow> mget fs1 q = mget fs q"
    using old tmp path by (simp_all add: fs1_def mget_write_backup)
  have trace: "trace = fs1 # tr" and r: "r = (case err of None \<Rightarrow> Inr \<lparr>previousConfig = old, configJSON = json\<rparr> | Some _ \<Rightarrow> Inl CC_Write)"
    using run old False w by (auto simp: saveAndReload_def Let_def fs1_def json_def split: option.splits)
  have "tr \<noteq> []"
    using trace_nonempty [of "sio_write io" path json fs1] w by simp
  have frame: "mget now q = mget fs q" if "now \<in> set trace" "q \<notin> {path, tmp, path @ ''.agent.bak''}" for now q
    using that trace w fs1 writeFileAtomic_frame [of now "sio_write io" path json fs1 q] by (auto simp: tmp_def)
  show ?thesis
  proof (cases err)
    case None
    have "atomic_at path json fs1 now" if "now \<in> set tr" for now
      using writeFileAtomic_path [of now "sio_write io" path json fs1] w that path by (simp add: tmp_def)
    then show ?thesis
      using None r trace \<open>tr \<noteq> []\<close> fs1(1) frame
        writeFileAtomic_result(1) [OF w path(1) [unfolded tmp_def] fs1(2) [unfolded tmp_def] None]
      by (auto simp: tmp_def atomic_at_def)
  next
    case (Some e)
    have "mget now path = Some old" if "now \<in> set tr" for now
      using writeFileAtomic_error_path [of "sio_write io" path json fs1 tr e now] w Some that path fs1(1)
      by (simp add: tmp_def)
    then show ?thesis
      using Some r trace \<open>tr \<noteq> []\<close> fs1(1) frame
        writeFileAtomic_result(2) [OF w path(1) [unfolded tmp_def] fs1(2) [unfolded tmp_def] Some]
      by (auto simp: tmp_def)
  qed
qed

lemma cc_edit_save_atomic:
  fixes io :: save_io
  defines "tmp \<equiv> tmpName (sio_write io)"
  assumes run: "cc_edit_save edit io path fs = (trace, r)" and old: "mget fs path = Some old"
    and tmp: "mget fs tmp = None" "tmp \<noteq> path @ ''.agent.bak''"
  shows "(\<forall>now \<in> set trace. mget now path = Some old \<or> (\<exists>s. r = Inr s \<and> mget now path = Some (configJSON s)))
    \<and> mget (last trace) path = (case r of Inl e \<Rightarrow> Some old | Inr s \<Rightarrow> Some (configJSON s))
    \<and> (\<forall>now \<in> set trace. \<forall>q. q \<notin> {path, tmp, path @ ''.agent.bak''} \<longrightarrow> mget now q = mget fs q)
    \<and> (mget (last trace) tmp = None \<or> wfa_remove_fails (sio_write io) \<and> isl r)"
proof (cases "bindE (loadRootConfig (mget fs path)) edit")
  case (Inl e)
  with run old tmp show ?thesis
    by (auto simp: cc_edit_save_def)
next
  case (Inr rt)
  with run have "saveAndReload io path rt fs = (trace, r)"
    by (simp add: cc_edit_save_def)
  then show ?thesis
    using old tmp unfolding tmp_def by (rule saveAndReload_atomic)
qed

text \<open>
  C26.  The configuration is replaced atomically.  During any of the six operations, at every
  moment (hence also after a crash, and for a reader that takes no lock) the file holds either its old content or, when
  the operation succeeds, the new one, never a torn or a missing file; an operation that fails leaves the old content.
  Apart from the backup no other file changes, and the temporary file is gone at the end unless the
  operation failed and it cannot be removed.  The temporary name is fresh, as \<open>os.CreateTemp\<close> promises.
\<close>

theorem cc_operation_atomic:
  assumes "cc_operation op" and "op io path fs = (trace, r)" and "mget fs path = Some old"
    and "mget fs (tmpName (sio_write io)) = None" and "tmpName (sio_write io) \<noteq> path @ ''.agent.bak''"
  shows "(\<forall>now \<in> set trace. mget now path = Some old \<or> (\<exists>s. r = Inr s \<and> mget now path = Some (configJSON s)))
    \<and> mget (last trace) path = (case r of Inl e \<Rightarrow> Some old | Inr s \<Rightarrow> Some (configJSON s))
    \<and> (\<forall>now \<in> set trace. \<forall>q. q \<notin> {path, tmpName (sio_write io), path @ ''.agent.bak''} \<longrightarrow> mget now q = mget fs q)
    \<and> (mget (last trace) (tmpName (sio_write io)) = None \<or> wfa_remove_fails (sio_write io) \<and> isl r)"
proof -
  from assms(1) obtain edit where "op = cc_edit_save edit"
    using cc_operation_edit by blast
  with assms(2) have "cc_edit_save edit io path fs = (trace, r)"
    by simp
  then show ?thesis
    using assms(3-5) by (rule cc_edit_save_atomic)
qed

definition demo_io :: save_io where
  "demo_io = \<lparr>sio_read_fails = False, sio_backup = Some WriteOk,
     sio_write = \<lparr>tmpName = ''.agent-tmp-1'', wfa_fault = None, wfa_partials = [], wfa_remove_fails = False\<rparr>\<rparr>"

definition demo_fs :: fs where
  "demo_fs = [(''config.json'', Doc (JObj demo_cfg))]"

lemma load_demo: "loadRootConfig (mget demo_fs ''config.json'') = Inr demo_cfg"
  by (simp add: loadRootConfig_def demo_fs_def demo_cfg_def)

lemma demo_inbounds: "getInbounds demo_cfg = [[(''tag'', JStr ''a''), (''users'', JArr [])]]"
  by (simp add: getInbounds_def arr_at_def demo_cfg_def)

lemma demo_saves: "\<exists>trace s. saveAndReload demo_io ''config.json'' rt demo_fs = (trace, Inr s)"
  by (simp add: saveAndReload_def writeFileAtomic_def demo_io_def demo_fs_def Let_def)

lemma demo_delete: "\<exists>trace s. cc_DeleteInbound ''a'' demo_io ''config.json'' demo_fs = (trace, Inr s)"
  using demo_saves [of "setInbounds [] demo_cfg"]
  by (simp add: cc_DeleteInbound_def cc_edit_save_def load_demo cc_edit_DeleteInbound_def demo_inbounds getString_def)

lemma jwf_demo: "jwf (JObj demo_cfg)"
  by (simp add: demo_cfg_def jwf_JObj jwf_JArr mwf_def)

theorem cc_operation_atomic_witness:
  "\<exists>trace s. cc_DeleteInbound ''a'' demo_io ''config.json'' demo_fs = (trace, Inr s) \<and>
     (\<forall>now \<in> set trace. mget now ''config.json'' \<in> {Some (Doc (JObj demo_cfg)), Some (configJSON s)}) \<and>
     mget (last trace) ''config.json'' = Some (configJSON s) \<and> mget (last trace) ''.agent-tmp-1'' = None"
proof -
  obtain trace s where run: "cc_DeleteInbound ''a'' demo_io ''config.json'' demo_fs = (trace, Inr s)"
    using demo_delete by blast
  have "cc_operation (cc_DeleteInbound ''a'')"
    by (auto simp: cc_operation_def)
  from cc_operation_atomic [OF this run, of "Doc (JObj demo_cfg)"] run show ?thesis
    by (simp add: demo_fs_def demo_io_def)
qed

section \<open>What is read back\<close>

definition io_ok :: "save_io \<Rightarrow> bool" where
  "io_ok io \<longleftrightarrow> \<not> sio_read_fails io \<and> wfa_fault (sio_write io) = None"

lemma loadRootConfig_Marshal:
  "mwf rt \<Longrightarrow> mget rt ''inbounds'' \<noteq> None \<Longrightarrow> loadRootConfig (Some (MarshalIndent (JObj rt))) = Inr (modelToMap rt)"
  by (auto simp: loadRootConfig_def canon_JObj mget_modelToMap simp del: canon.simps(7))

lemma getInbounds_modelToMap: "mwf rt \<Longrightarrow> getInbounds (modelToMap rt) = map modelToMap (getInbounds rt)"
  by (simp add: getInbounds_def arr_at_modelToMap objects_map_canon split: option.split)

lemma getInbounds_setInbounds [simp]: "getInbounds (setInbounds is rt) = is"
  by (simp add: getInbounds_def setInbounds_def arr_at_def)

lemma mget_syncStatsUsers: "k \<noteq> ''experimental'' \<Longrightarrow> mget (syncStatsUsers rt) k = mget rt k"
  by (simp add: syncStatsUsers_def split: option.split)

lemma getInbounds_syncStatsUsers [simp]: "getInbounds (syncStatsUsers rt) = getInbounds rt"
  by (simp add: getInbounds_def arr_at_def mget_syncStatsUsers)

lemma mwf_syncStatsUsers [simp]: "mwf rt \<Longrightarrow> mwf (syncStatsUsers rt)"
  by (simp add: syncStatsUsers_def split: option.split)

text \<open>The six edits, and what they have in common.\<close>

definition cc_edit :: "(jobj \<Rightarrow> cc_error + jobj) \<Rightarrow> bool" where
  "cc_edit edit \<longleftrightarrow>
     (\<exists>i. inbound_wf i \<and> (edit = cc_edit_CreateInbound i \<or> edit = cc_edit_UpdateInbound i)) \<or>
     (\<exists>t. edit = cc_edit_DeleteInbound t) \<or>
     (\<exists>fresh u. edit = cc_edit_CreateUser fresh u \<or> edit = cc_edit_UpdateUser fresh u) \<or>
     (\<exists>s. edit = cc_edit_DeleteUser s)"

lemma findInboundIndex_Some:
  "findInboundIndex is tag = Some n \<Longrightarrow> n < length is \<and> getString (is ! n) ''tag'' = tag \<and>
     (\<forall>j < n. getString (is ! j) ''tag'' \<noteq> tag)"
proof (induction "is" arbitrary: n)
  case (Cons i "is")
  then show ?case
    by (cases n) (auto simp: less_Suc_eq_0_disj split: if_splits)
qed simp

lemma findInboundIndex_None: "findInboundIndex is tag = None \<longleftrightarrow> tag \<notin> (\<lambda>i. getString i ''tag'') ` set is"
  by (induction "is" tag rule: findInboundIndex.induct) auto

lemma jwf_mget_arr: "jwf (JObj m) \<Longrightarrow> mget m k = Some (JArr vs) \<Longrightarrow> v \<in> set vs \<Longrightarrow> jwf v"
  using jwf_mget [of m k "JArr vs"] by (simp add: jwf_JArr)

lemma jwf_getInbounds: "jwf (JObj rt) \<Longrightarrow> i \<in> set (getInbounds rt) \<Longrightarrow> jwf (JObj i)"
  by (auto simp: getInbounds_def set_objects arr_at_Some split: option.splits dest!: sym [of "Some _"] intro: jwf_mget_arr)

lemma jwf_setInbounds:
  "jwf (JObj rt) \<Longrightarrow> \<forall>i \<in> set is. jwf (JObj i) \<Longrightarrow> jwf (JObj (setInbounds is rt))"
  by (simp add: setInbounds_def jwf_mput jwf_JArr)

lemma jwf_put_all: "jwf (JObj m) \<Longrightarrow> \<forall>v \<in> snd ` set new. jwf v \<Longrightarrow> jwf (JObj (put_all new m))"
proof (induction new arbitrary: m)
  case (Cons p new)
  then show ?case
    by (cases p) (simp add: put_all_def jwf_mput)
qed (simp add: put_all_def)

lemma in_getInboundUsers:
  "v \<in> set (getInboundUsers i) \<Longrightarrow>
     (\<exists>vs. mget i ''users'' = Some (JArr vs) \<and> v \<in> set vs) \<or>
     (\<exists>opts vs. mget i ''options'' = Some (JObj opts) \<and> mget opts ''users'' = Some (JArr vs) \<and> v \<in> set vs)"
  by (auto simp: getInboundUsers_def arr_at_Some obj_at_Some split: option.splits dest!: sym [of "Some _"])

lemma jwf_getInboundUsers: "jwf (JObj i) \<Longrightarrow> v \<in> set (getInboundUsers i) \<Longrightarrow> jwf v"
  by (drule in_getInboundUsers) (auto intro: jwf_mget_arr jwf_mget)

lemma jwf_setInboundUsers:
  "jwf (JObj i) \<Longrightarrow> \<forall>v \<in> set us. jwf v \<Longrightarrow> jwf (JObj (setInboundUsers us i))"
  unfolding setInboundUsers_def
  by (auto simp: jwf_mput jwf_JArr obj_at_Some split: option.split intro!: jwf_mput dest: jwf_mget)

lemma jwf_put_nonempty: "jwf (JObj m) \<Longrightarrow> jwf (JObj (put_nonempty k s m))"
  by (simp add: put_nonempty_def jwf_mput)

lemma jwf_buildProtocolUser: "jwf (JObj m) \<Longrightarrow> jwf (JObj (buildProtocolUser fresh t u m))"
proof -
  have "jwf (JObj [(k, JStr s)])" "k \<noteq> k' \<Longrightarrow> jwf (JObj [(k, JStr s), (k', JStr s')])" for k k' s s'
    by (simp_all add: jwf_JObj mwf_def)
  then show "jwf (JObj m) \<Longrightarrow> jwf (JObj (buildProtocolUser fresh t u m))"
    by (simp add: buildProtocolUser_def Let_def jwf_put_nonempty jwf_mput)
qed

lemma jwf_newInbound: "inbound_wf i \<Longrightarrow> jwf (JObj (newInbound i))"
  unfolding newInbound_def
  by (rule jwf_put_all) (auto simp: jwf_JObj mwf_def opt_string_def opt_int_def inbound_wf_def)

lemma jwf_updateExisting: "inbound_wf i \<Longrightarrow> jwf (JObj m) \<Longrightarrow> jwf (JObj (updateExisting i m))"
  by (auto simp: updateExisting_def Let_def inbound_wf_def jwf_JObj [of "Options i"] intro!: jwf_put_all jwf_mput)

lemma jwf_rebuild_user: "jwf v \<Longrightarrow> jwf (rebuild_user fresh t u v)"
  by (cases v) (simp_all add: jwf_buildProtocolUser)

lemma jwf_remove_user: "jwf (JObj i) \<Longrightarrow> jwf (JObj (remove_user s i))"
  by (auto simp: remove_user_def Let_def intro!: jwf_setInboundUsers dest: jwf_getInboundUsers)

lemma in_list_update: "x \<in> set (xs[n := y]) \<Longrightarrow> x = y \<or> x \<in> set xs"
  using set_update_subset_insert by fastforce

lemma jwf_replaced_users:
  assumes "\<forall>v \<in> set us. jwf v"
  shows "\<forall>v \<in> set (replace_first P (rebuild_user fresh t u) us). jwf v"
  using assms set_replace_first [of P "rebuild_user fresh t u" us] by (auto intro: jwf_rebuild_user)

lemma cc_edit_shape:
  assumes "cc_edit edit" and "jwf (JObj rt)" and "edit rt = Inr rt'"
  shows "\<exists>is. rt' = setInbounds is rt \<and> (\<forall>i \<in> set is. jwf (JObj i))"
proof -
  note old = jwf_getInbounds [OF assms(2)]
  have nth: "jwf (JObj (getInbounds rt ! n))" if "findInboundIndex (getInbounds rt) t = Some n" for n t
    using that findInboundIndex_Some [of "getInbounds rt" t n] old by simp
  have users: "\<forall>v \<in> set (getInboundUsers (getInbounds rt ! n)). jwf v"
    if "findInboundIndex (getInbounds rt) t = Some n" for n t
    using nth [OF that] jwf_getInboundUsers by blast
  have new: "jwf (JObj (buildProtocolUser fresh t u []))" for fresh t u
    by (rule jwf_buildProtocolUser) (simp add: jwf_JObj)
  show ?thesis
    using assms(1) unfolding cc_edit_def
  proof (elim disjE exE conjE, goal_cases)
    case (1 i)
    with assms(3) old show ?case
      by (auto simp: cc_edit_CreateInbound_def Let_def jwf_newInbound split: if_splits intro!: exI)
  next
    case (2 i)
    with assms(3) old nth show ?case
      by (auto simp: cc_edit_UpdateInbound_def Let_def split: option.splits
          intro!: exI jwf_updateExisting dest!: in_list_update)
  next
    case (3 t)
    with assms(3) old show ?case
      by (auto simp: cc_edit_DeleteInbound_def Let_def split: option.splits
          intro!: exI dest!: in_set_takeD in_set_dropD)
  next
    case (4 fresh u)
    with assms(3) old nth users new show ?case
      by (auto simp: cc_edit_CreateUser_def Let_def split: option.splits if_splits
          intro!: exI jwf_setInboundUsers dest!: in_list_update)
  next
    case (5 fresh u)
    have "jwf (JObj (setInboundUsers (replace_first P (rebuild_user fresh t u) (getInboundUsers (getInbounds rt ! n)))
        (getInbounds rt ! n)))" if "findInboundIndex (getInbounds rt) tag = Some n" for P t n tag
      by (rule jwf_setInboundUsers [OF nth [OF that] jwf_replaced_users [OF users [OF that]]])
    with 5 assms(3) old show ?case
      by (auto simp: cc_edit_UpdateUser_def Let_def split: option.splits if_splits
          intro!: exI dest!: in_list_update)
  next
    case (6 s)
    with assms(3) old show ?case
      by (auto simp: cc_edit_DeleteUser_def Let_def jwf_remove_user split: if_splits intro!: exI)
  qed
qed

text \<open>The operations whose argument is a Go value (no map has a key twice).\<close>

definition cc_wf_operation :: "(save_io \<Rightarrow> string \<Rightarrow> fs \<Rightarrow> fs list \<times> (cc_error + saved)) \<Rightarrow> bool" where
  "cc_wf_operation op \<longleftrightarrow>
     (\<exists>i. inbound_wf i \<and> (op = cc_CreateInbound i \<or> op = cc_UpdateInbound i)) \<or> (\<exists>t. op = cc_DeleteInbound t) \<or>
     (\<exists>fresh u. op = cc_CreateUser fresh u \<or> op = cc_UpdateUser fresh u) \<or> (\<exists>s. op = cc_DeleteUser s)"

lemma cc_wf_operation_edit: "cc_wf_operation op \<Longrightarrow> \<exists>edit. cc_edit edit \<and> op = cc_edit_save edit"
  by (auto simp: cc_wf_operation_def cc_edit_def cc_CreateInbound_def cc_UpdateInbound_def cc_DeleteInbound_def
      cc_CreateUser_def cc_UpdateUser_def cc_DeleteUser_def)

lemma saveAndReload_json: "saveAndReload io path rt fs = (trace, Inr s) \<Longrightarrow> configJSON s = MarshalIndent (JObj (syncStatsUsers rt))"
  by (auto simp: saveAndReload_def Let_def split: option.splits prod.splits if_splits)

lemma cc_edit_save_json:
  assumes "cc_edit_save edit io path fs = (trace, Inr s)"
  shows "\<exists>rt rt'. loadRootConfig (mget fs path) = Inr rt \<and> edit rt = Inr rt' \<and>
    configJSON s = MarshalIndent (JObj (syncStatsUsers rt'))"
  using assms saveAndReload_json
  by (fastforce simp: cc_edit_save_def bindE_eq_Inr_iff split: sum.splits)

text \<open>A successful operation, seen from the new content of the file.\<close>

lemma cc_op_saved:
  assumes "cc_wf_operation op" and "op io path fs = (trace, Inr s)"
    and "loadRootConfig (mget fs path) = Inr rt" and "jwf (JObj rt)"
  obtains "is" where "\<forall>i \<in> set is. jwf (JObj i)"
    and "loadRootConfig (Some (configJSON s)) = Inr (modelToMap (syncStatsUsers (setInbounds is rt)))"
proof -
  from assms(1) obtain edit where edit: "cc_edit edit" "op = cc_edit_save edit"
    using cc_wf_operation_edit by blast
  from assms(2,3) edit(2) obtain rt' where rt': "edit rt = Inr rt'" "configJSON s = MarshalIndent (JObj (syncStatsUsers rt'))"
    using cc_edit_save_json [of edit io path fs trace s] by auto
  from cc_edit_shape [OF edit(1) assms(4) rt'(1)] obtain "is" where
    "is": "rt' = setInbounds is rt" "\<forall>i \<in> set is. jwf (JObj i)"
    by blast
  then have "mwf (syncStatsUsers rt')" "mget (syncStatsUsers rt') ''inbounds'' \<noteq> None"
    using assms(4) by (simp_all add: setInbounds_def jwf_JObj mget_syncStatsUsers)
  with that "is" rt'(2) show thesis
    by (metis loadRootConfig_Marshal)
qed

lemma jwf_syncStatsUsers: "jwf (JObj rt) \<Longrightarrow> jwf (JObj (syncStatsUsers rt))"
proof -
  assume rt: "jwf (JObj rt)"
  have names: "jwf (JArr (map JStr xs))" for xs
    by (simp add: jwf_JArr)
  have "jwf (JObj (mput ''experimental'' (JObj (mput ''v2ray_api'' (JObj (mput ''stats''
      (JObj (mput ''users'' (JArr (map JStr xs)) st)) a)) e)) rt))"
    if "mget rt ''experimental'' = Some (JObj e)" "mget e ''v2ray_api'' = Some (JObj a)" "mget a ''stats'' = Some (JObj st)"
    for e a st xs
    using rt that by (meson jwf_mget jwf_mput names)
  with rt show ?thesis
    by (auto simp: syncStatsUsers_def obj_at_Some split: option.split)
qed

lemma canonical_modelToMap_getInbounds:
  "mget (modelToMap (syncStatsUsers (setInbounds is rt))) ''inbounds'' = Some (JArr (map JObj (map modelToMap is)))"
  if "mwf rt"
  using that by (simp add: mget_modelToMap mget_syncStatsUsers setInbounds_def canon_JObj comp_def del: canon.simps(7))

text \<open>
  A value is kept except under a path of keys: objects on the path keep all their other entries (as they are read back), and where the
  path does not exist nothing changes.
\<close>

fun kept_except :: "string list \<Rightarrow> jv option \<Rightarrow> jv option \<Rightarrow> bool" where
  "kept_except [] v v' \<longleftrightarrow> True"
| "kept_except (k # ks) (Some (JObj m)) v' \<longleftrightarrow>
     (\<exists>m'. v' = Some (JObj m') \<and> (\<forall>k'. k' \<noteq> k \<longrightarrow> mget m' k' = map_option canon (mget m k')) \<and> kept_except ks (mget m k) (mget m' k))"
| "kept_except (k # ks) v v' \<longleftrightarrow> v' = map_option canon v"

lemma kept_except_canon: "(\<And>x. v = Some x \<Longrightarrow> jwf x) \<Longrightarrow> kept_except ks v (map_option canon v)"
proof (induction ks v "map_option canon v" rule: kept_except.induct)
  case (2 k ks m)
  then have m: "jwf (JObj m)" "mwf m"
    by (simp_all add: jwf_JObj)
  have "kept_except ks (mget m k) (mget (modelToMap m) k)"
    using 2(1) [of "modelToMap m"] m jwf_mget [OF m(1)] by (simp add: canon_JObj mget_modelToMap del: canon.simps(7))
  with m show ?case
    by (simp add: canon_JObj mget_modelToMap del: canon.simps(7))
qed simp_all

lemma kept_except_mput:
  assumes "mwf m" and "mget m k = Some (JObj n)" and "kept_except ks (Some (JObj n)) (Some (canon (JObj n')))"
  shows "kept_except (k # ks) (Some (JObj m)) (Some (canon (JObj (mput k (JObj n') m))))"
  using assms by (simp add: canon_JObj mget_modelToMap del: canon.simps(7))

abbreviation counted_path :: "string list" where
  "counted_path \<equiv> [''experimental'', ''v2ray_api'', ''stats'', ''users'']"

lemma syncStatsUsers_kept:
  assumes "jwf (JObj rt)"
  shows "kept_except counted_path (Some (JObj rt)) (Some (canon (JObj (syncStatsUsers rt))))"
proof (cases "syncStatsUsers rt = rt")
  case True
  have "kept_except counted_path (Some (JObj rt)) (map_option canon (Some (JObj rt)))"
    by (rule kept_except_canon) (use assms in simp)
  with True show ?thesis
    by (simp only: option.map)
next
  case False
  then obtain e a st where *: "mget rt ''experimental'' = Some (JObj e)" "mget e ''v2ray_api'' = Some (JObj a)" "mget a ''stats'' = Some (JObj st)"
    by (auto simp: syncStatsUsers_def obj_at_def split: option.splits jv.splits)
  then have wf: "mwf rt" "mwf e" "mwf a" "mwf st"
    using assms by (meson jwf_JObj jwf_mget)+
  have "kept_except [''users''] (Some (JObj st)) (Some (canon (JObj (mput ''users'' v st))))" for v
    using wf(4) by (simp add: canon_JObj mget_modelToMap del: canon.simps(7))
  with * wf show ?thesis
    by (simp add: syncStatsUsers_def obj_at_def kept_except_mput del: kept_except.simps canon.simps(7))
qed

text \<open>
  C27.  The type of the configuration file.  From a file with a well-formed JSON object (no key
  twice), every operation that succeeds writes one again: it can be read back, its entries are well
  formed and canonical, and every element of \<open>inbounds\<close> is an object (so nothing is hidden from
  \<open>getInbounds\<close>).  Everything outside of \<open>inbounds\<close> is kept, with one exception: the value of
  \<open>experimental.v2ray_api.stats.users\<close>, and that only where \<open>experimental.v2ray_api.stats\<close> exists.
\<close>

theorem cc_operation_typed:
  assumes "cc_wf_operation op" and "op io path fs = (trace, Inr s)"
    and "loadRootConfig (mget fs path) = Inr rt" and "jwf (JObj rt)"
  shows "\<exists>rt'. loadRootConfig (Some (configJSON s)) = Inr rt' \<and> jwf (JObj rt') \<and> canonical (JObj rt') \<and>
    mget rt' ''inbounds'' = Some (JArr (map JObj (getInbounds rt'))) \<and>
    kept_except [''experimental'', ''v2ray_api'', ''stats'', ''users'']
      (Some (JObj (mdel ''inbounds'' rt))) (Some (JObj (mdel ''inbounds'' rt')))"
proof -
  obtain "is" where
    "is": "\<forall>i \<in> set is. jwf (JObj i)" and
    load: "loadRootConfig (Some (configJSON s)) = Inr (modelToMap (syncStatsUsers (setInbounds is rt)))"
    by (rule cc_op_saved [OF assms])
  let ?rt = "syncStatsUsers (setInbounds is rt)"
  have "jwf (JObj ?rt)"
    using assms(4) "is" by (intro jwf_syncStatsUsers jwf_setInbounds)
  moreover have "getInbounds (modelToMap ?rt) = map modelToMap is"
    using assms(4) \<open>jwf (JObj ?rt)\<close> by (simp add: getInbounds_modelToMap jwf_JObj)
  moreover have "kept_except counted_path (Some (JObj (mdel ''inbounds'' rt))) (Some (JObj (mdel ''inbounds'' (modelToMap ?rt))))"
    using syncStatsUsers_kept [OF jwf_setInbounds [OF assms(4) "is"]]
    by (simp add: canon_JObj setInbounds_def del: canon.simps(7))
  moreover have "mget (modelToMap ?rt) ''inbounds'' = Some (JArr (map JObj (map modelToMap is)))"
    using assms(4) by (intro canonical_modelToMap_getInbounds) (simp add: jwf_JObj)
  ultimately show ?thesis
    using load by (intro exI [of _ "modelToMap ?rt"]) (simp add: jwf_modelToMap)
qed

definition demo_sections :: jobj where
  "demo_sections =
     [(''experimental'', JObj [(''cache_file'', JBool True), (''v2ray_api'', JObj [(''listen'', JStr ''x''), (''stats'', JObj [(''enabled'', JBool True)])])]),
      (''inbounds'', JArr [JObj [(''tag'', JStr ''a'')]]), (''log'', JNull)]"

theorem cc_operation_typed_witness:
  "\<exists>trace s rt' e a. cc_DeleteInbound ''a'' demo_io ''config.json'' [(''config.json'', Doc (JObj demo_sections))] = (trace, Inr s) \<and>
     loadRootConfig (Some (configJSON s)) = Inr rt' \<and> mget rt' ''log'' = Some JNull \<and> mget rt' ''experimental'' = Some (JObj e) \<and>
     mget e ''cache_file'' = Some (JBool True) \<and> mget e ''v2ray_api'' = Some (JObj a) \<and> mget a ''listen'' = Some (JStr ''x'')"
proof -
  let ?fs = "[(''config.json'', Doc (JObj demo_sections))]"
  have load: "loadRootConfig (mget ?fs ''config.json'') = Inr demo_sections" and wf: "jwf (JObj demo_sections)"
    by (simp_all add: loadRootConfig_def demo_sections_def jwf_JObj jwf_JArr mwf_def)
  have edit: "cc_edit_DeleteInbound ''a'' demo_sections = Inr (setInbounds [] demo_sections)"
    by (simp add: cc_edit_DeleteInbound_def demo_sections_def getInbounds_def arr_at_def getString_def)
  obtain trace s where run: "cc_DeleteInbound ''a'' demo_io ''config.json'' ?fs = (trace, Inr s)"
    by (simp add: cc_DeleteInbound_def cc_edit_save_def load [simplified] edit saveAndReload_def writeFileAtomic_def demo_io_def Let_def)
  have "cc_wf_operation (cc_DeleteInbound ''a'')"
    unfolding cc_wf_operation_def by blast
  from cc_operation_typed [OF this run load wf] obtain rt' where rt': "loadRootConfig (Some (configJSON s)) = Inr rt'"
    "kept_except counted_path (Some (JObj (mdel ''inbounds'' demo_sections))) (Some (JObj (mdel ''inbounds'' rt')))"
    by blast
  have top: "mget demo_sections ''log'' = Some JNull" "mget demo_sections ''experimental'' =
      Some (JObj [(''cache_file'', JBool True), (''v2ray_api'', JObj [(''listen'', JStr ''x''), (''stats'', JObj [(''enabled'', JBool True)])])])"
    by (simp_all add: demo_sections_def)
  from rt'(2) have other: "\<forall>k. k \<noteq> ''experimental'' \<longrightarrow> mget (mdel ''inbounds'' rt') k = map_option canon (mget (mdel ''inbounds'' demo_sections) k)"
    and experimental: "kept_except [''v2ray_api'', ''stats'', ''users''] (mget demo_sections ''experimental'') (mget rt' ''experimental'')"
    by auto
  from experimental obtain e where e: "mget rt' ''experimental'' = Some (JObj e)"
    "\<forall>k. k \<noteq> ''v2ray_api'' \<longrightarrow> mget e k = map_option canon (mget [(''cache_file'', JBool True), (''v2ray_api'', JObj [(''listen'', JStr ''x''), (''stats'', JObj [(''enabled'', JBool True)])])] k)"
    and api: "kept_except [''stats'', ''users''] (Some (JObj [(''listen'', JStr ''x''), (''stats'', JObj [(''enabled'', JBool True)])])) (mget e ''v2ray_api'')"
    unfolding top by auto
  from api obtain a where "mget e ''v2ray_api'' = Some (JObj a)" "mget a ''listen'' = Some (JStr ''x'')"
    by auto
  moreover have "mget rt' ''log'' = Some JNull" "mget e ''cache_file'' = Some (JBool True)"
    using other [rule_format, of "''log''"] e(2) [rule_format, of "''cache_file''"] top(1) by simp_all
  moreover note e(1)
  ultimately have "\<exists>e a. mget rt' ''log'' = Some JNull \<and> mget rt' ''experimental'' = Some (JObj e) \<and>
     mget e ''cache_file'' = Some (JBool True) \<and> mget e ''v2ray_api'' = Some (JObj a) \<and> mget a ''listen'' = Some (JStr ''x'')"
    by blast
  with run rt'(1) show ?thesis
    by blast
qed

section \<open>The list of counted users\<close>

definition user_names :: "jobj \<Rightarrow> string set" where
  "user_names rt =
     {getString u ''name'' | u. \<exists>i \<in> set (getInbounds rt). JObj u \<in> set (getInboundUsers i)} - {[]}"

definition counted_users :: "jobj \<Rightarrow> jv option" where
  "counted_users rt =
     (case obj_at rt ''experimental'' of
        Some e \<Rightarrow> (case obj_at e ''v2ray_api'' of
          Some a \<Rightarrow> (case obj_at a ''stats'' of Some st \<Rightarrow> mget st ''users'' | None \<Rightarrow> None)
        | None \<Rightarrow> None)
      | None \<Rightarrow> None)"

definition has_stats :: "jobj \<Rightarrow> bool" where
  "has_stats rt \<longleftrightarrow> (\<exists>e a st. obj_at rt ''experimental'' = Some e \<and> obj_at e ''v2ray_api'' = Some a \<and>
     obj_at a ''stats'' = Some st)"

lemma collect_names:
  "distinct names \<Longrightarrow> distinct (collect_names us names) \<and>
     set (collect_names us names) = set names \<union> ((\<lambda>u. getString u ''name'') ` set us - {[]})"
  by (induction us names rule: collect_names.induct) (auto simp: Let_def)

lemma stats_users_eq: "stats_users rt = sorted_list_of_set (user_names rt)"
proof -
  define us where "us = concat (map (\<lambda>i. objects (getInboundUsers i)) (getInbounds rt))"
  have "distinct (collect_names us [])" "set (collect_names us []) = (\<lambda>u. getString u ''name'') ` set us - {[]}"
    using collect_names [of "[]" us] by simp_all
  moreover have "(\<lambda>u. getString u ''name'') ` set us - {[]} = user_names rt"
    by (fastforce simp: us_def user_names_def set_objects)
  ultimately show ?thesis
    unfolding stats_users_def us_def [symmetric]
    by (metis distinct_remdups_id sorted_list_of_set_sort_remdups)
qed

lemma counted_syncStatsUsers:
  "has_stats rt \<Longrightarrow> counted_users (syncStatsUsers rt) = Some (JArr (map JStr (sorted_list_of_set (user_names rt))))"
  by (auto simp: has_stats_def counted_users_def syncStatsUsers_def stats_users_eq obj_at_def [of "mput _ _ _"])

lemma canon_names [simp]: "map canon (map JStr xs) = map JStr xs"
  by simp

lemma counted_modelToMap:
  assumes "jwf (JObj rt)" and "counted_users rt = Some v"
  shows "counted_users (modelToMap rt) = Some (canon v)"
proof -
  from assms(2) obtain e a st where *: "mget rt ''experimental'' = Some (JObj e)" "mget e ''v2ray_api'' = Some (JObj a)"
    "mget a ''stats'' = Some (JObj st)" "mget st ''users'' = Some v"
    by (auto simp: counted_users_def obj_at_Some split: option.splits dest!: sym [of "Some _"])
  then have "mwf rt" "mwf e" "mwf a" "mwf st"
    using assms(1) by (meson jwf_JObj jwf_mget)+
  then show ?thesis
    using * by (simp add: counted_users_def obj_at_modelToMap mget_modelToMap flip: obj_at_Some)
qed

lemma getInboundUsers_modelToMap: "jwf (JObj i) \<Longrightarrow> getInboundUsers (modelToMap i) = map canon (getInboundUsers i)"
proof -
  assume i: "jwf (JObj i)"
  have "mwf opts" if "obj_at i ''options'' = Some opts" for opts
    using jwf_mget [OF i] that by (metis jwf_JObj obj_at_Some)
  moreover have "mwf i"
    using i by (simp add: jwf_JObj)
  ultimately show ?thesis
    by (auto simp: getInboundUsers_def arr_at_modelToMap obj_at_modelToMap split: option.split)
qed

lemma objects_users_modelToMap:
  "jwf (JObj i) \<Longrightarrow> objects (getInboundUsers (modelToMap i)) = map modelToMap (objects (getInboundUsers i))"
  by (simp add: getInboundUsers_modelToMap objects_map_canon)

lemma user_names_modelToMap: "jwf (JObj rt) \<Longrightarrow> user_names (modelToMap rt) = user_names rt"
proof -
  assume rt: "jwf (JObj rt)"
  have names: "user_names r = (\<Union>i \<in> set (getInbounds r). (\<lambda>u. getString u ''name'') ` set (objects (getInboundUsers i))) - {[]}" for r
    by (fastforce simp: user_names_def set_objects)
  have "(\<lambda>u. getString u ''name'') ` set (objects (getInboundUsers (modelToMap i))) =
      (\<lambda>u. getString u ''name'') ` set (objects (getInboundUsers i))" if "i \<in> set (getInbounds rt)" for i
  proof -
    have i: "jwf (JObj i)"
      using rt that by (rule jwf_getInbounds)
    have "mwf u" if "u \<in> set (objects (getInboundUsers i))" for u
      using that jwf_getInboundUsers [OF i] by (simp add: set_objects) (metis jwf_JObj)
    with i show ?thesis
      by (simp add: objects_users_modelToMap image_image getString_modelToMap)
  qed
  then show ?thesis
    using rt by (simp add: names getInbounds_modelToMap jwf_JObj)
qed

text \<open>
  C28.  Every user is counted.  When the configuration has the section
  \<open>experimental.v2ray_api.stats\<close>, then after every operation that succeeds its list \<open>users\<close> is the
  sorted list, without repetition, of the non-empty names of all users in the new file.
\<close>

theorem stats_users_in_sync:
  assumes "cc_wf_operation op" and "op io path fs = (trace, Inr s)"
    and "loadRootConfig (mget fs path) = Inr rt" and "jwf (JObj rt)" and "has_stats rt"
  shows "\<exists>rt'. loadRootConfig (Some (configJSON s)) = Inr rt' \<and>
    counted_users rt' = Some (JArr (map JStr (sorted_list_of_set (user_names rt'))))"
proof -
  obtain "is" where
    "is": "\<forall>i \<in> set is. jwf (JObj i)" and
    load: "loadRootConfig (Some (configJSON s)) = Inr (modelToMap (syncStatsUsers (setInbounds is rt)))"
    by (rule cc_op_saved [OF assms(1-4)])
  let ?rt = "syncStatsUsers (setInbounds is rt)"
  have wf: "jwf (JObj ?rt)"
    using assms(4) "is" by (intro jwf_syncStatsUsers jwf_setInbounds)
  have "has_stats (setInbounds is rt)"
    using assms(5) by (simp add: has_stats_def setInbounds_def obj_at_def)
  then have "counted_users ?rt = Some (JArr (map JStr (sorted_list_of_set (user_names (setInbounds is rt)))))"
    by (rule counted_syncStatsUsers)
  moreover have "user_names (setInbounds is rt) = user_names ?rt"
    by (simp add: user_names_def)
  ultimately show ?thesis
    using load counted_modelToMap [OF wf] user_names_modelToMap [OF wf] by auto
qed

lemma saveAndReload_succeeds:
  "io_ok io \<Longrightarrow> mget fs path = Some old \<Longrightarrow> \<exists>trace s. saveAndReload io path rt fs = (trace, Inr s)"
  by (simp add: io_ok_def saveAndReload_def writeFileAtomic_def Let_def)

lemma cc_edit_save_succeeds:
  assumes "io_ok io" and "loadRootConfig (mget fs path) = Inr rt" and "edit rt = Inr rt'"
  shows "\<exists>trace s. cc_edit_save edit io path fs = (trace, Inr s)"
proof -
  have "mget fs path \<noteq> None"
    using assms(2) by (auto simp: loadRootConfig_def split: option.splits)
  with assms saveAndReload_succeeds [of io fs path _ rt'] show ?thesis
    by (auto simp: cc_edit_save_def)
qed

lemma io_ok_demo: "io_ok demo_io"
  by (simp add: io_ok_def demo_io_def)

definition demo_stats :: jobj where
  "demo_stats = [(''experimental'', JObj [(''v2ray_api'', JObj [(''stats'', JObj [])])]),
     (''inbounds'', JArr [JObj [(''tag'', JStr ''a''), (''type'', JStr ''vless'')]])]"

theorem stats_users_in_sync_witness:
  "\<exists>trace s rt'. cc_CreateUser ''x'' demo_user demo_io ''config.json'' [(''config.json'', Doc (JObj demo_stats))] = (trace, Inr s) \<and>
     loadRootConfig (Some (configJSON s)) = Inr rt' \<and>
     counted_users rt' = Some (JArr (map JStr (sorted_list_of_set (user_names rt'))))"
proof -
  let ?fs = "[(''config.json'', Doc (JObj demo_stats))]"
  have load: "loadRootConfig (mget ?fs ''config.json'') = Inr demo_stats"
    by (simp add: loadRootConfig_def demo_stats_def)
  have "\<exists>rt'. cc_edit_CreateUser ''x'' demo_user demo_stats = Inr rt'"
    by (simp add: cc_edit_CreateUser_def demo_user_def demo_stats_def getInbounds_def arr_at_def obj_at_def getString_def
        getInboundUsers_def Let_def)
  then obtain trace s where run: "cc_CreateUser ''x'' demo_user demo_io ''config.json'' ?fs = (trace, Inr s)"
    using cc_edit_save_succeeds [OF io_ok_demo load] by (metis cc_CreateUser_def)
  have op: "cc_wf_operation (cc_CreateUser ''x'' demo_user)"
    unfolding cc_wf_operation_def by blast
  have "jwf (JObj demo_stats)" "has_stats demo_stats"
    by (simp_all add: demo_stats_def jwf_JObj jwf_JArr mwf_def has_stats_def obj_at_def)
  from stats_users_in_sync [OF op run load this] show ?thesis
    using run by (elim exE conjE) (intro exI conjI)
qed

section \<open>Users as they are read back\<close>

lemma getInboundUsers_setInboundUsers [simp]: "getInboundUsers (setInboundUsers us i) = us"
  by (cases "mget i ''users''"; cases "obj_at i ''options''")
    (simp_all add: getInboundUsers_def setInboundUsers_def arr_at_def obj_at_def [of "mput _ _ _"])

lemma getString_setInboundUsers: "k \<noteq> ''users'' \<Longrightarrow> k \<noteq> ''options'' \<Longrightarrow> getString (setInboundUsers us i) k = getString i k"
  by (simp add: setInboundUsers_def getString_mput split: option.split)

lemma userFromMap_modelToMap: "mwf u \<Longrightarrow> userFromMap (modelToMap u) tag = userFromMap u tag"
  by (auto simp: userFromMap_def getString_modelToMap mget_modelToMap Let_def split: option.split jv.split)

lemma inbound_users_modelToMap: "jwf (JObj i) \<Longrightarrow> inbound_users (modelToMap i) = inbound_users i"
proof -
  assume i: "jwf (JObj i)"
  have "mwf u" if "u \<in> set (objects (getInboundUsers i))" for u
    using that jwf_getInboundUsers [OF i] by (simp add: set_objects) (metis jwf_JObj)
  then have "List.map_filter (\<lambda>u. userFromMap (modelToMap u) t) (objects (getInboundUsers i)) =
      List.map_filter (\<lambda>u. userFromMap u t) (objects (getInboundUsers i))" for t
    by (auto simp: List.map_filter_def userFromMap_modelToMap intro!: map_cong filter_cong)
  with i show ?thesis
    by (simp add: inbound_users_def objects_users_modelToMap getString_modelToMap jwf_JObj List.map_filter_def
        filter_map comp_def)
qed

text \<open>What a user becomes when it is created and read back.\<close>

definition stored_user :: "string \<Rightarrow> string \<Rightarrow> User \<Rightarrow> User" where
  "stored_user fresh inboundType user =
     (let t = ToLower inboundType; known = (uuid_protocol t \<or> password_protocol t)
      in \<lparr>SubID = SubID user, UUID = (if known then firstNonEmpty [UUID user, fresh] else UUID user),
          InboundTag = InboundTag user, Email = (if known then [] else Email user), Enabled = True,
          Flow = (if password_protocol t then [] else Flow user),
          LimitIP = 0, UploadLimit = 0, DownloadLimit = 0, ResetAt = None\<rparr>)"

lemma mget_put_nonempty: "mget (put_nonempty k s m) k' = (if k' = k \<and> s \<noteq> [] then Some (JStr s) else mget m k')"
  by (simp add: put_nonempty_def)

lemma getString_put_nonempty: "getString (put_nonempty k s m) k' = (if k' = k \<and> s \<noteq> [] then s else getString m k')"
  by (simp add: put_nonempty_def getString_mput)

lemma getString_pairs [simp]:
  "getString [] k = []" "getString ((k, JStr s) # m) k' = (if k' = k then s else getString m k')"
  by (simp_all add: getString_def)

lemma userFromMap_new:
  assumes "SubID user \<noteq> []" and "InboundTag user = tag"
  shows "userFromMap (buildProtocolUser fresh t user []) tag = Some (stored_user fresh t user)"
proof (cases "uuid_protocol (ToLower t)"; cases "password_protocol (ToLower t)")
qed (use assms protocols_disjoint in \<open>simp_all add: userFromMap_def stored_user_def buildProtocolUser_def Let_def
      getString_put_nonempty mget_put_nonempty getString_mput getString_pairs\<close>)

end
