(* ===== verification/Debounce.thy ===== *)
theory Debounce
  imports ConfigClient
begin

text \<open>
  The debounced reload of \<open>internal/singbox/client.go\<close> as a state machine.  A write of \<open>saveAndReload\<close>
  replaces the file and then, in a second critical section, arms or resets the timer.  The callback
  of a timer runs in a goroutine of its own: it takes the window (\<open>performDebouncedReload\<close> up to the
  first unlock), reloads, and after a failure rolls the file back under the lock of the file and
  reloads again.  A timer that was reset after it fired runs its callback a second time, possibly
  when the window it belonged to is gone (\<open>stale\<close>).

  \<open>seen\<close>, \<open>client_writes\<close> and \<open>unreloaded\<close> are history variables: the contents the file ever had, those
  written by the client, and whether the last client write is not yet followed by a reload.
\<close>

section \<open>Model\<close>

text \<open>What a goroutine of \<open>performDebouncedReload\<close> is about to do.\<close>

datatype phase = Taken | Failed | Retry

record job =
  j_original :: content
  j_written :: "content option"
  j_phase :: phase

record dstate =
  d_file :: content
  writer :: "(content \<times> content) option"
  timer :: "bool option"
  stale :: nat
  pending :: nat
  debounceOriginal :: "content option"
  debounceWritten :: "content option"
  jobs :: "job list"
  seen :: "content set"
  client_writes :: "content set"
  unreloaded :: bool

definition d_init :: "content \<Rightarrow> dstate" where
  "d_init f = \<lparr>d_file = f, writer = None, timer = None, stale = 0, pending = 0, debounceOriginal = None,
     debounceWritten = None, jobs = [], seen = {f}, client_writes = {}, unreloaded = False\<rparr>"

definition set_file :: "content \<Rightarrow> dstate \<Rightarrow> dstate" where
  "set_file f s = s\<lparr>d_file := f, seen := insert f (seen s)\<rparr>"

text \<open>The write of \<open>saveAndReload\<close>; it holds the lock of the file until the timer is armed.\<close>

definition begin_write :: "content \<Rightarrow> dstate \<Rightarrow> dstate" where
  "begin_write new s =
     (set_file new s)\<lparr>writer := Some (d_file s, new), client_writes := insert new (client_writes s), unreloaded := True\<rparr>"

text \<open>The critical section at the end of \<open>saveAndReload\<close>.\<close>

definition arm :: "content \<Rightarrow> content \<Rightarrow> dstate \<Rightarrow> dstate" where
  "arm previous new s =
     (case timer s of
        None \<Rightarrow> s\<lparr>writer := None, debounceOriginal := Some previous, debounceWritten := Some new, timer := Some True\<rparr>
      | Some _ \<Rightarrow> s\<lparr>writer := None, debounceWritten := Some new, timer := Some True\<rparr>)"

text \<open>
  The first critical section of \<open>performDebouncedReload\<close>.  A timer that is still running when its
  reference is dropped will fire later.
\<close>

definition take_window :: "dstate \<Rightarrow> dstate" where
  "take_window s =
     s\<lparr>pending := pending s - 1, debounceOriginal := None, debounceWritten := None, timer := None,
       stale := stale s + (if timer s = Some True then 1 else 0),
       jobs := jobs s @ (case debounceOriginal s of
                           None \<Rightarrow> []
                         | Some original \<Rightarrow> [\<lparr>j_original = original, j_written = debounceWritten s, j_phase = Taken\<rparr>])\<rparr>"

definition needRollback :: "job \<Rightarrow> content option \<Rightarrow> bool" where
  "needRollback j current \<longleftrightarrow> (\<exists>f. current = Some f \<and> j_written j = Some f \<and> f \<noteq> j_original j)"

text \<open>The steps.  \<open>current\<close> is the result of the read in the rollback, \<^term>\<open>None\<close> when it fails.\<close>

inductive internal :: "dstate \<Rightarrow> dstate \<Rightarrow> bool" where
  arm: "writer s = Some (previous, new) \<Longrightarrow> internal s (arm previous new s)"
| expire: "timer s = Some True \<Longrightarrow> internal s (s\<lparr>timer := Some False, pending := pending s + 1\<rparr>)"
| expire_stale: "stale s > 0 \<Longrightarrow> internal s (s\<lparr>stale := stale s - 1, pending := pending s + 1\<rparr>)"
| take_window: "pending s > 0 \<Longrightarrow> internal s (take_window s)"
| reload_ok: "jobs s = a @ j # b \<Longrightarrow> j_phase j = Taken \<Longrightarrow> internal s (s\<lparr>jobs := a @ b, unreloaded := False\<rparr>)"
| reload_fail: "jobs s = a @ j # b \<Longrightarrow> j_phase j = Taken \<Longrightarrow>
    internal s (s\<lparr>jobs := a @ j\<lparr>j_phase := Failed\<rparr> # b, unreloaded := False\<rparr>)"
| rollback: "jobs s = a @ j # b \<Longrightarrow> j_phase j = Failed \<Longrightarrow> writer s = None \<Longrightarrow> needRollback j (Some (d_file s)) \<Longrightarrow>
    internal s ((set_file (j_original j) s)\<lparr>jobs := a @ j\<lparr>j_phase := Retry\<rparr> # b\<rparr>)"
| rollback_fail: "jobs s = a @ j # b \<Longrightarrow> j_phase j = Failed \<Longrightarrow> writer s = None \<Longrightarrow> needRollback j (Some (d_file s)) \<Longrightarrow>
    internal s (s\<lparr>jobs := a @ b\<rparr>)"
| keep: "jobs s = a @ j # b \<Longrightarrow> j_phase j = Failed \<Longrightarrow> writer s = None \<Longrightarrow>
    current = None \<or> current = Some (d_file s) \<Longrightarrow> \<not> needRollback j current \<Longrightarrow>
    internal s (s\<lparr>jobs := a @ j\<lparr>j_phase := Retry\<rparr> # b\<rparr>)"
| retry: "jobs s = a @ j # b \<Longrightarrow> j_phase j = Retry \<Longrightarrow> internal s (s\<lparr>jobs := a @ b\<rparr>)"

text \<open>Writes of the client and of others (\<open>ConfigManager\<close>, an operator) start the activity.\<close>

inductive d_step :: "dstate \<Rightarrow> dstate \<Rightarrow> bool" where
  internal: "internal s s' \<Longrightarrow> d_step s s'"
| begin_write: "writer s = None \<Longrightarrow> d_step s (begin_write new s)"
| other_write: "writer s = None \<Longrightarrow> d_step s (set_file f s)"

inductive reachable :: "dstate \<Rightarrow> bool" where
  init: "reachable (d_init f)"
| step: "reachable s \<Longrightarrow> d_step s s' \<Longrightarrow> reachable s'"

inductive_cases internalE: "internal s s'"
inductive_cases stepE: "d_step s s'"

section \<open>The invariant\<close>

definition d_inv :: "dstate \<Rightarrow> bool" where
  "d_inv s \<longleftrightarrow>
     (timer s = None \<longleftrightarrow> debounceOriginal s = None) \<and> (timer s = None \<longleftrightarrow> debounceWritten s = None) \<and>
     (timer s = Some False \<longrightarrow> pending s > 0) \<and>
     (unreloaded s \<longrightarrow> writer s \<noteq> None \<or> timer s \<noteq> None \<or> (\<exists>j \<in> set (jobs s). j_phase j = Taken)) \<and>
     (\<forall>p n. writer s = Some (p, n) \<longrightarrow> p \<in> seen s \<and> n \<in> client_writes s) \<and>
     (\<forall>f. debounceOriginal s = Some f \<longrightarrow> f \<in> seen s) \<and> (\<forall>f. debounceWritten s = Some f \<longrightarrow> f \<in> client_writes s) \<and>
     (\<forall>j \<in> set (jobs s). j_original j \<in> seen s \<and> (\<exists>w \<in> client_writes s. j_written j = Some w)) \<and>
     d_file s \<in> seen s"

lemma d_inv_init: "d_inv (d_init f)"
  by (simp add: d_inv_def d_init_def)

lemma d_inv_internal: "internal s s' \<Longrightarrow> d_inv s \<Longrightarrow> d_inv s'"
proof (induction rule: internal.induct)
  case (arm s previous new)
  then show ?case
    by (auto simp: d_inv_def arm_def split: option.splits)
next
  case (take_window s)
  then show ?case
    by (auto simp: d_inv_def take_window_def split: option.splits)
next
  case (rollback s a j b)
  then show ?case
    by (auto simp: d_inv_def set_file_def)
qed (auto simp: d_inv_def)

lemma d_inv_step: "d_step s s' \<Longrightarrow> d_inv s \<Longrightarrow> d_inv s'"
  by (erule stepE) (auto simp: d_inv_internal, auto simp: d_inv_def begin_write_def set_file_def)

lemma reachable_inv: "reachable s \<Longrightarrow> d_inv s"
  by (induction rule: reachable.induct) (auto simp: d_inv_init d_inv_step)

section \<open>The reload comes to an end\<close>

fun phase_weight :: "phase \<Rightarrow> nat" where
  "phase_weight Taken = 3"
| "phase_weight Failed = 2"
| "phase_weight Retry = 1"

definition weight :: "dstate \<Rightarrow> nat" where
  "weight s =
     (if writer s = None then 0 else 6) + (if timer s = Some True then 5 else 0) + 5 * stale s + 4 * pending s
     + sum_list (map (phase_weight \<circ> j_phase) (jobs s))"

lemma weight_internal: "internal s s' \<Longrightarrow> d_inv s \<Longrightarrow> weight s' < weight s"
proof (induction rule: internal.induct)
  case (take_window s)
  show ?case
  proof (cases "debounceOriginal s")
    case None
    with take_window show ?thesis
      by (auto simp: weight_def take_window_def d_inv_def)
  next
    case (Some f)
    with take_window show ?thesis
      by (auto simp: weight_def take_window_def d_inv_def)
  qed
qed (auto simp: weight_def arm_def set_file_def split: option.split)

text \<open>
  When nothing of the machine is left to do, every write of the client has been followed by a
  reload.
\<close>

lemma quiescent_reloaded:
  assumes "d_inv s" and "\<And>s'. \<not> internal s s'"
  shows "\<not> unreloaded s"
proof
  assume "unreloaded s"
  then have "writer s \<noteq> None \<or> timer s \<noteq> None \<or> (\<exists>j \<in> set (jobs s). j_phase j = Taken)"
    using assms(1) unfolding d_inv_def by blast
  then consider "writer s \<noteq> None" | "timer s = Some True" | "timer s = Some False"
    | j where "j \<in> set (jobs s)" "j_phase j = Taken"
    by (cases "timer s") auto
  then show False
  proof cases
    case 1
    then show ?thesis using assms(2) internal.arm by fastforce
  next
    case 2
    then show ?thesis using assms(2) internal.expire by blast
  next
    case 3
    then have "pending s > 0"
      using assms(1) by (simp add: d_inv_def)
    then show ?thesis using assms(2) internal.take_window by blast
  next
    case 4
    then obtain a b where "jobs s = a @ j # b"
      by (meson split_list)
    then show ?thesis using 4 assms(2) internal.reload_ok by blast
  qed
qed

text \<open>
  C32.  The debounced reload terminates and forgets no write.  Without new writes every sequence of steps of
  the reload machinery, from any reachable state and in whatever interleaving, is finite; and in
  a state where no step is left, the last write of the client has been followed by a reload.
\<close>

theorem debounce_terminates:
  "wf {(s', s). reachable s \<and> internal s s'} \<and>
   (\<forall>s. reachable s \<longrightarrow> (\<nexists>s'. internal s s') \<longrightarrow> \<not> unreloaded s)"
proof
  have "{(s', s). reachable s \<and> internal s s'} \<subseteq> measure weight"
    using weight_internal reachable_inv by auto
  then show "wf {(s', s). reachable s \<and> internal s s'}"
    by (rule wf_subset [OF wf_measure])
  show "\<forall>s. reachable s \<longrightarrow> (\<nexists>s'. internal s s') \<longrightarrow> \<not> unreloaded s"
    using quiescent_reloaded reachable_inv by blast
qed

text \<open>A run with one write, whose reload fails and is rolled back.\<close>

definition run_taken :: dstate where
  "run_taken =
     (let s = arm (Doc JNull) (Doc (JBool True)) (begin_write (Doc (JBool True)) (d_init (Doc JNull)))
      in take_window (s\<lparr>timer := Some False, pending := pending s + 1\<rparr>))"

definition run_job :: job where
  "run_job = \<lparr>j_original = Doc JNull, j_written = Some (Doc (JBool True)), j_phase = Taken\<rparr>"

definition run_failed :: dstate where
  "run_failed = run_taken\<lparr>jobs := [run_job\<lparr>j_phase := Failed\<rparr>], unreloaded := False\<rparr>"

definition run_rolled_back :: dstate where
  "run_rolled_back = (set_file (Doc JNull) run_failed)\<lparr>jobs := [run_job\<lparr>j_phase := Retry\<rparr>]\<rparr>"

definition run_done :: dstate where
  "run_done = run_rolled_back\<lparr>jobs := []\<rparr>"

lemmas run_defs = run_taken_def run_failed_def run_rolled_back_def run_done_def run_job_def d_init_def begin_write_def set_file_def
  arm_def take_window_def Let_def needRollback_def

lemma reachable_internal: "reachable s \<Longrightarrow> internal s s' \<Longrightarrow> reachable s'"
  by (rule reachable.step [OF _ d_step.internal])

lemma reachable_run_failed: "reachable run_failed"
proof -
  let ?s1 = "begin_write (Doc (JBool True)) (d_init (Doc JNull))"
  let ?s2 = "arm (Doc JNull) (Doc (JBool True)) ?s1"
  let ?s3 = "?s2\<lparr>timer := Some False, pending := pending ?s2 + 1\<rparr>"
  have "reachable ?s1"
    by (rule reachable.step [OF reachable.init d_step.begin_write]) (simp add: d_init_def)
  then have "reachable ?s2"
    by (rule reachable_internal) (rule internal.arm, simp add: begin_write_def d_init_def)
  then have "reachable ?s3"
    by (rule reachable_internal) (rule internal.expire, simp add: run_defs)
  then have "reachable run_taken"
    unfolding run_taken_def Let_def by (rule reachable_internal) (rule internal.take_window, simp)
  moreover have "internal run_taken run_failed"
    using internal.reload_fail [of run_taken "[]" run_job "[]"] by (simp add: run_failed_def) (simp add: run_defs)
  ultimately show ?thesis
    by (rule reachable_internal)
qed

lemma run_rollback: "internal run_failed run_rolled_back"
  using internal.rollback [of run_failed "[]" "run_job\<lparr>j_phase := Failed\<rparr>" "[]"] by (simp add: run_defs)

lemma reachable_run_done: "reachable run_done"
proof -
  have "internal run_rolled_back run_done"
    using internal.retry [of run_rolled_back "[]" "run_job\<lparr>j_phase := Retry\<rparr>" "[]"] by (simp add: run_defs)
  with reachable_run_failed run_rollback show ?thesis
    by (blast intro: reachable_internal)
qed

theorem debounce_terminates_witness:
  "reachable run_done \<and> (\<nexists>s'. internal run_done s') \<and> \<not> unreloaded run_done"
proof -
  have "\<not> internal run_done s'" for s'
    by (auto elim!: internalE simp: run_defs)
  then show ?thesis
    using debounce_terminates reachable_run_done by blast
qed

section \<open>The rollback\<close>



text \<open>Another writer changes the file and then restores the bytes of the client: the rollback cannot tell.\<close>

lemma same_bytes_overwritten:
  "\<exists>s s'. reachable (set_file (Doc (JBool True)) (set_file (Doc (JBool False)) s)) \<and> reachable s \<and>
     internal (set_file (Doc (JBool True)) (set_file (Doc (JBool False)) s)) s' \<and> d_file s' = Doc JNull"
proof (intro exI conjI)
  let ?s = "set_file (Doc (JBool True)) (set_file (Doc (JBool False)) run_failed)"
  show "reachable run_failed"
    by (rule reachable_run_failed)
  then have "reachable (set_file (Doc (JBool False)) run_failed)"
    by (rule reachable.step [OF _ d_step.other_write]) (simp add: run_defs)
  then show "reachable ?s"
    by (rule reachable.step [OF _ d_step.other_write]) (simp add: run_defs)
  show "internal ?s ((set_file (Doc JNull) ?s)\<lparr>jobs := [run_job\<lparr>j_phase := Retry\<rparr>]\<rparr>)"
    using internal.rollback [of ?s "[]" "run_job\<lparr>j_phase := Failed\<rparr>" "[]"] by (simp add: run_defs)
qed (simp add: set_file_def)

end
