(* ===== verification/Cfglock.thy ===== *)
theory Cfglock
  imports Prelude
begin

text \<open>
  The registry of locks (\<open>internal/cfglock\<close>), one for every configuration file.  A mutex is its address; the allocator hands out
  addresses in order.  \<open>absolute\<close> stands for \<open>filepath.Abs\<close>, which may fail.
\<close>

record registry =
  locks :: "(string, nat) gomap"
  fresh :: nat

definition lock_key :: "(string \<Rightarrow> string option) \<Rightarrow> string \<Rightarrow> string" where
  "lock_key absolute path = (case absolute path of Some a \<Rightarrow> a | None \<Rightarrow> path)"

definition For :: "(string \<Rightarrow> string option) \<Rightarrow> string \<Rightarrow> registry \<Rightarrow> registry \<times> nat" where
  "For absolute path reg =
     (case mget (locks reg) (lock_key absolute path) of
        Some m \<Rightarrow> (reg, m)
      | None \<Rightarrow> (\<lparr>locks = mput (lock_key absolute path) (fresh reg) (locks reg), fresh = Suc (fresh reg)\<rparr>, fresh reg))"

definition registry_ok :: "registry \<Rightarrow> bool" where
  "registry_ok reg \<longleftrightarrow>
     (\<forall>k m. mget (locks reg) k = Some m \<longrightarrow> m < fresh reg) \<and>
     (\<forall>k k' m. mget (locks reg) k = Some m \<longrightarrow> mget (locks reg) k' = Some m \<longrightarrow> k = k')"

lemma registry_ok_For: "registry_ok reg \<Longrightarrow> registry_ok (fst (For absolute path reg))"
  by (auto simp: registry_ok_def For_def less_SucI split: option.split if_splits)

lemma For_held: "mget (locks (fst (For absolute path reg))) (lock_key absolute path) = Some (snd (For absolute path reg))"
  by (simp add: For_def split: option.split)

lemma For_keeps: "mget (locks reg) k = Some m \<Longrightarrow> mget (locks (fst (For absolute path reg))) k = Some m"
  by (auto simp: For_def split: option.split)

text \<open>Two calls give the same mutex exactly when they name the same file, whatever calls come in between.\<close>

lemma For_same_iff:
  assumes "registry_ok reg" and "For absolute p reg = (reg1, m)" and "reg2 = fold (\<lambda>q r. fst (For absolute q r)) qs reg1"
    and "For absolute p' reg2 = (reg3, m')"
  shows "m = m' \<longleftrightarrow> lock_key absolute p = lock_key absolute p'"
proof -
  have keeps: "registry_ok (fold (\<lambda>q r. fst (For absolute q r)) qs r) \<and> mget (locks (fold (\<lambda>q r. fst (For absolute q r)) qs r)) k = Some n"
    if "registry_ok r" "mget (locks r) k = Some n" for r k n
    using that by (induction qs arbitrary: r) (auto simp: registry_ok_For For_keeps)
  have "registry_ok reg1" "mget (locks reg1) (lock_key absolute p) = Some m"
    using registry_ok_For [OF assms(1), of absolute p] For_held [of absolute p reg] assms(2) by simp_all
  then have "registry_ok reg2" "mget (locks reg2) (lock_key absolute p) = Some m"
    using keeps assms(3) by auto
  then have "registry_ok reg3" "mget (locks reg3) (lock_key absolute p) = Some m"
    using registry_ok_For [of reg2 absolute p'] For_keeps [of reg2 "lock_key absolute p" m absolute p'] assms(4) by simp_all
  moreover have "mget (locks reg3) (lock_key absolute p') = Some m'"
    using For_held [of absolute p' reg2] assms(4) by simp
  ultimately show ?thesis
    by (auto simp: registry_ok_def)
qed

end
