(* ===== verification/Concurrency.thy ===== *)
theory Concurrency
  imports ConfigClient Cfglock
begin

text \<open>
  Goroutines that work on one configuration file.  Theories \<open>ConfigManager\<close> and \<open>ConfigClient\<close> describe an operation as one
  function of the file.  Here an operation is what the source executes: the lock \<open>c.mu\<close> or \<open>m.mu\<close> of its component, the
  double-checked lookup of \<open>cfglock.For\<close>, the mutex it returns, and one system call after the other on the directory.  The
  goroutines are interleaved arbitrarily, call by call.  The result is that the mutex makes the finer description equivalent to
  the coarser one, in some order of the operations.
\<close>

section \<open>System calls\<close>

text \<open>
  A program that works on files; the continuation of a read gets the content of the file.  \<open>WriteFile\<close> is any call after which
  the file holds the given content: the creation or truncation of a file, or a (partial) write.
\<close>

datatype 'r prog =
    Return 'r
  | ReadFile string "content option \<Rightarrow> 'r prog"
  | WriteFile string content "'r prog"
  | RemoveFile string "'r prog"
  | Rename string string "'r prog"

fun syscall :: "'r prog \<Rightarrow> fs \<Rightarrow> 'r prog \<times> fs" where
  "syscall (Return r) fs = (Return r, fs)"
| "syscall (ReadFile path k) fs = (k (mget fs path), fs)"
| "syscall (WriteFile path data p) fs = (p, mput path data fs)"
| "syscall (RemoveFile path p) fs = (p, mdel path fs)"
| "syscall (Rename old new p) fs = (p, case mget fs old of Some data \<Rightarrow> mput new data (mdel old fs) | None \<Rightarrow> fs)"

text \<open>The effect of a program that runs alone.\<close>

primrec exec :: "'r prog \<Rightarrow> fs \<Rightarrow> 'r \<times> fs" where
  "exec (Return r) fs = (r, fs)"
| "exec (ReadFile path k) fs = exec (k (mget fs path)) fs"
| "exec (WriteFile path data p) fs = exec p (mput path data fs)"
| "exec (RemoveFile path p) fs = exec p (mdel path fs)"
| "exec (Rename old new p) fs = exec p (case mget fs old of Some data \<Rightarrow> mput new data (mdel old fs) | None \<Rightarrow> fs)"

section \<open>The operations call by call\<close>

definition write_contents :: "string \<Rightarrow> content list \<Rightarrow> 'r prog \<Rightarrow> 'r prog" where
  "write_contents path cs p = foldr (WriteFile path) cs p"

definition remove_temp :: "wfa_io \<Rightarrow> 'r prog \<Rightarrow> 'r prog" where
  "remove_temp io p = (if wfa_remove_fails io then p else RemoveFile (tmpName io) p)"

text \<open>\<open>writeFileAtomic\<close>; \<open>k\<close> is what its caller does with the error.\<close>

definition writeFileAtomic_prog :: "wfa_io \<Rightarrow> string \<Rightarrow> content \<Rightarrow> (wfa_error option \<Rightarrow> 'r prog) \<Rightarrow> 'r prog" where
  "writeFileAtomic_prog io path data k =
     (let t = tmpName io
      in case wfa_fault io of
           Some CreateTempFailed \<Rightarrow> k (Some CreateTempFailed)
         | Some CloseTempFailed \<Rightarrow> WriteFile t emptyFile (remove_temp io (k (Some CloseTempFailed)))
         | Some OpenFailed \<Rightarrow> WriteFile t emptyFile (remove_temp io (k (Some OpenFailed)))
         | Some WriteFailed \<Rightarrow> WriteFile t emptyFile (write_contents t (wfa_partials io) (remove_temp io (k (Some WriteFailed))))
         | Some err \<Rightarrow>
             WriteFile t emptyFile (write_contents t (wfa_partials io @ [data]) (remove_temp io (k (Some err))))
         | None \<Rightarrow> WriteFile t emptyFile (write_contents t (wfa_partials io @ [data]) (Rename t path (k None))))"

definition backup_prog :: "write_outcome option \<Rightarrow> string \<Rightarrow> content \<Rightarrow> 'r prog \<Rightarrow> 'r prog" where
  "backup_prog b path previous p =
     (case b of
        None \<Rightarrow> p
      | Some WriteOk \<Rightarrow> WriteFile (path @ ''.agent.bak'') previous p
      | Some (WriteFails partial) \<Rightarrow> WriteFile (path @ ''.agent.bak'') partial p)"

definition saveAndReload_prog :: "save_io \<Rightarrow> string \<Rightarrow> jobj \<Rightarrow> (cc_error + saved) prog" where
  "saveAndReload_prog io path rt =
     (if sio_read_fails io then Return (Inl CC_Backup)
      else ReadFile path (\<lambda>f.
        case f of
          None \<Rightarrow> Return (Inl CC_Backup)
        | Some previous \<Rightarrow>
            let json = MarshalIndent (JObj (syncStatsUsers rt))
            in backup_prog (sio_backup io) path previous
                 (writeFileAtomic_prog (sio_write io) path json (\<lambda>err.
                    Return (if err = None then Inr \<lparr>previousConfig = previous, configJSON = json\<rparr> else Inl CC_Write)))))"

definition client_prog :: "(jobj \<Rightarrow> cc_error + jobj) \<Rightarrow> save_io \<Rightarrow> string \<Rightarrow> (cc_error + saved) prog" where
  "client_prog edit io path =
     ReadFile path (\<lambda>f.
       case bindE (loadRootConfig f) edit of Inl err \<Rightarrow> Return (Inl err) | Inr rt \<Rightarrow> saveAndReload_prog io path rt)"

text \<open>\<open>os.WriteFile\<close> of the manager; \<open>torn\<close> are the contents of the file between the truncation and the last write.\<close>

record manager_io =
  mio_torn :: "content list"
  mio_outcome :: write_outcome

definition saveConfigMap_prog :: "manager_io \<Rightarrow> string \<Rightarrow> jobj \<Rightarrow> cm_error option prog" where
  "saveConfigMap_prog io path cfg =
     write_contents path (mio_torn io)
       (case mio_outcome io of
          WriteOk \<Rightarrow> WriteFile path (MarshalIndent (JObj cfg)) (Return None)
        | WriteFails partial \<Rightarrow> WriteFile path partial (Return (Some WriteConfig)))"

definition manager_prog :: "(jobj \<Rightarrow> cm_error + jobj) \<Rightarrow> manager_io \<Rightarrow> string \<Rightarrow> cm_error option prog" where
  "manager_prog edit io path =
     ReadFile path (\<lambda>f.
       case bindE (loadConfigMap f) edit of Inl err \<Rightarrow> Return (Some err) | Inr cfg \<Rightarrow> saveConfigMap_prog io path cfg)"

text \<open>
  The part of \<open>performDebouncedReload\<close> under the lock: whether a rollback was needed, and the error of its write.  \<open>fails\<close>:
  the read of the file fails.
\<close>

definition rollback_prog :: "bool \<Rightarrow> content \<Rightarrow> content \<Rightarrow> wfa_io \<Rightarrow> string \<Rightarrow> (bool \<times> wfa_error option) prog" where
  "rollback_prog fails original written io path =
     (if fails then Return (False, None)
      else ReadFile path (\<lambda>current.
        if current = Some written \<and> written \<noteq> original
        then writeFileAtomic_prog io path original (\<lambda>err. Return (True, err))
        else Return (False, None)))"

text \<open>What a goroutine does with the file.\<close>

datatype operation =
    OpGetInbounds | OpGetUsers
  | OpCreateInbound Inbound save_io | OpUpdateInbound Inbound save_io | OpDeleteInbound string save_io
  | OpCreateUser string User save_io | OpUpdateUser string User save_io | OpDeleteUser string save_io
  | OpRollback bool content content wfa_io
  | OpManagerAddUser string User manager_io | OpManagerUpdateUser string User manager_io
  | OpManagerDeleteUser string string manager_io
  | OpManagerAddInbound Inbound manager_io | OpManagerUpdateInbound Inbound manager_io | OpManagerDeleteInbound string manager_io

datatype op_result =
    ResInbounds "cc_error + Inbound list" | ResUsers "cc_error + User list"
  | ResClient "cc_error + saved" | ResRollback "bool \<times> wfa_error option" | ResManager "cm_error option"

fun op_prog :: "string \<Rightarrow> operation \<Rightarrow> op_result prog" where
  "op_prog path OpGetInbounds = ReadFile path (\<lambda>f. Return (ResInbounds (cc_GetInbounds f)))"
| "op_prog path OpGetUsers = ReadFile path (\<lambda>f. Return (ResUsers (cc_GetUsers f)))"
| "op_prog path (OpCreateInbound i io) = map_prog ResClient (client_prog (cc_edit_CreateInbound i) io path)"
| "op_prog path (OpUpdateInbound i io) = map_prog ResClient (client_prog (cc_edit_UpdateInbound i) io path)"
| "op_prog path (OpDeleteInbound tag io) = map_prog ResClient (client_prog (cc_edit_DeleteInbound tag) io path)"
| "op_prog path (OpCreateUser uid u io) = map_prog ResClient (client_prog (cc_edit_CreateUser uid u) io path)"
| "op_prog path (OpUpdateUser uid u io) = map_prog ResClient (client_prog (cc_edit_UpdateUser uid u) io path)"
| "op_prog path (OpDeleteUser subID io) = map_prog ResClient (client_prog (cc_edit_DeleteUser subID) io path)"
| "op_prog path (OpRollback fails original written io) = map_prog ResRollback (rollback_prog fails original written io path)"
| "op_prog path (OpManagerAddUser tag u io) = map_prog ResManager (manager_prog (edit_AddUser tag u) io path)"
| "op_prog path (OpManagerUpdateUser tag u io) = map_prog ResManager (manager_prog (edit_UpdateUser tag u) io path)"
| "op_prog path (OpManagerDeleteUser tag s io) = map_prog ResManager (manager_prog (edit_DeleteUser tag s) io path)"
| "op_prog path (OpManagerAddInbound i io) = map_prog ResManager (manager_prog (edit_AddInbound i) io path)"
| "op_prog path (OpManagerUpdateInbound i io) = map_prog ResManager (manager_prog (edit_UpdateInbound i) io path)"
| "op_prog path (OpManagerDeleteInbound tag io) = map_prog ResManager (manager_prog (edit_DeleteInbound tag) io path)"

section \<open>Goroutines and locks\<close>

text \<open>
  \<open>ClientMu\<close> and \<open>ManagerMu\<close> are the \<open>sync.RWMutex\<close> of \<open>ConfigClient\<close> and of \<open>ConfigManager\<close>, taken for reading or writing; the
  rollback takes neither, and evaluates \<open>cfglock.For\<close> once, while the other operations evaluate it again for the deferred
  unlock.
\<close>

datatype component = ClientMu | ManagerMu

fun outer_lock :: "operation \<Rightarrow> (component \<times> bool) option" where
  "outer_lock OpGetInbounds = Some (ClientMu, False)"
| "outer_lock OpGetUsers = Some (ClientMu, False)"
| "outer_lock (OpCreateInbound i io) = Some (ClientMu, True)"
| "outer_lock (OpUpdateInbound i io) = Some (ClientMu, True)"
| "outer_lock (OpDeleteInbound tag io) = Some (ClientMu, True)"
| "outer_lock (OpCreateUser uid u io) = Some (ClientMu, True)"
| "outer_lock (OpUpdateUser uid u io) = Some (ClientMu, True)"
| "outer_lock (OpDeleteUser s io) = Some (ClientMu, True)"
| "outer_lock (OpRollback fails original written io) = None"
| "outer_lock (OpManagerAddUser tag u io) = Some (ManagerMu, True)"
| "outer_lock (OpManagerUpdateUser tag u io) = Some (ManagerMu, True)"
| "outer_lock (OpManagerDeleteUser tag s io) = Some (ManagerMu, True)"
| "outer_lock (OpManagerAddInbound i io) = Some (ManagerMu, True)"
| "outer_lock (OpManagerUpdateInbound i io) = Some (ManagerMu, True)"
| "outer_lock (OpManagerDeleteInbound tag io) = Some (ManagerMu, True)"

definition deferred_unlock :: "operation \<Rightarrow> bool" where
  "deferred_unlock op \<longleftrightarrow> outer_lock op \<noteq> None"

text \<open>
  Where a goroutine is: before the lock of its component; before the lookup in the registry of locks and before its repetition
  under the write lock; before \<open>Lock()\<close>; before the second \<open>For\<close>; in the critical section, with the mutex it has locked and the
  one it will unlock; before the release of the lock of its component; done.
\<close>

datatype thread =
    Enter operation | Lookup operation | Insert operation | Acquire nat operation | Deferring nat operation
  | Critical nat nat operation "op_result prog" | Leave operation op_result | Finished op_result

fun holds_mutex :: "nat \<Rightarrow> thread \<Rightarrow> bool" where
  "holds_mutex m (Deferring m' op) = (m' = m)"
| "holds_mutex m (Critical m' u op p) = (m' = m)"
| "holds_mutex m _ = False"

fun inside :: "thread \<Rightarrow> operation option" where
  "inside (Enter op) = None"
| "inside (Lookup op) = Some op"
| "inside (Insert op) = Some op"
| "inside (Acquire m op) = Some op"
| "inside (Deferring m op) = Some op"
| "inside (Critical m u op p) = Some op"
| "inside (Leave op r) = Some op"
| "inside (Finished r) = None"

text \<open>A \<open>RWMutex\<close> excludes a writer from everything else.\<close>

definition excludes :: "operation \<Rightarrow> operation \<Rightarrow> bool" where
  "excludes op op' \<longleftrightarrow>
     (case (outer_lock op, outer_lock op') of (Some (c, w), Some (c', w')) \<Rightarrow> c = c' \<and> (w \<or> w') | _ \<Rightarrow> False)"

definition can_enter :: "operation \<Rightarrow> thread list \<Rightarrow> bool" where
  "can_enter op ts = list_all (\<lambda>t. case inside t of None \<Rightarrow> True | Some op' \<Rightarrow> \<not> excludes op op') ts"

record conc =
  cx_fs :: fs
  cx_registry :: registry
  cx_threads :: "thread list"

definition goto :: "nat \<Rightarrow> thread \<Rightarrow> conc \<Rightarrow> conc" where
  "goto i t c = c\<lparr>cx_threads := (cx_threads c)[i := t]\<rparr>"

text \<open>
  One step of goroutine \<open>i\<close>, if it is not blocked.  To unlock a mutex that is not the locked one ends the process; this has
  no successor here.
\<close>

fun step_thread ::
  "(operation \<Rightarrow> op_result prog) \<Rightarrow> (string \<Rightarrow> string option) \<Rightarrow> string \<Rightarrow> nat \<Rightarrow> thread \<Rightarrow> conc \<Rightarrow> conc option" where
  "step_thread prog_of absolute path i (Enter op) c = (if can_enter op (cx_threads c) then Some (goto i (Lookup op) c) else None)"
| "step_thread prog_of absolute path i (Lookup op) c =
     Some (goto i (case mget (locks (cx_registry c)) (lock_key absolute path) of Some m \<Rightarrow> Acquire m op | None \<Rightarrow> Insert op) c)"
| "step_thread prog_of absolute path i (Insert op) c =
     (case For absolute path (cx_registry c) of (reg, m) \<Rightarrow> Some (goto i (Acquire m op) (c\<lparr>cx_registry := reg\<rparr>)))"
| "step_thread prog_of absolute path i (Acquire m op) c =
     (if list_ex (holds_mutex m) (cx_threads c) then None
      else Some (goto i (if deferred_unlock op then Deferring m op else Critical m m op (prog_of op)) c))"
| "step_thread prog_of absolute path i (Deferring m op) c =
     (case For absolute path (cx_registry c) of
        (reg, u) \<Rightarrow> Some (goto i (Critical m u op (prog_of op)) (c\<lparr>cx_registry := reg\<rparr>)))"
| "step_thread prog_of absolute path i (Critical m u op (Return r)) c = (if u = m then Some (goto i (Leave op r) c) else None)"
| "step_thread prog_of absolute path i (Critical m u op p) c =
     (case syscall p (cx_fs c) of (p', fs') \<Rightarrow> Some (goto i (Critical m u op p') (c\<lparr>cx_fs := fs'\<rparr>)))"
| "step_thread prog_of absolute path i (Leave op r) c = Some (goto i (Finished r) c)"
| "step_thread prog_of absolute path i (Finished r) c = None"

definition conc_step ::
  "(operation \<Rightarrow> op_result prog) \<Rightarrow> (string \<Rightarrow> string option) \<Rightarrow> string \<Rightarrow> nat \<Rightarrow> conc \<Rightarrow> conc option" where
  "conc_step prog_of absolute path i c =
     (if i < length (cx_threads c) then step_thread prog_of absolute path i (cx_threads c ! i) c else None)"

text \<open>A schedule says which goroutine runs next; \<^term>\<open>None\<close> when it names one that is blocked or done.\<close>

fun run_schedule ::
  "(operation \<Rightarrow> op_result prog) \<Rightarrow> (string \<Rightarrow> string option) \<Rightarrow> string \<Rightarrow> nat list \<Rightarrow> conc \<Rightarrow> conc option" where
  "run_schedule prog_of absolute path [] c = Some c"
| "run_schedule prog_of absolute path (i # is) c =
     Option.bind (conc_step prog_of absolute path i c) (run_schedule prog_of absolute path is)"

definition conc_start :: "operation list \<Rightarrow> fs \<Rightarrow> registry \<Rightarrow> conc" where
  "conc_start ops fs reg = \<lparr>cx_fs = fs, cx_registry = reg, cx_threads = map Enter ops\<rparr>"

section \<open>The operations as functions\<close>

definition put_file :: "string \<Rightarrow> cfgfile \<Rightarrow> fs \<Rightarrow> fs" where
  "put_file path f fs = (case f of Some data \<Rightarrow> mput path data fs | None \<Rightarrow> mdel path fs)"

definition client_atomic :: "(save_io \<Rightarrow> string \<Rightarrow> fs \<Rightarrow> fs list \<times> (cc_error + saved)) \<Rightarrow> save_io \<Rightarrow> string \<Rightarrow> fs \<Rightarrow> op_result \<times> fs" where
  "client_atomic f io path fs = (case f io path fs of (trace, r) \<Rightarrow> (ResClient r, last trace))"

definition manager_atomic :: "(write_outcome \<Rightarrow> cfgfile \<Rightarrow> cfgfile \<times> cm_error option) \<Rightarrow> manager_io \<Rightarrow> string \<Rightarrow> fs \<Rightarrow> op_result \<times> fs" where
  "manager_atomic f io path fs =
     (case f (mio_outcome io) (mget fs path) of (f', err) \<Rightarrow> (ResManager err, put_file path f' fs))"

definition rollback_atomic :: "bool \<Rightarrow> content \<Rightarrow> content \<Rightarrow> wfa_io \<Rightarrow> string \<Rightarrow> fs \<Rightarrow> op_result \<times> fs" where
  "rollback_atomic fails original written io path fs =
     (if \<not> fails \<and> mget fs path = Some written \<and> written \<noteq> original
      then (case writeFileAtomic io path original fs of (trace, err) \<Rightarrow> (ResRollback (True, err), last trace))
      else (ResRollback (False, None), fs))"

fun op_atomic :: "string \<Rightarrow> operation \<Rightarrow> fs \<Rightarrow> op_result \<times> fs" where
  "op_atomic path OpGetInbounds fs = (ResInbounds (cc_GetInbounds (mget fs path)), fs)"
| "op_atomic path OpGetUsers fs = (ResUsers (cc_GetUsers (mget fs path)), fs)"
| "op_atomic path (OpCreateInbound i io) fs = client_atomic (cc_CreateInbound i) io path fs"
| "op_atomic path (OpUpdateInbound i io) fs = client_atomic (cc_UpdateInbound i) io path fs"
| "op_atomic path (OpDeleteInbound tag io) fs = client_atomic (cc_DeleteInbound tag) io path fs"
| "op_atomic path (OpCreateUser uid u io) fs = client_atomic (cc_CreateUser uid u) io path fs"
| "op_atomic path (OpUpdateUser uid u io) fs = client_atomic (cc_UpdateUser uid u) io path fs"
| "op_atomic path (OpDeleteUser s io) fs = client_atomic (cc_DeleteUser s) io path fs"
| "op_atomic path (OpRollback fails original written io) fs = rollback_atomic fails original written io path fs"
| "op_atomic path (OpManagerAddUser tag u io) fs = manager_atomic (cm_AddUser tag u) io path fs"
| "op_atomic path (OpManagerUpdateUser tag u io) fs = manager_atomic (cm_UpdateUser tag u) io path fs"
| "op_atomic path (OpManagerDeleteUser tag s io) fs = manager_atomic (cm_DeleteUser tag s) io path fs"
| "op_atomic path (OpManagerAddInbound i io) fs = manager_atomic (cm_AddInbound i) io path fs"
| "op_atomic path (OpManagerUpdateInbound i io) fs = manager_atomic (cm_UpdateInbound i) io path fs"
| "op_atomic path (OpManagerDeleteInbound tag io) fs = manager_atomic (cm_DeleteInbound tag) io path fs"

section \<open>Call by call and as functions the operations agree\<close>

lemma exec_map_prog: "exec (map_prog f p) fs = map_prod f id (exec p fs)"
  by (induction p arbitrary: fs) (auto split: option.split)

lemma mput_mput [simp]: "mput k v (mput k v' m) = mput k v m"
  by (simp add: mput_def)

lemma mput_same [simp]: "mget m k = Some v \<Longrightarrow> mput k v m = m"
  by (induction m) (auto simp: mput_def split: if_splits)

lemma mdel_absent [simp]: "mget m k = None \<Longrightarrow> mdel k m = m"
  by (simp add: mget_def mdel_def delete_id map_of_eq_None_iff)

lemma exec_write_contents:
  "exec (write_contents path cs p) fs = exec p (if cs = [] then fs else mput path (last cs) fs)"
  by (induction cs arbitrary: fs) (simp_all add: write_contents_def)

lemma exec_remove_temp: "exec (remove_temp io p) fs = exec p (Remove io fs)"
  by (simp add: remove_temp_def Remove_def)

lemma exec_writeFileAtomic_prog:
  "exec (writeFileAtomic_prog io path data k) fs =
     (case writeFileAtomic io path data fs of (trace, err) \<Rightarrow> exec (k err) (last trace))"
  by (cases "wfa_partials io" rule: rev_cases)
    (auto simp: writeFileAtomic_prog_def writeFileAtomic_def exec_write_contents exec_remove_temp Let_def last_map
      split: option.split wfa_error.split)

lemma exec_backup_prog: "exec (backup_prog b path previous p) fs = exec p (write_backup b path previous fs)"
  by (simp add: backup_prog_def write_backup_def split: option.split write_outcome.split)

lemma exec_saveAndReload_prog:
  "exec (saveAndReload_prog io path rt) fs = (case saveAndReload io path rt fs of (trace, r) \<Rightarrow> (r, last trace))"
  by (auto simp: saveAndReload_prog_def saveAndReload_def exec_backup_prog exec_writeFileAtomic_prog Let_def
      split: option.split prod.split) (metis fst_conv trace_nonempty)+

lemma exec_client_prog:
  "exec (client_prog edit io path) fs = (case cc_edit_save edit io path fs of (trace, r) \<Rightarrow> (r, last trace))"
  by (simp add: client_prog_def cc_edit_save_def exec_saveAndReload_prog split: sum.split)

lemma exec_manager_prog:
  "exec (manager_prog edit io path) fs =
     (case load_edit_save edit (mio_outcome io) (mget fs path) of (f', err) \<Rightarrow> (err, put_file path f' fs))"
  by (auto simp: manager_prog_def load_edit_save_def saveConfigMap_prog_def saveConfigMap_def exec_write_contents put_file_def
      split: sum.split write_outcome.split option.split)

lemma exec_rollback_prog:
  "map_prod ResRollback id (exec (rollback_prog fails original written io path) fs) = rollback_atomic fails original written io path fs"
  by (auto simp: rollback_prog_def rollback_atomic_def exec_writeFileAtomic_prog split: prod.split)

lemma op_prog_refines: "exec (op_prog path op) fs = op_atomic path op fs"
  by (cases op)
    (auto simp: exec_map_prog exec_client_prog exec_manager_prog exec_rollback_prog client_atomic_def manager_atomic_def
      cc_CreateInbound_def cc_UpdateInbound_def cc_DeleteInbound_def cc_CreateUser_def cc_UpdateUser_def cc_DeleteUser_def
      cm_AddUser_def cm_UpdateUser_def cm_DeleteUser_def cm_AddInbound_def cm_UpdateInbound_def cm_DeleteInbound_def
      split: prod.split)

section \<open>The locks\<close>

fun mutexes :: "thread \<Rightarrow> nat set" where
  "mutexes (Acquire m op) = {m}"
| "mutexes (Deferring m op) = {m}"
| "mutexes (Critical m u op p) = {m, u}"
| "mutexes _ = {}"

fun op_of :: "thread \<Rightarrow> operation option" where
  "op_of (Enter op) = Some op"
| "op_of (Finished r) = None"
| "op_of t = inside t"

fun result_of :: "thread \<Rightarrow> op_result option" where
  "result_of (Leave op r) = Some r"
| "result_of (Finished r) = Some r"
| "result_of _ = None"

definition holder :: "thread \<Rightarrow> bool" where
  "holder t \<longleftrightarrow> (\<exists>m. holds_mutex m t)"

lemma holder_simps [simp]:
  "holder (Deferring m op)" "holder (Critical m u op p)" "\<not> holder (Enter op)" "\<not> holder (Lookup op)" "\<not> holder (Insert op)"
  "\<not> holder (Acquire m op)" "\<not> holder (Leave op r)" "\<not> holder (Finished r)"
  by (auto simp: holder_def)

lemma holds_mutexes: "holds_mutex m t \<Longrightarrow> m \<in> mutexes t"
  by (cases t) auto

text \<open>
  Every mutex a goroutine has obtained is the one the registry has for the file, for good, and at most one goroutine holds it.
\<close>

definition locks_inv :: "(string \<Rightarrow> string option) \<Rightarrow> string \<Rightarrow> operation list \<Rightarrow> conc \<Rightarrow> bool" where
  "locks_inv absolute path ops c \<longleftrightarrow>
     registry_ok (cx_registry c) \<and> length (cx_threads c) = length ops \<and>
     (\<forall>i < length ops. op_of (cx_threads c ! i) \<in> {None, Some (ops ! i)}) \<and>
     (\<forall>t \<in> set (cx_threads c). \<forall>m \<in> mutexes t. mget (locks (cx_registry c)) (lock_key absolute path) = Some m) \<and>
     (\<exists>h. \<forall>i < length ops. holder (cx_threads c ! i) \<longrightarrow> i = h)"

lemma locks_inv_start: "registry_ok reg \<Longrightarrow> locks_inv absolute path ops (conc_start ops fs reg)"
  by (auto simp: locks_inv_def conc_start_def)

lemma locks_inv_update:
  assumes "locks_inv absolute path ops c" and "i < length ops"
    and "registry_ok reg" "\<And>k m. mget (locks (cx_registry c)) k = Some m \<Longrightarrow> mget (locks reg) k = Some m"
    and "op_of t \<in> {None, Some (ops ! i)}" "\<And>m. m \<in> mutexes t \<Longrightarrow> mget (locks reg) (lock_key absolute path) = Some m"
    and "holder t \<Longrightarrow> holder (cx_threads c ! i) \<or> list_all (\<lambda>t. \<not> holder t) (cx_threads c)"
  shows "locks_inv absolute path ops (goto i t (c\<lparr>cx_fs := fs', cx_registry := reg\<rparr>))"
proof -
  note inv = assms(1) [unfolded locks_inv_def]
  have "\<forall>s \<in> set ((cx_threads c)[i := t]). \<forall>m \<in> mutexes s. mget (locks reg) (lock_key absolute path) = Some m"
  proof (intro ballI)
    fix s m
    assume "s \<in> set ((cx_threads c)[i := t])" and m: "m \<in> mutexes s"
    then consider "s = t" | "s \<in> set (cx_threads c)"
      using set_update_subset_insert [of "cx_threads c" i t] by auto
    then show "mget (locks reg) (lock_key absolute path) = Some m"
      by cases (use inv m assms(4,6) in auto)
  qed
  moreover have "\<exists>h. \<forall>j < length ops. holder ((cx_threads c)[i := t] ! j) \<longrightarrow> j = h"
  proof -
    obtain h where h: "\<And>j. j < length ops \<Longrightarrow> holder (cx_threads c ! j) \<Longrightarrow> j = h"
      using inv by blast
    have "j = i" if "holder t" "j < length ops" "holder (cx_threads c ! j)" for j
      using assms(7) [OF that(1)] h [OF that(2,3)] h [OF assms(2)] that inv by (auto simp: list_all_length)
    then have "\<forall>j < length ops. holder ((cx_threads c)[i := t] ! j) \<longrightarrow> j = (if holder t then i else h)"
      using inv h assms(2) by (auto simp: nth_list_update split: if_splits)
    then show ?thesis ..
  qed
  moreover have "\<forall>j < length ops. op_of ((cx_threads c)[i := t] ! j) \<in> {None, Some (ops ! j)}"
    using inv assms(2,5) by (auto simp: nth_list_update)
  ultimately show ?thesis
    using assms(3) inv by (simp add: locks_inv_def goto_def)
qed

lemma locks_inv_mutex:
  "locks_inv absolute path ops c \<Longrightarrow> t \<in> set (cx_threads c) \<Longrightarrow> m \<in> mutexes t \<Longrightarrow>
     mget (locks (cx_registry c)) (lock_key absolute path) = Some m"
  by (simp add: locks_inv_def)

lemma no_holder:
  assumes "locks_inv absolute path ops c" and "Acquire m op \<in> set (cx_threads c)" and "\<not> list_ex (holds_mutex m) (cx_threads c)"
  shows "list_all (\<lambda>t. \<not> holder t) (cx_threads c)"
proof -
  have "m' = m" if "t \<in> set (cx_threads c)" "holds_mutex m' t" for t m'
    using locks_inv_mutex [OF assms(1) that(1) holds_mutexes [OF that(2)]] locks_inv_mutex [OF assms(1,2), of m] by simp
  with assms(3) show ?thesis
    by (auto simp: list_all_iff list_ex_iff holder_def)
qed

lemma locks_inv_step:
  assumes "locks_inv absolute path ops c" and "conc_step prog_of absolute path i c = Some c'"
  shows "locks_inv absolute path ops c'"
proof -
  define t where "t = cx_threads c ! i"
  have i: "i < length ops" "i < length (cx_threads c)" and step: "step_thread prog_of absolute path i t c = Some c'"
    using assms by (auto simp: conc_step_def locks_inv_def t_def split: if_splits)
  have t: "t \<in> set (cx_threads c)"
    using i by (simp add: t_def)
  have op: "op_of t \<in> {None, Some (ops ! i)}" and ok: "registry_ok (cx_registry c)"
    and ms: "\<And>m. m \<in> mutexes t \<Longrightarrow> mget (locks (cx_registry c)) (lock_key absolute path) = Some m"
    using assms(1) i t by (auto simp: locks_inv_def t_def)
  note For = registry_ok_For [OF ok, of absolute path] For_held [of absolute path "cx_registry c"] For_keeps [of "cx_registry c"]
  have upd: "locks_inv absolute path ops (goto i t' (c\<lparr>cx_fs := fs', cx_registry := reg\<rparr>))"
    if "registry_ok reg" "\<And>k m. mget (locks (cx_registry c)) k = Some m \<Longrightarrow> mget (locks reg) k = Some m"
      "op_of t' \<in> {None, Some (ops ! i)}" "\<And>m. m \<in> mutexes t' \<Longrightarrow> mget (locks reg) (lock_key absolute path) = Some m"
      "holder t' \<Longrightarrow> holder t \<or> list_all (\<lambda>t. \<not> holder t) (cx_threads c)" for t' fs' reg
    using locks_inv_update [OF assms(1) i(1) that(1,2,3,4)] that(5) by (simp add: t_def)
  have same: "c = c\<lparr>cx_fs := cx_fs c, cx_registry := cx_registry c\<rparr>"
    by simp
  show ?thesis
  proof (cases t)
    case (Enter op)
    with step op ok upd [of "cx_registry c" "Lookup op" "cx_fs c"] show ?thesis
      by (auto split: if_splits)
  next
    case (Lookup op)
    with step \<open>op_of t \<in> _\<close> ok upd [of "cx_registry c" "Insert op" "cx_fs c"] upd [of "cx_registry c" "Acquire _ op" "cx_fs c"]
    show ?thesis
      by (auto split: option.splits)
  next
    case (Insert op)
    with step \<open>op_of t \<in> _\<close> For upd [of "fst (For absolute path (cx_registry c))" "Acquire (snd (For absolute path (cx_registry c))) op" "cx_fs c"]
    show ?thesis
      by (auto split: prod.splits)
  next
    case (Acquire m op)
    with step t no_holder [OF assms(1), of m op] have "list_all (\<lambda>t. \<not> holder t) (cx_threads c)"
      by (auto split: if_splits)
    with Acquire step \<open>op_of t \<in> _\<close> ok ms upd [of "cx_registry c" "Deferring m op" "cx_fs c"]
      upd [of "cx_registry c" "Critical m m op (prog_of op)" "cx_fs c"] show ?thesis
      by (auto split: if_splits)
  next
    case (Deferring m op)
    with step \<open>op_of t \<in> _\<close> ms For
      upd [of "fst (For absolute path (cx_registry c))" "Critical m (snd (For absolute path (cx_registry c))) op (prog_of op)" "cx_fs c"]
    show ?thesis
      by (auto split: prod.splits)
  next
    case (Critical m u op p)
    show ?thesis
    proof (cases "\<exists>r. p = Return r")
      case True
      with Critical step \<open>op_of t \<in> _\<close> ok upd [of "cx_registry c" "Leave op _" "cx_fs c"] show ?thesis
        by (auto split: if_splits)
    next
      case False
      with Critical step have "c' = goto i (Critical m u op (fst (syscall p (cx_fs c)))) (c\<lparr>cx_fs := snd (syscall p (cx_fs c))\<rparr>)"
        by (cases p) auto
      with Critical \<open>op_of t \<in> _\<close> ok ms
        upd [of "cx_registry c" "Critical m u op (fst (syscall p (cx_fs c)))" "snd (syscall p (cx_fs c))"] show ?thesis
        by auto
    qed
  next
    case (Leave op r)
    with step \<open>op_of t \<in> _\<close> ok upd [of "cx_registry c" "Finished r" "cx_fs c"] show ?thesis
      by auto
  qed (use step in simp)
qed

section \<open>Progress and termination\<close>

lemma enabled_if:
  assumes "i < length (cx_threads c)" and "step_thread prog_of absolute path i (cx_threads c ! i) c \<noteq> None"
  shows "\<exists>i c'. conc_step prog_of absolute path i c = Some c'"
  using assms by (intro exI [of _ i]) (auto simp: conc_step_def)

text \<open>
  There is no deadlock: a goroutine that holds the mutex can go on; without one the mutex can be taken; and when no goroutine
  is past the lock of its component, each can enter.
\<close>

lemma no_deadlock:
  assumes "locks_inv absolute path ops c" and "t \<in> set (cx_threads c)" and "\<forall>r. t \<noteq> Finished r"
  shows "\<exists>i c'. conc_step prog_of absolute path i c = Some c'"
proof -
  let ?ts = "cx_threads c"
  have blocked: "\<exists>op. s = Enter op \<or> (\<exists>m. s = Acquire m op \<and> list_ex (holds_mutex m) ?ts) \<or> (\<exists>r. s = Finished r)"
    if stuck: "\<And>i c'. conc_step prog_of absolute path i c \<noteq> Some c'" and s: "s \<in> set ?ts" for s
  proof -
    obtain i where i: "i < length ?ts" "?ts ! i = s"
      using s by (auto simp: in_set_conv_nth)
    have none: "step_thread prog_of absolute path i s c = None"
      using enabled_if [OF i(1)] i(2) stuck by metis
    have eq: "u = m" if "s = Critical m u op p" for m u op p
      using locks_inv_mutex [OF assms(1) s, of m] locks_inv_mutex [OF assms(1) s, of u] that by simp
    show ?thesis
    proof (cases s)
      case (Critical m u op p)
      with none eq show ?thesis
        by (cases p) auto
    qed (use none in \<open>auto split: prod.splits if_splits\<close>)
  qed
  show ?thesis
  proof (rule ccontr)
    assume "\<not> ?thesis"
    then have stuck: "\<And>i c'. conc_step prog_of absolute path i c \<noteq> Some c'"
      by blast
    have "\<not> list_ex (holds_mutex m) ?ts" for m
      using blocked [OF stuck] by (fastforce simp: list_ex_iff)
    then have out: "\<exists>op. s = Enter op \<or> (\<exists>r. s = Finished r)" if "s \<in> set ?ts" for s
      using blocked [OF stuck that] by blast
    then obtain op where "t = Enter op"
      using assms(2,3) by blast
    moreover have "can_enter op ?ts"
      using out by (fastforce simp: can_enter_def list_all_iff)
    ultimately show False
      using assms(2) stuck enabled_if [of _ c prog_of absolute path] by (fastforce simp: in_set_conv_nth)
  qed
qed

text \<open>Programs get smaller with every call, goroutines with every step.\<close>

inductive_set rest_of :: "('r prog \<times> 'r prog) set" where
  "(k x, ReadFile path k) \<in> rest_of"
| "(p, WriteFile path data p) \<in> rest_of"
| "(p, RemoveFile path p) \<in> rest_of"
| "(p, Rename old new p) \<in> rest_of"

inductive_cases rest_ofE: "(q, p) \<in> rest_of"

lemma wf_rest_of: "wf rest_of"
proof (rule wfUNIVI)
  fix P :: "'r prog \<Rightarrow> bool" and p
  assume "\<forall>p. (\<forall>q. (q, p) \<in> rest_of \<longrightarrow> P q) \<longrightarrow> P p"
  then have step: "P p" if "\<And>q. (q, p) \<in> rest_of \<Longrightarrow> P q" for p
    using that by blast
  show "P p"
    by (induction p; rule step) (auto elim: rest_ofE)
qed

fun rank :: "thread \<Rightarrow> nat" where
  "rank (Enter op) = 7"
| "rank (Lookup op) = 6"
| "rank (Insert op) = 5"
| "rank (Acquire m op) = 4"
| "rank (Deferring m op) = 3"
| "rank (Critical m u op p) = 2"
| "rank (Leave op r) = 1"
| "rank (Finished r) = 0"

fun rest_prog :: "thread \<Rightarrow> op_result prog" where
  "rest_prog (Critical m u op p) = p"
| "rest_prog t = Return (ResManager None)"

definition thread_less :: "(thread \<times> thread) set" where
  "thread_less = inv_image (less_than <*lex*> rest_of) (\<lambda>t. (rank t, rest_prog t))"

lemma wf_thread_less: "wf thread_less"
  by (simp add: thread_less_def wf_inv_image wf_lex_prod wf_rest_of)

lemma thread_less_rank: "rank t' < rank t \<Longrightarrow> (t', t) \<in> thread_less"
  by (simp add: thread_less_def)

lemma thread_less_call: "(p', p) \<in> rest_of \<Longrightarrow> (Critical m u op p', Critical m u op p) \<in> thread_less"
  by (simp add: thread_less_def)

lemma rest_of_syscall: "\<forall>r. p \<noteq> Return r \<Longrightarrow> (fst (syscall p fs), p) \<in> rest_of"
  by (cases p) (auto intro: rest_of.intros)

text \<open>A step in the critical section is a system call or the end of it.\<close>

lemma step_critical:
  "step_thread prog_of absolute path i (Critical m u op p) c = Some c' \<Longrightarrow>
     (\<exists>r. p = Return r \<and> u = m \<and> c' = goto i (Leave op r) c) \<or>
     (\<forall>r. p \<noteq> Return r) \<and> c' = goto i (Critical m u op (fst (syscall p (cx_fs c)))) (c\<lparr>cx_fs := snd (syscall p (cx_fs c))\<rparr>)"
  by (cases p) (auto split: if_splits)

lemma exec_syscall: "exec (fst (syscall p fs)) (snd (syscall p fs)) = exec p fs"
  by (cases p) auto

lemma step_thread_decreases:
  assumes "step_thread prog_of absolute path i t c = Some c'"
  shows "\<exists>t'. cx_threads c' = (cx_threads c)[i := t'] \<and> (t', t) \<in> thread_less"
proof (cases t)
  case (Critical m u op p)
  from step_critical [OF assms [unfolded Critical]] show ?thesis
  proof (elim disjE exE conjE)
    fix r
    assume "c' = goto i (Leave op r) c"
    then show ?thesis
      by (auto simp: goto_def Critical intro!: exI [of _ "Leave op r"] thread_less_rank)
  next
    assume "\<forall>r. p \<noteq> Return r" "c' = goto i (Critical m u op (fst (syscall p (cx_fs c)))) (c\<lparr>cx_fs := snd (syscall p (cx_fs c))\<rparr>)"
    then show ?thesis
      by (auto simp: goto_def Critical intro!: exI [of _ "Critical m u op (fst (syscall p (cx_fs c)))"] thread_less_call rest_of_syscall)
  qed
qed (use assms in \<open>auto simp: goto_def split: if_splits prod.splits option.splits intro!: exI conjI thread_less_rank\<close>)

lemma conc_terminates: "wf {(c', c). \<exists>i. conc_step prog_of absolute path i c = Some c'}"
proof (rule wf_subset)
  show "wf (inv_image (listrel1 thread_less) cx_threads)"
    by (simp add: wf_inv_image wf_listrel1_iff wf_thread_less)
  show "{(c', c). \<exists>i. conc_step prog_of absolute path i c = Some c'} \<subseteq> inv_image (listrel1 thread_less) cx_threads"
  proof clarsimp
    fix c' c i
    assume "conc_step prog_of absolute path i c = Some c'"
    then obtain t where i: "i < length (cx_threads c)" "cx_threads c' = (cx_threads c)[i := t]" "(t, cx_threads c ! i) \<in> thread_less"
      by (auto simp: conc_step_def split: if_splits dest!: step_thread_decreases)
    then show "(cx_threads c', cx_threads c) \<in> listrel1 thread_less"
      by (auto simp: listrel1_iff_update intro!: exI [of _ "cx_threads c ! i"] exI [of _ i])
  qed
qed

section \<open>Serialisation\<close>

text \<open>The operations one after the other, each as a function.\<close>

fun serial :: "(operation \<Rightarrow> fs \<Rightarrow> op_result \<times> fs) \<Rightarrow> operation list \<Rightarrow> nat list \<Rightarrow> fs \<Rightarrow> (nat \<times> op_result) list \<times> fs" where
  "serial atomic ops [] fs = ([], fs)"
| "serial atomic ops (i # is) fs =
     (case atomic (ops ! i) fs of (r, fs') \<Rightarrow> (case serial atomic ops is fs' of (rs, fs'') \<Rightarrow> ((i, r) # rs, fs'')))"

lemma serial_append:
  "serial atomic ops (is @ [i]) fs =
     (case serial atomic ops is fs of (rs, fs') \<Rightarrow> (case atomic (ops ! i) fs' of (r, fs'') \<Rightarrow> (rs @ [(i, r)], fs'')))"
  by (induction "is" arbitrary: fs) (auto split: prod.split)

fun in_critical :: "thread \<Rightarrow> bool" where
  "in_critical (Critical m u op p) = True"
| "in_critical _ = False"

lemma in_critical_holder: "in_critical t \<Longrightarrow> holder t"
  by (cases t) auto

text \<open>
  The contract between the operations and the goroutines: executed without interference, the calls of an operation have its
  effect.  The rest follows from the locks.
\<close>

locale refined_operations =
  fixes prog_of :: "operation \<Rightarrow> op_result prog"
    and atomic :: "operation \<Rightarrow> fs \<Rightarrow> op_result \<times> fs"
  assumes refines: "exec (prog_of op) fs = atomic op fs"
begin

text \<open>
  The operations that are done ran in some order; when a goroutine is in its critical section, the rest of its program will
  have the effect of its operation after these.
\<close>

definition serial_inv :: "operation list \<Rightarrow> fs \<Rightarrow> nat list \<Rightarrow> conc \<Rightarrow> bool" where
  "serial_inv ops fs order c \<longleftrightarrow>
     length (cx_threads c) = length ops \<and> distinct order \<and>
     set order = {i. i < length ops \<and> result_of (cx_threads c ! i) \<noteq> None} \<and>
     (\<forall>i < length ops. \<forall>r. result_of (cx_threads c ! i) = Some r \<longrightarrow> (i, r) \<in> set (fst (serial atomic ops order fs))) \<and>
     (\<forall>i < length ops. in_critical (cx_threads c ! i) \<longrightarrow>
        exec (rest_prog (cx_threads c ! i)) (cx_fs c) = atomic (ops ! i) (snd (serial atomic ops order fs))) \<and>
     ((\<forall>i < length ops. \<not> in_critical (cx_threads c ! i)) \<longrightarrow> cx_fs c = snd (serial atomic ops order fs))"

lemma serial_inv_start: "serial_inv ops fs [] (conc_start ops fs reg)"
  by (simp add: serial_inv_def conc_start_def)

lemma serial_inv_critical:
  "serial_inv ops fs order c \<Longrightarrow> i < length ops \<Longrightarrow> in_critical (cx_threads c ! i) \<Longrightarrow>
     exec (rest_prog (cx_threads c ! i)) (cx_fs c) = atomic (ops ! i) (snd (serial atomic ops order fs))"
  by (simp add: serial_inv_def)

lemma serial_inv_quiet:
  assumes "serial_inv ops fs order c" and "i < length ops" and "\<not> in_critical (cx_threads c ! i)" and "\<not> in_critical t"
    and "result_of t = result_of (cx_threads c ! i)"
  shows "serial_inv ops fs order (goto i t (c\<lparr>cx_registry := reg\<rparr>))"
proof -
  have "result_of ((cx_threads c)[i := t] ! j) = result_of (cx_threads c ! j)"
    "in_critical ((cx_threads c)[i := t] ! j) \<longleftrightarrow> in_critical (cx_threads c ! j)"
    "in_critical (cx_threads c ! j) \<Longrightarrow> (cx_threads c)[i := t] ! j = cx_threads c ! j" if "j < length ops" for j
    using assms that by (auto simp: serial_inv_def nth_list_update)
  then show ?thesis
    using assms(1) by (auto simp: serial_inv_def goto_def)
qed

lemma serial_inv_begin:
  assumes "serial_inv ops fs order c" and "i < length ops" and "\<forall>j < length ops. \<not> in_critical (cx_threads c ! j)"
    and "result_of (cx_threads c ! i) = None"
  shows "serial_inv ops fs order (goto i (Critical m u op (prog_of (ops ! i))) (c\<lparr>cx_registry := reg\<rparr>))"
proof -
  let ?ts = "(cx_threads c)[i := Critical m u op (prog_of (ops ! i))]"
  have "result_of (?ts ! j) = result_of (cx_threads c ! j)" "in_critical (?ts ! j) \<longleftrightarrow> j = i" if "j < length ops" for j
    using assms that by (auto simp: serial_inv_def nth_list_update)
  moreover have "exec (rest_prog (?ts ! i)) (cx_fs c) = atomic (ops ! i) (snd (serial atomic ops order fs))"
    using assms by (simp add: serial_inv_def refines)
  ultimately show ?thesis
    using assms(1,2) by (auto simp: serial_inv_def goto_def)
qed

lemma serial_inv_call:
  assumes "serial_inv ops fs order c" and "i < length ops" and "\<forall>j < length ops. in_critical (cx_threads c ! j) \<longrightarrow> j = i"
    and "cx_threads c ! i = Critical m u op p" and "exec p' fs' = exec p (cx_fs c)"
  shows "serial_inv ops fs order (goto i (Critical m u op p') (c\<lparr>cx_fs := fs'\<rparr>))"
proof -
  let ?ts = "(cx_threads c)[i := Critical m u op p']"
  have len: "length (cx_threads c) = length ops"
    using assms(1) by (simp add: serial_inv_def)
  have others: "\<not> in_critical (cx_threads c ! j)" if "j < length ops" "j \<noteq> i" for j
    using assms(3) that by blast
  have "result_of (?ts ! j) = result_of (cx_threads c ! j)" "in_critical (?ts ! j) \<longleftrightarrow> j = i" if "j < length ops" for j
    using assms(2,4) that len others by (cases "j = i"; simp)+
  moreover have "exec (rest_prog (cx_threads c ! i)) (cx_fs c) = atomic (ops ! i) (snd (serial atomic ops order fs))"
    using serial_inv_critical [OF assms(1,2)] assms(4) by simp
  then have "exec (rest_prog (?ts ! i)) fs' = atomic (ops ! i) (snd (serial atomic ops order fs))"
    using assms(2,4,5) len by simp
  ultimately show ?thesis
    using assms(1,2) unfolding serial_inv_def goto_def by auto
qed

lemma serial_inv_return:
  assumes "serial_inv ops fs order c" and "i < length ops" and "\<forall>j < length ops. in_critical (cx_threads c ! j) \<longrightarrow> j = i"
    and "cx_threads c ! i = Critical m u op (Return r)"
  shows "serial_inv ops fs (order @ [i]) (goto i (Leave op r) c)"
proof -
  let ?ts = "(cx_threads c)[i := Leave op r]"
  obtain rs fs' where s: "serial atomic ops order fs = (rs, fs')"
    by (rule that [OF surjective_pairing])
  have len: "length (cx_threads c) = length ops" and i: "i \<notin> set order"
    using assms(1,4) by (auto simp: serial_inv_def)
  have "exec (rest_prog (cx_threads c ! i)) (cx_fs c) = atomic (ops ! i) (snd (serial atomic ops order fs))"
    using serial_inv_critical [OF assms(1,2)] assms(4) by simp
  then have a: "serial atomic ops (order @ [i]) fs = (rs @ [(i, r)], cx_fs c)"
    using assms(4) s by (auto simp: serial_append split: prod.split)
  have others: "\<not> in_critical (cx_threads c ! j)" if "j < length ops" "j \<noteq> i" for j
    using assms(3) that by blast
  have res: "result_of (?ts ! j) = (if j = i then Some r else result_of (cx_threads c ! j))" "\<not> in_critical (?ts ! j)" if "j < length ops" for j
    using assms(2,4) that len others by (cases "j = i"; simp)+
  have "set (order @ [i]) = {j. j < length ops \<and> result_of (?ts ! j) \<noteq> None}"
    using assms(1,2) res(1) by (auto simp: serial_inv_def split: if_splits)
  moreover have "\<forall>j < length ops. \<forall>r'. result_of (?ts ! j) = Some r' \<longrightarrow> (j, r') \<in> set (rs @ [(i, r)])"
    using assms(1) res(1) s by (auto simp: serial_inv_def split: if_splits)
  ultimately show ?thesis
    using assms(1) i len res(2) unfolding serial_inv_def goto_def a by simp
qed

lemma serial_inv_step:
  assumes "locks_inv absolute path ops c" and "serial_inv ops fs order c" and "conc_step prog_of absolute path i c = Some c'"
  shows "\<exists>order'. serial_inv ops fs order' c'"
proof -
  define t where "t = cx_threads c ! i"
  have i: "i < length ops" "i < length (cx_threads c)" and step: "step_thread prog_of absolute path i t c = Some c'"
    using assms by (auto simp: conc_step_def locks_inv_def t_def split: if_splits)
  have op: "op_of t \<in> {None, Some (ops ! i)}"
    using assms(1) i by (simp add: locks_inv_def t_def)
  have only: "\<forall>j < length ops. in_critical (cx_threads c ! j) \<longrightarrow> j = i" if "holder t"
    using assms(1) i that in_critical_holder unfolding locks_inv_def t_def by blast
  have none: "\<forall>j < length ops. \<not> in_critical (cx_threads c ! j)" if "list_all (\<lambda>t. \<not> holder t) (cx_threads c)"
    using assms(1) that in_critical_holder by (auto simp: locks_inv_def list_all_length)
  note quiet = serial_inv_quiet [OF assms(2) i(1), folded t_def]
    and enter = serial_inv_begin [OF assms(2) i(1), folded t_def]
  show ?thesis
  proof (cases t)
    case (Enter op)
    with step quiet [of "Lookup op" "cx_registry c"] show ?thesis
      by (auto split: if_splits)
  next
    case (Lookup op)
    with step quiet [of "Insert op" "cx_registry c"] quiet [of "Acquire _ op" "cx_registry c"] show ?thesis
      by (auto split: option.splits)
  next
    case (Insert op)
    with step quiet [of "Acquire _ op"] show ?thesis
      by (auto split: prod.splits)
  next
    case (Acquire m op')
    then have "list_all (\<lambda>t. \<not> holder t) (cx_threads c)"
      using step no_holder [OF assms(1), of m op'] i(2) nth_mem [OF i(2)] by (auto simp: t_def split: if_splits)
    with Acquire step op quiet [of "Deferring m op'" "cx_registry c"] enter [OF none, of m m op' "cx_registry c"] show ?thesis
      by (auto split: if_splits)
  next
    case (Deferring m op')
    have "\<forall>j < length ops. \<not> in_critical (cx_threads c ! j)"
      using only Deferring by (auto simp: t_def)
    with Deferring step op enter [of m _ op'] show ?thesis
      by (auto split: prod.splits)
  next
    case (Critical m u op' p)
    show ?thesis
    proof (cases "\<exists>r. p = Return r")
      case True
      with Critical step serial_inv_return [OF assms(2) i(1) only, of m u op'] show ?thesis
        by (auto simp: t_def split: if_splits)
    next
      case False
      with Critical step have "c' = goto i (Critical m u op' (fst (syscall p (cx_fs c)))) (c\<lparr>cx_fs := snd (syscall p (cx_fs c))\<rparr>)"
        by (cases p) auto
      moreover have "exec (fst (syscall p (cx_fs c))) (snd (syscall p (cx_fs c))) = exec p (cx_fs c)"
        by (cases p) auto
      ultimately show ?thesis
        using Critical serial_inv_call [OF assms(2) i(1) only, of m u op' p] by (auto simp: t_def)
    qed
  next
    case (Leave op r)
    with step quiet [of "Finished r" "cx_registry c"] show ?thesis
      by auto
  qed (use step in simp)
qed

lemma run_serialises:
  assumes "locks_inv absolute path ops c" and "serial_inv ops fs order c" and "run_schedule prog_of absolute path sched c = Some c'"
  shows "locks_inv absolute path ops c' \<and> (\<exists>order'. serial_inv ops fs order' c')"
  using assms
proof (induction sched arbitrary: c order)
  case (Cons i sched)
  then obtain c1 where c1: "conc_step prog_of absolute path i c = Some c1" "run_schedule prog_of absolute path sched c1 = Some c'"
    by (auto simp: bind_eq_Some_conv)
  then show ?case
    using Cons.IH Cons.prems locks_inv_step serial_inv_step by metis
qed auto

end

interpretation config_ops: refined_operations "op_prog path" "op_atomic path" for path
  by unfold_locales (rule op_prog_refines)

lemma run_schedule_append:
  "run_schedule prog_of absolute path (is @ [i]) c =
     Option.bind (run_schedule prog_of absolute path is c) (conc_step prog_of absolute path i)"
  by (induction "is" arbitrary: c) (auto split: Option.bind_split)

lemma no_infinite_schedule: "\<exists>n. run_schedule prog_of absolute path (map next [0..<n]) c = None"
proof (rule ccontr)
  assume "\<not> ?thesis"
  then have some: "run_schedule prog_of absolute path (map next [0..<n]) c \<noteq> None" for n
    by simp
  define state where "state n = the (run_schedule prog_of absolute path (map next [0..<n]) c)" for n
  have run: "run_schedule prog_of absolute path (map next [0..<n]) c = Some (state n)" for n
    using some [of n] by (simp add: state_def)
  have "conc_step prog_of absolute path (next n) (state n) = Some (state (Suc n))" for n
    using run [of n] run [of "Suc n"] by (simp add: run_schedule_append)
  then have "\<forall>n. (state (Suc n), state n) \<in> {(c', c). \<exists>i. conc_step prog_of absolute path i c = Some c'}"
    by blast
  with conc_terminates [of prog_of absolute path, unfolded wf_iff_no_infinite_down_chain] show False
    by blast
qed

text \<open>
  C21.  No update of the configuration is lost, and nobody waits for ever.  Take any number of goroutines, each with one
  operation of \<open>ConfigClient\<close> or \<open>ConfigManager\<close> or a rollback on the same file, and any interleaving of their steps, down to
  single system calls and the double-checked lookup of the lock.  Then the operations that are done have the results they would
  have had one after the other in some order, and whenever no goroutine is in its critical section the directory is the one
  these operations leave in that order.  Some goroutine can go on until all are done, and no schedule is infinite.
\<close>

theorem config_updates_serialise:
  assumes "registry_ok reg" and "run_schedule (op_prog path) absolute path sched (conc_start ops fs reg) = Some c"
  shows "(\<exists>order. distinct order \<and> set order = {i. i < length ops \<and> result_of (cx_threads c ! i) \<noteq> None} \<and>
      (\<forall>i < length ops. \<forall>r. result_of (cx_threads c ! i) = Some r \<longrightarrow>
         (i, r) \<in> set (fst (serial (op_atomic path) ops order fs))) \<and>
      ((\<forall>i < length ops. \<not> in_critical (cx_threads c ! i)) \<longrightarrow> cx_fs c = snd (serial (op_atomic path) ops order fs))) \<and>
    ((\<forall>t \<in> set (cx_threads c). \<exists>r. t = Finished r) \<or> (\<exists>i c'. conc_step (op_prog path) absolute path i c = Some c')) \<and>
    (\<exists>n. run_schedule (op_prog path) absolute path (map next [0..<n]) (conc_start ops fs reg) = None)"
proof (intro conjI)
  have inv: "locks_inv absolute path ops c" "\<exists>order. config_ops.serial_inv path ops fs order c"
    using config_ops.run_serialises [OF locks_inv_start [OF assms(1)] config_ops.serial_inv_start assms(2)] by blast+
  then show "\<exists>order. distinct order \<and> set order = {i. i < length ops \<and> result_of (cx_threads c ! i) \<noteq> None} \<and>
      (\<forall>i < length ops. \<forall>r. result_of (cx_threads c ! i) = Some r \<longrightarrow>
         (i, r) \<in> set (fst (serial (op_atomic path) ops order fs))) \<and>
      ((\<forall>i < length ops. \<not> in_critical (cx_threads c ! i)) \<longrightarrow> cx_fs c = snd (serial (op_atomic path) ops order fs))"
    unfolding config_ops.serial_inv_def by blast
  show "(\<forall>t \<in> set (cx_threads c). \<exists>r. t = Finished r) \<or> (\<exists>i c'. conc_step (op_prog path) absolute path i c = Some c')"
    using no_deadlock [OF inv(1)] by blast
qed (rule no_infinite_schedule)


text \<open>Two goroutines that create inbounds at the same time, one through the client and one through the manager.\<close>

definition race_a :: Inbound where
  "race_a = \<lparr>Tag = ''a'', Type = ''vless'', Listen = [], Port = 0, Options = []\<rparr>"

definition race_b :: Inbound where
  "race_b = \<lparr>Tag = ''b'', Type = ''vless'', Listen = [], Port = 0, Options = []\<rparr>"

definition race_ops :: "operation list" where
  "race_ops = [OpCreateInbound race_a demo_io, OpManagerAddInbound race_b \<lparr>mio_torn = [emptyFile], mio_outcome = WriteOk\<rparr>]"

definition race_fs :: fs where
  "race_fs = [(''c'', Doc (JObj [(''inbounds'', JArr [])]))]"

definition race_schedule :: "nat list" where
  "race_schedule = [0, 1, 0, 1, 1, 0] @ replicate 7 1 @ replicate 10 0"

definition race_end :: jobj where
  "race_end = [(''inbounds'', JArr [JObj [(''tag'', JStr ''b''), (''type'', JStr ''vless'')],
     JObj [(''type'', JStr ''vless''), (''tag'', JStr ''a'')]])]"

definition race_middle :: content where
  "race_middle = MarshalIndent (JObj (set_inbounds [JObj (modelToMap (inbound_fields race_b))] [(''inbounds'', JArr [])]))"

lemma race_edits:
  "bindE (loadConfigMap (Some (Doc (JObj [(''inbounds'', JArr [])])))) (edit_AddInbound race_b) =
     Inr (set_inbounds [JObj (modelToMap (inbound_fields race_b))] [(''inbounds'', JArr [])])"
  "bindE (loadRootConfig (Some race_middle)) (cc_edit_CreateInbound race_a) = Inr race_end"
  by code_simp+

lemma race_tags: "cc_GetInbounds (Some (MarshalIndent (JObj (syncStatsUsers race_end)))) = Inr [race_b, race_a]"
  by code_simp

lemma race_run:
  "\<exists>c r r'. run_schedule (op_prog ''c'') Some ''c'' race_schedule (conc_start race_ops race_fs \<lparr>locks = [], fresh = 0\<rparr>) = Some c \<and>
     cx_threads c = [Finished r, Finished r'] \<and> cc_GetInbounds (mget (cx_fs c) ''c'') = Inr [race_b, race_a]"
  by (simp add: race_schedule_def conc_start_def conc_step_def race_ops_def race_fs_def goto_def can_enter_def excludes_def For_def
     lock_key_def deferred_unlock_def manager_prog_def client_prog_def numeral_eq_Suc race_edits saveConfigMap_prog_def
     write_contents_def saveAndReload_prog_def demo_io_def backup_prog_def writeFileAtomic_prog_def Let_def race_tags
     flip: race_middle_def)

theorem config_updates_serialise_witness:
  "\<exists>c r r' order. run_schedule (op_prog ''c'') Some ''c'' race_schedule (conc_start race_ops race_fs \<lparr>locks = [], fresh = 0\<rparr>) = Some c \<and>
     cx_threads c = [Finished r, Finished r'] \<and> cc_GetInbounds (mget (cx_fs c) ''c'') = Inr [race_b, race_a] \<and>
     set order = {0, 1} \<and> {(0, r), (1, r')} \<subseteq> set (fst (serial (op_atomic ''c'') race_ops order race_fs)) \<and>
     cx_fs c = snd (serial (op_atomic ''c'') race_ops order race_fs)"
proof -
  have reg: "registry_ok \<lparr>locks = [], fresh = 0\<rparr>"
    by (simp add: registry_ok_def)
  obtain c r r' where run: "run_schedule (op_prog ''c'') Some ''c'' race_schedule (conc_start race_ops race_fs \<lparr>locks = [], fresh = 0\<rparr>) = Some c"
    and c: "cx_threads c = [Finished r, Finished r']" "cc_GetInbounds (mget (cx_fs c) ''c'') = Inr [race_b, race_a]"
    using race_run by blast
  have n: "length race_ops = 2"
    by (simp add: race_ops_def)
  obtain order where order: "set order = {i. i < 2 \<and> result_of (cx_threads c ! i) \<noteq> None}"
    "\<forall>i < 2. \<forall>r. result_of (cx_threads c ! i) = Some r \<longrightarrow> (i, r) \<in> set (fst (serial (op_atomic ''c'') race_ops order race_fs))"
    "(\<forall>i < 2. \<not> in_critical (cx_threads c ! i)) \<longrightarrow> cx_fs c = snd (serial (op_atomic ''c'') race_ops order race_fs)"
    using conjunct1 [OF config_updates_serialise [OF reg run]] unfolding n by blast
  have "set order = {0, 1}" "cx_fs c = snd (serial (op_atomic ''c'') race_ops order race_fs)"
    "{(0, r), (1, r')} \<subseteq> set (fst (serial (op_atomic ''c'') race_ops order race_fs))"
    using order c(1) by (auto simp: less_2_cases_iff)
  with run c show ?thesis
    by blast
qed


text \<open>
  The lock does not protect readers that do not take it.  \<open>ConfigManager\<close> truncates the file and then writes it: in between the file is
  empty, which is not JSON.  \<open>GET /core/config\<close> and sing-box itself read the file without the lock.
\<close>

lemma torn_file_visible:
  "\<exists>n c. run_schedule (op_prog ''c'') Some ''c'' (replicate n 1) (conc_start race_ops race_fs \<lparr>locks = [], fresh = 0\<rparr>) = Some c \<and>
     mget (cx_fs c) ''c'' = Some emptyFile \<and> Unmarshal emptyFile = None"
  by (rule exI [of _ 7])
    (simp add: conc_start_def conc_step_def race_ops_def race_fs_def goto_def can_enter_def excludes_def For_def
     lock_key_def deferred_unlock_def manager_prog_def numeral_eq_Suc race_edits saveConfigMap_prog_def write_contents_def Let_def emptyFile_def)
end
