(* ===== verification/Diff.thy ===== *)
theory Diff
  imports Models "HOL-Library.Multiset"
begin

text \<open>
  Comparing desired and current state, \<open>internal/sync/diff.go\<close>.  Go iterates over a map in an
  unspecified order: the orders of the two loops of a diff are the arguments \<open>r1\<close> and \<open>r2\<close>,
  functions that permute the entries.  \<open>DiffInbounds\<close> and \<open>DiffUsers\<close> are the same code over
  two types; both are instances of \<open>diff_by\<close>.
\<close>

section \<open>Model\<close>

text \<open>The default branch compares the dynamic types too: an \<open>int\<close> never equals a \<open>float64\<close>.\<close>

lemma size_list_elem: "x \<in> set xs \<Longrightarrow> f x < Suc (size_list f xs)"
  by (induction xs) auto

lemma size_obj_elem: "(k, v) \<in> set m \<Longrightarrow> size v < Suc (size_list (size_prod (\<lambda>x. 0) size) m)"
  by (induction m) auto

function interfaceEqual :: "jv \<Rightarrow> jv \<Rightarrow> bool" where
  "interfaceEqual (JObj a) b =
     (case b of
        JObj bMap \<Rightarrow> length a = length bMap \<and>
          list_all (\<lambda>(k, v). case mget bMap k of None \<Rightarrow> False | Some bv \<Rightarrow> interfaceEqual v bv) a
      | _ \<Rightarrow> False)"
| "interfaceEqual (JArr a) b =
     (case b of
        JArr bSlice \<Rightarrow> length a = length bSlice \<and> list_all (\<lambda>(v, bv). interfaceEqual v bv) (zip a bSlice)
      | _ \<Rightarrow> False)"
| "interfaceEqual JNull b = (b = JNull)"
| "interfaceEqual (JBool x) b = (b = JBool x)"
| "interfaceEqual (JInt x) b = (b = JInt x)"
| "interfaceEqual (JFloat x) b = (b = JFloat x)"
| "interfaceEqual (JStr x) b = (b = JStr x)"
  by pat_completeness auto
termination
  by (relation "measure (\<lambda>(a, b). size a)") (auto dest: set_zip_leftD size_list_elem size_obj_elem)

definition inboundsDiffer :: "Inbound \<Rightarrow> Inbound \<Rightarrow> bool" where
  "inboundsDiffer a b \<longleftrightarrow>
     (if Tag a \<noteq> Tag b \<or> Type a \<noteq> Type b \<or> Listen a \<noteq> Listen b \<or> Port a \<noteq> Port b then True
      else if length (Options a) \<noteq> length (Options b) then True
      else list_ex (\<lambda>(k, v). case mget (Options b) k of None \<Rightarrow> True | Some bv \<Rightarrow> \<not> interfaceEqual v bv) (Options a))"

definition usersDiffer :: "User \<Rightarrow> User \<Rightarrow> bool" where
  "usersDiffer a b \<longleftrightarrow>
     (if SubID a \<noteq> SubID b \<or> UUID a \<noteq> UUID b \<or> InboundTag a \<noteq> InboundTag b \<or> Email a \<noteq> Email b \<or>
         Enabled a \<noteq> Enabled b \<or> Flow a \<noteq> Flow b \<or> LimitIP a \<noteq> LimitIP b \<or>
         UploadLimit a \<noteq> UploadLimit b \<or> DownloadLimit a \<noteq> DownloadLimit b then True
      else case (ResetAt a, ResetAt b) of
             (None, None) \<Rightarrow> False
           | (Some s, Some t) \<Rightarrow> fst s \<noteq> fst t
           | _ \<Rightarrow> True)"

datatype ChangeType = ChangeCreate | ChangeUpdate | ChangeDelete

text \<open>\<open>InboundChange\<close> and \<open>UserChange\<close>\<close>

record 'a change =
  ch_Type :: ChangeType
  ch_Item :: 'a
  ch_Previous :: "'a option"

type_synonym InboundChange = "Inbound change"
type_synonym UserChange = "User change"

definition index_by :: "('a \<Rightarrow> string) \<Rightarrow> 'a list \<Rightarrow> (string, 'a) gomap" where
  "index_by key xs = fold (\<lambda>x m. mput (key x) x m) xs []"

type_synonym 'a order = "(string \<times> 'a) list \<Rightarrow> (string \<times> 'a) list"

definition diff_by ::
  "('a \<Rightarrow> string) \<Rightarrow> ('a \<Rightarrow> 'a \<Rightarrow> bool) \<Rightarrow> 'a order \<Rightarrow> 'a order \<Rightarrow> 'a list \<Rightarrow> 'a list \<Rightarrow> 'a change list" where
  "diff_by key differ r1 r2 desired current =
     (let desiredMap = index_by key desired;
          currentMap = index_by key current
      in concat (map (\<lambda>(k, d).
           case mget currentMap k of
             Some c \<Rightarrow> if differ d c then [\<lparr>ch_Type = ChangeUpdate, ch_Item = d, ch_Previous = Some c\<rparr>] else []
           | None \<Rightarrow> [\<lparr>ch_Type = ChangeCreate, ch_Item = d, ch_Previous = None\<rparr>]) (r1 desiredMap))
         @ concat (map (\<lambda>(k, c).
             if mget desiredMap k = None
             then [\<lparr>ch_Type = ChangeDelete, ch_Item = c, ch_Previous = Some c\<rparr>] else []) (r2 currentMap)))"

definition DiffInbounds :: "Inbound order \<Rightarrow> Inbound order \<Rightarrow> Inbound list \<Rightarrow> Inbound list \<Rightarrow> InboundChange list" where
  "DiffInbounds r1 r2 desired current = diff_by Tag inboundsDiffer r1 r2 desired current"

definition DiffUsers :: "User order \<Rightarrow> User order \<Rightarrow> User list \<Rightarrow> User list \<Rightarrow> UserChange list" where
  "DiffUsers r1 r2 desired current = diff_by SubID usersDiffer r1 r2 desired current"

definition is_order :: "'a order \<Rightarrow> bool" where
  "is_order r \<longleftrightarrow> (\<forall>m. mset (r m) = mset m)"

section \<open>Equality of values\<close>

text \<open>Two values are the same Go value when they agree up to the order of map entries.\<close>

primrec jsort :: "jv \<Rightarrow> jv" where
  "jsort JNull = JNull"
| "jsort (JBool b) = JBool b"
| "jsort (JInt i) = JInt i"
| "jsort (JFloat q) = JFloat q"
| "jsort (JStr s) = JStr s"
| "jsort (JArr vs) = JArr (map jsort vs)"
| "jsort (JObj m) = JObj (sort_key fst (map (map_prod id jsort) m))"

lemma sort_key_eq_iff:
  assumes "distinct (map fst A)" and "distinct (map fst B)"
  shows "sort_key fst A = sort_key fst B \<longleftrightarrow> map_of A = map_of B"
proof
  assume "sort_key fst A = sort_key fst B"
  with assms show "map_of A = map_of B"
    by (metis map_of_sort_key)
next
  assume "map_of A = map_of B"
  with assms have eq: "set A = set B"
    by (simp add: map_of_inject_set)
  show "sort_key fst A = sort_key fst B"
  proof (rule map_sorted_distinct_set_unique [of fst])
    show "inj_on fst (set (sort_key fst A) \<union> set (sort_key fst B))"
      using assms eq by (simp add: distinct_map)
  qed (use assms eq in simp_all)
qed

lemma object_loop:
  assumes "mwf a" and "mwf b"
  shows "length a = length b \<and>
      list_all (\<lambda>(k, v). case mget b k of None \<Rightarrow> False | Some bv \<Rightarrow> P v bv) a \<longleftrightarrow>
    mkeys a = mkeys b \<and> (\<forall>k v w. mget a k = Some v \<longrightarrow> mget b k = Some w \<longrightarrow> P v w)"
proof -
  have all: "list_all (\<lambda>(k, v). case mget b k of None \<Rightarrow> False | Some bv \<Rightarrow> P v bv) a \<longleftrightarrow>
      (\<forall>k v. mget a k = Some v \<longrightarrow> (\<exists>w. mget b k = Some w \<and> P v w))"
  proof -
    have "(k, v) \<in> set a \<longleftrightarrow> mget a k = Some v" for k v
      using assms(1) by (simp add: mget_def mwf_def)
    moreover have "(case mget b k of None \<Rightarrow> False | Some bv \<Rightarrow> P v bv) \<longleftrightarrow> (\<exists>w. mget b k = Some w \<and> P v w)" for k v
      by (simp split: option.split)
    moreover have "list_all (\<lambda>(k, v). Q k v) a \<longleftrightarrow> (\<forall>k v. (k, v) \<in> set a \<longrightarrow> Q k v)" for Q
      by (auto simp: list_all_iff)
    ultimately show ?thesis
      by (simp only:)
  qed
  show ?thesis
  proof
    assume *: "length a = length b \<and> list_all (\<lambda>(k, v). case mget b k of None \<Rightarrow> False | Some bv \<Rightarrow> P v bv) a"
    with all have "mkeys a \<subseteq> mkeys b"
      by (fastforce simp: mkeys_mget)
    moreover have "card (mkeys a) = card (mkeys b)"
      using * assms by (simp add: card_mkeys)
    ultimately have "mkeys a = mkeys b"
      by (simp add: card_subset_eq)
    with * all show "mkeys a = mkeys b \<and> (\<forall>k v w. mget a k = Some v \<longrightarrow> mget b k = Some w \<longrightarrow> P v w)"
      by fastforce
  next
    assume *: "mkeys a = mkeys b \<and> (\<forall>k v w. mget a k = Some v \<longrightarrow> mget b k = Some w \<longrightarrow> P v w)"
    then have "length a = length b"
      using assms card_mkeys by metis
    moreover have "\<exists>w. mget b k = Some w" if "mget a k = Some v" for k v
      using * that mkeys_mget [of k a] mkeys_mget [of k b] by auto
    ultimately show "length a = length b \<and> list_all (\<lambda>(k, v). case mget b k of None \<Rightarrow> False | Some bv \<Rightarrow> P v bv) a"
      unfolding all using * by blast
  qed
qed

lemma jsort_JObj_eq:
  assumes "mwf a" and "mwf b"
  shows "jsort (JObj a) = jsort (JObj b) \<longleftrightarrow>
    mkeys a = mkeys b \<and> (\<forall>k v w. mget a k = Some v \<longrightarrow> mget b k = Some w \<longrightarrow> jsort v = jsort w)"
proof -
  have "jsort (JObj a) = jsort (JObj b) \<longleftrightarrow>
      (\<forall>k. map_option jsort (mget a k) = map_option jsort (mget b k))"
    using assms by (simp add: sort_key_eq_iff mwf_def fun_eq_iff map_of_map_snd mget_def)
  also have "\<dots> \<longleftrightarrow> mkeys a = mkeys b \<and> (\<forall>k v w. mget a k = Some v \<longrightarrow> mget b k = Some w \<longrightarrow> jsort v = jsort w)"
    (is "?l \<longleftrightarrow> ?r")
  proof
    assume l: ?l
    then have "k \<in> mkeys a \<longleftrightarrow> k \<in> mkeys b" for k
      by (metis mkeys_mget option.map_disc_iff)
    moreover have "jsort v = jsort w" if "mget a k = Some v" "mget b k = Some w" for k v w
      using l [rule_format, of k] that by simp
    ultimately show ?r
      by blast
  next
    assume r: ?r
    have "map_option jsort (mget a k) = map_option jsort (mget b k)" for k
    proof -
      have "mget a k = None \<longleftrightarrow> mget b k = None"
        using r mkeys_mget [of k a] mkeys_mget [of k b] by (cases "mget a k"; cases "mget b k") simp_all
      with r show ?thesis
        by (cases "mget a k"; cases "mget b k") auto
    qed
    then show ?l
      by blast
  qed
  finally show ?thesis .
qed

lemma interfaceEqual_jsort: "jwf a \<Longrightarrow> jwf b \<Longrightarrow> interfaceEqual a b \<longleftrightarrow> jsort a = jsort b"
proof (induction a arbitrary: b)
  case (JArr as)
  then show ?case
    by (cases b) (auto simp: list_all_iff jwf_JArr map_eq_conv list_eq_iff_nth_eq in_set_zip all_set_conv_all_nth)
next
  case (JObj m)
  show ?case
  proof (cases b)
    case b: (JObj m')
    have wf: "mwf m" "mwf m'"
      using JObj.prems b by (simp_all add: jwf_JObj)
    have "interfaceEqual v w \<longleftrightarrow> jsort v = jsort w" if "mget m k = Some v" "mget m' k = Some w" for k v w
    proof (rule JObj.IH)
      show "(k, v) \<in> set m"
        using that(1) by (simp add: mget_def map_of_SomeD)
      show "jwf v" "jwf w"
        using JObj.prems b that jwf_mget by blast+
    qed (simp add: snds.simps)
    then have "interfaceEqual (JObj m) b \<longleftrightarrow>
        mkeys m = mkeys m' \<and> (\<forall>k v w. mget m k = Some v \<longrightarrow> mget m' k = Some w \<longrightarrow> jsort v = jsort w)"
      using object_loop [OF wf, of interfaceEqual] b by auto
    with jsort_JObj_eq [OF wf] b show ?thesis
      by simp
  qed simp_all
next
  case JNull
  then show ?case by (cases b) auto
next
  case (JBool x)
  then show ?case by (cases b) auto
next
  case (JInt x)
  then show ?case by (cases b) auto
next
  case (JFloat x)
  then show ?case by (cases b) auto
next
  case (JStr x)
  then show ?case by (cases b) auto
qed

lemma inboundsDiffer_iff:
  assumes "jwf (JObj (Options a))" and "jwf (JObj (Options b))"
  shows "\<not> inboundsDiffer a b \<longleftrightarrow> Tag a = Tag b \<and> Type a = Type b \<and> Listen a = Listen b \<and> Port a = Port b \<and>
    jsort (JObj (Options a)) = jsort (JObj (Options b))"
proof -
  have "\<not> inboundsDiffer a b \<longleftrightarrow> Tag a = Tag b \<and> Type a = Type b \<and> Listen a = Listen b \<and> Port a = Port b \<and>
      interfaceEqual (JObj (Options a)) (JObj (Options b))"
    by (auto simp: inboundsDiffer_def list_all_iff list_ex_iff split: option.splits)
  with interfaceEqual_jsort [OF assms] show ?thesis
    by simp
qed

lemma usersDiffer_iff:
  "\<not> usersDiffer a b \<longleftrightarrow> a\<lparr>ResetAt := None\<rparr> = b\<lparr>ResetAt := None\<rparr> \<and>
    map_option fst (ResetAt a) = map_option fst (ResetAt b)"
  by (cases a; cases b) (auto simp: usersDiffer_def split: option.splits)

section \<open>The changes of a diff\<close>

lemma mwf_fold_put: "mwf m \<Longrightarrow> mwf (fold (\<lambda>x m. mput (key x) x m) xs m)"
  by (induction xs arbitrary: m) simp_all

lemma mwf_index_by: "mwf (index_by key xs)"
  by (simp add: index_by_def mwf_fold_put)

lemma index_by_snoc: "index_by key (xs @ [x]) = mput (key x) x (index_by key xs)"
  by (simp add: index_by_def)

text \<open>The last element with a key wins.\<close>

lemma mget_index_by:
  "mget (index_by key xs) k =
     (if \<exists>x \<in> set xs. key x = k then Some (last (filter (\<lambda>x. key x = k) xs)) else None)"
proof (induction xs rule: rev_induct)
  case Nil
  then show ?case by (simp add: index_by_def)
next
  case (snoc x xs)
  then show ?case
    by (auto simp: index_by_snoc)
qed

lemma index_by_key: "mget (index_by key xs) k = Some x \<Longrightarrow> key x = k \<and> x \<in> set xs"
proof -
  assume "mget (index_by key xs) k = Some x"
  then have "x = last (filter (\<lambda>x. key x = k) xs)" "filter (\<lambda>x. key x = k) xs \<noteq> []"
    by (auto simp: mget_index_by filter_empty_conv split: if_splits)
  then have "x \<in> set (filter (\<lambda>x. key x = k) xs)"
    using last_in_set by blast
  then show ?thesis
    by simp
qed

lemma mkeys_index_by: "mkeys (index_by key xs) = key ` set xs"
  by (auto simp: mkeys_mget mget_index_by split: if_splits)

text \<open>The one change, if any, that a key gets.\<close>

definition change_for ::
  "('a \<Rightarrow> 'a \<Rightarrow> bool) \<Rightarrow> 'a option \<Rightarrow> 'a option \<Rightarrow> 'a change option" where
  "change_for differ d c =
     (case (d, c) of
        (None, None) \<Rightarrow> None
      | (Some d, None) \<Rightarrow> Some \<lparr>ch_Type = ChangeCreate, ch_Item = d, ch_Previous = None\<rparr>
      | (Some d, Some c) \<Rightarrow>
          if differ d c then Some \<lparr>ch_Type = ChangeUpdate, ch_Item = d, ch_Previous = Some c\<rparr> else None
      | (None, Some c) \<Rightarrow> Some \<lparr>ch_Type = ChangeDelete, ch_Item = c, ch_Previous = Some c\<rparr>)"

definition desired_changes where
  "desired_changes key differ r1 desired current =
     concat (map (\<lambda>(k, d).
       case mget (index_by key current) k of
         Some c \<Rightarrow> if differ d c then [\<lparr>ch_Type = ChangeUpdate, ch_Item = d, ch_Previous = Some c\<rparr>] else []
       | None \<Rightarrow> [\<lparr>ch_Type = ChangeCreate, ch_Item = d, ch_Previous = None\<rparr>]) (r1 (index_by key desired)))"

definition removed_changes where
  "removed_changes key r2 desired current =
     concat (map (\<lambda>(k, c).
       if mget (index_by key desired) k = None
       then [\<lparr>ch_Type = ChangeDelete, ch_Item = c, ch_Previous = Some c\<rparr>] else []) (r2 (index_by key current)))"

lemma diff_by_split:
  "diff_by key differ r1 r2 d c = desired_changes key differ r1 d c @ removed_changes key r2 d c"
  by (simp add: diff_by_def desired_changes_def removed_changes_def Let_def)

lemma order_set: "is_order r \<Longrightarrow> set (r m) = set m"
  by (metis is_order_def set_mset_mset)

lemma order_distinct: "is_order r \<Longrightarrow> mwf m \<Longrightarrow> distinct (map fst (r m))"
  by (metis is_order_def mset_map mset_eq_imp_distinct_iff mwf_def)

lemma set_index_by:
  "(k, x) \<in> set (index_by key xs) \<longleftrightarrow> k = key x \<and> mget (index_by key xs) (key x) = Some x"
proof -
  have "(k, x) \<in> set (index_by key xs) \<longleftrightarrow> mget (index_by key xs) k = Some x"
    using mwf_index_by [of key xs] by (simp add: mget_def mwf_def)
  with index_by_key [of key xs k x] show ?thesis
    by auto
qed

lemma set_diff_by:
  assumes "is_order r1" and "is_order r2"
  shows "ch \<in> set (diff_by key differ r1 r2 d c) \<longleftrightarrow>
    change_for differ (mget (index_by key d) (key (ch_Item ch))) (mget (index_by key c) (key (ch_Item ch))) = Some ch"
    (is "?l \<longleftrightarrow> ?r")
proof
  assume ?l
  then show ?r
    by (auto simp: diff_by_split desired_changes_def removed_changes_def order_set [OF assms(1)]
        order_set [OF assms(2)] set_index_by change_for_def split: option.splits if_splits)
next
  assume ?r
  then show ?l
    by (force simp: diff_by_split desired_changes_def removed_changes_def order_set [OF assms(1)]
        order_set [OF assms(2)] set_index_by change_for_def split: option.splits if_splits)
qed

lemma distinct_concat_keys:
  assumes "distinct (map fst m)"
    and "\<And>k x. (k, x) \<in> set m \<Longrightarrow> length (g (k, x)) \<le> 1 \<and> (\<forall>ch \<in> set (g (k, x)). h ch = k)"
  shows "distinct (map h (concat (map g m)))"
  using assms
proof (induction m)
  case (Cons p m)
  obtain k x where p: "p = (k, x)"
    by (cases p)
  have "length (g p) \<le> 1" "\<forall>ch \<in> set (g p). h ch = k"
    using Cons.prems(2) [of k x] p by auto
  moreover have "\<forall>ch \<in> set (concat (map g m)). h ch \<in> fst ` set m"
    using Cons.prems(2) by force
  moreover have "k \<notin> fst ` set m"
    using Cons.prems(1) p by simp
  moreover have "distinct (map h (concat (map g m)))"
    using Cons.prems by (intro Cons.IH) auto
  ultimately show ?case
    by (cases "g p") auto
qed simp

lemma distinct_diff_by:
  assumes "is_order r1" and "is_order r2"
  shows "distinct (map (key \<circ> ch_Item) (diff_by key differ r1 r2 d c))"
proof -
  have "distinct (map (key \<circ> ch_Item) (desired_changes key differ r1 d c))"
    unfolding desired_changes_def
    by (rule distinct_concat_keys [OF order_distinct [OF assms(1) mwf_index_by]])
      (auto simp: order_set [OF assms(1)] set_index_by split: option.splits)
  moreover have "distinct (map (key \<circ> ch_Item) (removed_changes key r2 d c))"
    unfolding removed_changes_def
    by (rule distinct_concat_keys [OF order_distinct [OF assms(2) mwf_index_by]])
      (auto simp: order_set [OF assms(2)] set_index_by)
  moreover have "mget (index_by key d) (key (ch_Item ch)) \<noteq> None" if "ch \<in> set (desired_changes key differ r1 d c)" for ch
    using that by (auto simp: desired_changes_def order_set [OF assms(1)] set_index_by
        split: option.splits if_splits)
  moreover have "mget (index_by key d) (key (ch_Item ch)) = None" if "ch \<in> set (removed_changes key r2 d c)" for ch
    using that by (auto simp: removed_changes_def order_set [OF assms(2)] set_index_by split: if_splits)
  ultimately show ?thesis
    by (fastforce simp: diff_by_split)
qed

section \<open>Applying the changes\<close>

definition apply_change :: "('a \<Rightarrow> string) \<Rightarrow> 'a change \<Rightarrow> (string \<Rightarrow> 'a option) \<Rightarrow> (string \<Rightarrow> 'a option)" where
  "apply_change key ch m =
     (case ch_Type ch of
        ChangeDelete \<Rightarrow> m(key (ch_Item ch) := None)
      | _ \<Rightarrow> m(key (ch_Item ch) := Some (ch_Item ch)))"

lemma apply_other: "key (ch_Item ch) \<noteq> k \<Longrightarrow> apply_change key ch m k = m k"
  by (simp add: apply_change_def split: ChangeType.split)

lemma apply_others: "\<forall>ch \<in> set chs. key (ch_Item ch) \<noteq> k \<Longrightarrow> fold (apply_change key) chs m k = m k"
  by (induction chs arbitrary: m) (simp_all add: apply_other)

lemma apply_member:
  assumes "distinct (map (key \<circ> ch_Item) chs)" and "ch \<in> set chs" and "key (ch_Item ch) = k"
  shows "fold (apply_change key) chs m k = (if ch_Type ch = ChangeDelete then None else Some (ch_Item ch))"
  using assms
proof (induction chs arbitrary: m)
  case (Cons x chs)
  show ?case
  proof (cases "x = ch")
    case True
    with Cons.prems have "\<forall>y \<in> set chs. key (ch_Item y) \<noteq> k"
      by (auto simp: image_iff)
    with True Cons.prems(3) show ?thesis
      by (simp add: apply_others) (simp add: apply_change_def split: ChangeType.split)
  next
    case False
    with Cons show ?thesis
      by simp
  qed
qed simp

lemma diff_by_applies:
  assumes "is_order r1" and "is_order r2"
  shows "fold (apply_change key) (diff_by key differ r1 r2 d c) (mget (index_by key c)) k =
    (case (mget (index_by key d) k, mget (index_by key c) k) of
       (Some x, Some y) \<Rightarrow> Some (if differ x y then x else y)
     | (x, _) \<Rightarrow> x)"
proof (cases "change_for differ (mget (index_by key d) k) (mget (index_by key c) k)")
  case None
  have "\<forall>ch \<in> set (diff_by key differ r1 r2 d c). key (ch_Item ch) \<noteq> k"
    using None by (auto simp: set_diff_by [OF assms])
  with None show ?thesis
    by (simp add: apply_others) (auto simp: change_for_def split: option.splits if_splits)
next
  case (Some ch)
  then have key: "key (ch_Item ch) = k"
    by (auto simp: change_for_def split: option.splits if_splits dest: index_by_key)
  then have "ch \<in> set (diff_by key differ r1 r2 d c)"
    using Some by (simp add: set_diff_by [OF assms])
  from apply_member [OF distinct_diff_by [OF assms] this key] Some show ?thesis
    by (auto simp: change_for_def split: option.splits if_splits)
qed

lemma change_for_None:
  "change_for differ d c = None \<longleftrightarrow>
     (d = None \<longleftrightarrow> c = None) \<and> (\<forall>x y. d = Some x \<longrightarrow> c = Some y \<longrightarrow> \<not> differ x y)"
  by (simp add: change_for_def split: option.split)

lemma diff_by_empty_iff:
  assumes "is_order r1" and "is_order r2"
  shows "diff_by key differ r1 r2 d c = [] \<longleftrightarrow>
    key ` set d = key ` set c \<and>
    (\<forall>k x y. mget (index_by key d) k = Some x \<longrightarrow> mget (index_by key c) k = Some y \<longrightarrow> \<not> differ x y)"
proof -
  have "diff_by key differ r1 r2 d c = [] \<longleftrightarrow>
      (\<forall>k. change_for differ (mget (index_by key d) k) (mget (index_by key c) k) = None)" (is "?l \<longleftrightarrow> ?m")
  proof
    assume ?l
    show ?m
    proof
      fix k
      show "change_for differ (mget (index_by key d) k) (mget (index_by key c) k) = None"
      proof (rule ccontr)
        assume "change_for differ (mget (index_by key d) k) (mget (index_by key c) k) \<noteq> None"
        then obtain ch where ch: "change_for differ (mget (index_by key d) k) (mget (index_by key c) k) = Some ch"
          by blast
        then have "key (ch_Item ch) = k"
          by (auto simp: change_for_def split: option.splits if_splits dest: index_by_key)
        with ch \<open>?l\<close> set_diff_by [OF assms, of ch key differ d c] show False
          by simp
      qed
    qed
  next
    assume m: ?m
    show ?l
    proof (rule ccontr)
      assume "\<not> ?l"
      then obtain ch where "ch \<in> set (diff_by key differ r1 r2 d c)"
        by (cases "diff_by key differ r1 r2 d c") auto
      with m show False
        by (simp add: set_diff_by [OF assms])
    qed
  qed
  also have "\<dots> \<longleftrightarrow> mkeys (index_by key d) = mkeys (index_by key c) \<and>
      (\<forall>k x y. mget (index_by key d) k = Some x \<longrightarrow> mget (index_by key c) k = Some y \<longrightarrow> \<not> differ x y)"
    unfolding change_for_None set_eq_iff mkeys_mget by meson
  finally show ?thesis
    by (simp add: mkeys_index_by)
qed

section \<open>Properties\<close>

text \<open>
  C19.  \<open>interfaceEqual\<close> decides equality of the Go values two JSON trees stand for: it holds
  exactly when they are the same up to the order of map entries (numbers of different dynamic
  type are different).  In particular the result does not depend on the iteration order of maps.
\<close>

theorem interfaceEqual_correct:
  assumes "jwf a" and "jwf b"
  shows "interfaceEqual a b \<longleftrightarrow> jsort a = jsort b"
  using assms by (rule interfaceEqual_jsort)

theorem interfaceEqual_correct_witness:
  "interfaceEqual (JObj [(''a'', JFloat 1), (''b'', JNull)]) (JObj [(''b'', JNull), (''a'', JFloat 1)])"
proof -
  have "jsort (JObj [(''a'', JFloat 1), (''b'', JNull)]) = jsort (JObj [(''b'', JNull), (''a'', JFloat 1)])"
    by simp
  then show ?thesis
    by (subst interfaceEqual_correct) (simp_all add: jwf_JObj mwf_def)
qed

text \<open>What a diff of inbounds is about, without reference to its code: the last inbound with a tag, and equality of all fields.\<close>

definition last_tagged :: "string \<Rightarrow> Inbound list \<Rightarrow> Inbound option" where
  "last_tagged tag is = find (\<lambda>i. Tag i = tag) (rev is)"

definition same_inbound :: "Inbound \<Rightarrow> Inbound \<Rightarrow> bool" where
  "same_inbound a b \<longleftrightarrow> Tag a = Tag b \<and> Type a = Type b \<and> Listen a = Listen b \<and> Port a = Port b \<and>
     jsort (JObj (Options a)) = jsort (JObj (Options b))"

lemma mget_index_last: "mget (index_by Tag is) tag = last_tagged tag is"
proof (induction "is" rule: rev_induct)
  case Nil
  then show ?case by (simp add: index_by_def last_tagged_def)
next
  case (snoc i "is")
  then show ?case
    by (simp add: index_by_snoc last_tagged_def)
qed

lemma last_tagged_Some: "last_tagged tag is = Some i \<Longrightarrow> i \<in> set is \<and> Tag i = tag"
  using index_by_key [of Tag "is" tag i] by (simp add: mget_index_last)

lemma not_inboundsDiffer:
  assumes "\<forall>i \<in> set desired \<union> set current. jwf (JObj (Options i))"
    and "last_tagged t desired = Some x" and "last_tagged t current = Some y"
  shows "\<not> inboundsDiffer x y \<longleftrightarrow> same_inbound x y"
  using assms(1) last_tagged_Some [OF assms(2)] last_tagged_Some [OF assms(3)]
  by (simp add: inboundsDiffer_iff same_inbound_def)

text \<open>
  C20.  A diff of inbounds is complete, minimal and typed, for every iteration order of the maps.  Two inbounds are the same when all
  their fields agree, the options up to the order of their entries; when a tag occurs several times, its last inbound counts.  Applying
  the changes to the current inbounds gives, under every tag, the desired inbound, and nothing under a tag that is not desired.
  No tag is changed twice, and a tag is changed exactly when its desired and its current inbound are not the same (or one of them does
  not exist), so there is no change exactly when the agent is in sync.  A change is a creation when there is no current inbound, an
  update with the current one as the previous, or a deletion when there is no desired one.
\<close>

theorem DiffInbounds_correct:
  assumes "is_order r1" and "is_order r2" and "\<forall>i \<in> set desired \<union> set current. jwf (JObj (Options i))"
    and "D = DiffInbounds r1 r2 desired current"
  shows "(\<forall>tag. rel_option same_inbound (fold (apply_change Tag) D (\<lambda>t. last_tagged t current) tag) (last_tagged tag desired)) \<and>
    distinct (map (Tag \<circ> ch_Item) D) \<and>
    (\<forall>tag. tag \<in> (Tag \<circ> ch_Item) ` set D \<longleftrightarrow> \<not> rel_option same_inbound (last_tagged tag desired) (last_tagged tag current)) \<and>
    (\<forall>c \<in> set D. case ch_Type c of
       ChangeCreate \<Rightarrow> last_tagged (Tag (ch_Item c)) desired = Some (ch_Item c) \<and> last_tagged (Tag (ch_Item c)) current = None
     | ChangeUpdate \<Rightarrow> last_tagged (Tag (ch_Item c)) desired = Some (ch_Item c) \<and>
         last_tagged (Tag (ch_Item c)) current = ch_Previous c \<and> ch_Previous c \<noteq> None
     | ChangeDelete \<Rightarrow> last_tagged (Tag (ch_Item c)) desired = None \<and> last_tagged (Tag (ch_Item c)) current = Some (ch_Item c) \<and>
         ch_Previous c = Some (ch_Item c))"
proof (intro conjI allI)
  let ?d = "\<lambda>t. last_tagged t desired" and ?c = "\<lambda>t. last_tagged t current"
  note same = not_inboundsDiffer [OF assms(3)]
  have mem: "c \<in> set D \<longleftrightarrow> change_for inboundsDiffer (?d (Tag (ch_Item c))) (?c (Tag (ch_Item c))) = Some c" for c
    unfolding assms(4) DiffInbounds_def using set_diff_by [OF assms(1,2), of c Tag inboundsDiffer desired current]
    by (simp only: mget_index_last)
  show "distinct (map (Tag \<circ> ch_Item) D)"
    unfolding assms(4) DiffInbounds_def by (rule distinct_diff_by [OF assms(1,2)])
  show "rel_option same_inbound (fold (apply_change Tag) D ?c tag) (?d tag)" for tag
  proof -
    have "mget (index_by Tag current) = ?c"
      by (simp add: fun_eq_iff mget_index_last)
    then have "fold (apply_change Tag) D ?c tag =
        (case (?d tag, ?c tag) of (Some x, Some y) \<Rightarrow> Some (if inboundsDiffer x y then x else y) | (x, _) \<Rightarrow> x)"
      using diff_by_applies [OF assms(1,2), of Tag inboundsDiffer desired current tag]
      by (simp add: assms(4) DiffInbounds_def mget_index_last)
    moreover have "same_inbound x x" "same_inbound x y \<Longrightarrow> same_inbound y x" for x y
      by (simp_all add: same_inbound_def)
    ultimately show ?thesis
      using same [of tag] by (auto split: option.split)
  qed
  show "tag \<in> (Tag \<circ> ch_Item) ` set D \<longleftrightarrow> \<not> rel_option same_inbound (?d tag) (?c tag)" for tag
  proof -
    have "tag \<in> (Tag \<circ> ch_Item) ` set D \<longleftrightarrow> change_for inboundsDiffer (?d tag) (?c tag) \<noteq> None"
    proof
      assume "change_for inboundsDiffer (?d tag) (?c tag) \<noteq> None"
      then obtain c where c: "change_for inboundsDiffer (?d tag) (?c tag) = Some c"
        by blast
      then have "Tag (ch_Item c) = tag"
        by (auto simp: change_for_def split: option.splits if_splits dest: last_tagged_Some)
      with c mem [of c] show "tag \<in> (Tag \<circ> ch_Item) ` set D"
        by force
    qed (auto simp: mem)
    also have "\<dots> \<longleftrightarrow> \<not> rel_option same_inbound (?d tag) (?c tag)"
      using same [of tag] by (auto simp: change_for_None option_rel_Some1 option_rel_Some2 rel_option_iff split: option.splits)
    finally show ?thesis .
  qed
qed (auto simp: assms(4) DiffInbounds_def set_diff_by [OF assms(1,2)] mget_index_last change_for_def
    split: option.splits if_splits)

text \<open>One inbound changes its port, one is new, one is not wanted any more, and one differs only in the order of its options.\<close>

definition demo_ib :: "string \<Rightarrow> int \<Rightarrow> jobj \<Rightarrow> Inbound" where
  "demo_ib t p opts = \<lparr>Tag = t, Type = ''vless'', Listen = [], Port = p, Options = opts\<rparr>"

definition demo_desired :: "Inbound list" where
  "demo_desired = [demo_ib ''a'' 2 [], demo_ib ''b'' 1 [], demo_ib ''d'' 1 [(''x'', JNull), (''y'', JBool True)]]"

definition demo_current :: "Inbound list" where
  "demo_current = [demo_ib ''a'' 1 [], demo_ib ''c'' 1 [], demo_ib ''d'' 1 [(''y'', JBool True), (''x'', JNull)]]"

theorem DiffInbounds_correct_witness:
  "(Tag \<circ> ch_Item) ` set (DiffInbounds id rev demo_desired demo_current) = {''a'', ''b'', ''c''}"
proof -
  have "is_order (id :: Inbound order)" "is_order (rev :: Inbound order)"
    by (simp_all add: is_order_def)
  moreover have "\<forall>i \<in> set demo_desired \<union> set demo_current. jwf (JObj (Options i))"
    by (simp add: demo_desired_def demo_current_def demo_ib_def jwf_JObj mwf_def)
  ultimately have "\<forall>tag. tag \<in> (Tag \<circ> ch_Item) ` set (DiffInbounds id rev demo_desired demo_current) \<longleftrightarrow>
      \<not> rel_option same_inbound (last_tagged tag demo_desired) (last_tagged tag demo_current)"
    using DiffInbounds_correct by blast
  then show ?thesis
    by (auto simp: set_eq_iff last_tagged_def demo_desired_def demo_current_def demo_ib_def same_inbound_def)
qed

text \<open>
  The same for users, which are identified by their subscription id alone, whatever inbound
  they belong to.
\<close>

theorem DiffUsers_correct:
  assumes "is_order r1" and "is_order r2"
  shows "(\<forall>s. fold (apply_change SubID) (DiffUsers r1 r2 desired current) (mget (index_by SubID current)) s =
      (case (mget (index_by SubID desired) s, mget (index_by SubID current) s) of
         (Some x, Some y) \<Rightarrow> Some (if usersDiffer x y then x else y)
       | (x, _) \<Rightarrow> x)) \<and>
    distinct (map (SubID \<circ> ch_Item) (DiffUsers r1 r2 desired current)) \<and>
    (DiffUsers r1 r2 desired current = [] \<longleftrightarrow> SubID ` set desired = SubID ` set current \<and>
      (\<forall>s x y. mget (index_by SubID desired) s = Some x \<longrightarrow> mget (index_by SubID current) s = Some y \<longrightarrow>
         \<not> usersDiffer x y))"
  unfolding DiffUsers_def
  by (intro conjI allI diff_by_applies [OF assms] distinct_diff_by [OF assms] diff_by_empty_iff [OF assms])

theorem DiffUsers_correct_witness: "DiffUsers id rev [] [] = []"
proof -
  have "is_order (id :: User order)" "is_order (rev :: User order)"
    by (simp_all add: is_order_def)
  from DiffUsers_correct [OF this, of "[]" "[]"] show ?thesis
    by (simp add: index_by_def)
qed

end
