(* ===== verification/Plan.thy ===== *)
theory Plan
  imports ConfigManager Diff
begin

text \<open>
  Sync plans, \<open>internal/sync/plan.go\<close>: the steps made from a diff, their order, executing them
  against the \<open>ConfigManager\<close> and rolling them back.

  The environment is the configuration file, the outcomes of the writes to come (success when
  the list is used up), the outcomes of the reloads to come, and the log of the reloads so far:
  the file each one saw and whether it succeeded.
\<close>

section \<open>Model\<close>

datatype step = InboundStep InboundChange | UserStep UserChange

record env =
  ev_file :: cfgfile
  ev_writes :: "write_outcome list"
  ev_reloads :: "cm_error option list"
  ev_log :: "(cfgfile \<times> bool) list"

definition run_op :: "(write_outcome \<Rightarrow> cfgfile \<Rightarrow> cfgfile \<times> cm_error option) \<Rightarrow> env \<Rightarrow> env \<times> cm_error option" where
  "run_op op e =
     (let w = (case ev_writes e of [] \<Rightarrow> WriteOk | w # _ \<Rightarrow> w);
          (f', r) = op w (ev_file e)
      in (e\<lparr>ev_file := f', ev_writes := tl (ev_writes e)\<rparr>, r))"

text \<open>\<open>ConfigManager.Reload\<close>; \<open>has_reloader\<close> is \<open>m.reloader != nil\<close>.\<close>

definition cm_Reload :: "bool \<Rightarrow> env \<Rightarrow> env \<times> cm_error option" where
  "cm_Reload has_reloader e =
     (if \<not> has_reloader then (e, Some NoReloader)
      else let r = (case ev_reloads e of [] \<Rightarrow> None | r # _ \<Rightarrow> r)
           in (e\<lparr>ev_reloads := tl (ev_reloads e), ev_log := ev_log e @ [(ev_file e, r = None)]\<rparr>, r))"

text \<open>The configuration manager of a plan: absent, or present with or without a reloader.\<close>

datatype manager = NoManager | Manager bool

record Plan =
  pl_InboundChanges :: "InboundChange list"
  pl_UserChanges :: "UserChange list"
  pl_manager :: manager
  pl_steps :: "step list"

definition buildSteps :: "InboundChange list \<Rightarrow> UserChange list \<Rightarrow> step list" where
  "buildSteps ics ucs =
     (let inboundSteps = (\<lambda>t. map InboundStep (filter (\<lambda>c. ch_Type c = t) ics));
          userSteps = (\<lambda>t. map UserStep (filter (\<lambda>c. ch_Type c = t) ucs))
      in inboundSteps ChangeCreate @ inboundSteps ChangeUpdate @ userSteps ChangeCreate
         @ userSteps ChangeUpdate @ userSteps ChangeDelete @ inboundSteps ChangeDelete)"

definition NewPlanWithConfigManager :: "InboundChange list \<Rightarrow> UserChange list \<Rightarrow> manager \<Rightarrow> Plan" where
  "NewPlanWithConfigManager ics ucs m =
     \<lparr>pl_InboundChanges = ics, pl_UserChanges = ucs, pl_manager = m, pl_steps = buildSteps ics ucs\<rparr>"

definition NewPlan :: "InboundChange list \<Rightarrow> UserChange list \<Rightarrow> Plan" where
  "NewPlan ics ucs = NewPlanWithConfigManager ics ucs NoManager"

definition StepsCount :: "Plan \<Rightarrow> nat" where
  "StepsCount p = length (pl_steps p)"

fun step_execute :: "step \<Rightarrow> env \<Rightarrow> env \<times> cm_error option" where
  "step_execute (InboundStep c) e =
     (case ch_Type c of
        ChangeCreate \<Rightarrow> run_op (cm_AddInbound (ch_Item c)) e
      | ChangeUpdate \<Rightarrow> run_op (cm_UpdateInbound (ch_Item c)) e
      | ChangeDelete \<Rightarrow> run_op (cm_DeleteInbound (Tag (ch_Item c))) e)"
| "step_execute (UserStep c) e =
     (case ch_Type c of
        ChangeCreate \<Rightarrow> run_op (cm_AddUser (InboundTag (ch_Item c)) (ch_Item c)) e
      | ChangeUpdate \<Rightarrow> run_op (cm_UpdateUser (InboundTag (ch_Item c)) (ch_Item c)) e
      | ChangeDelete \<Rightarrow> run_op (cm_DeleteUser (InboundTag (ch_Item c)) (SubID (ch_Item c))) e)"

fun step_rollback :: "step \<Rightarrow> env \<Rightarrow> env \<times> cm_error option" where
  "step_rollback (InboundStep c) e =
     (case ch_Type c of
        ChangeCreate \<Rightarrow> run_op (cm_DeleteInbound (Tag (ch_Item c))) e
      | ChangeUpdate \<Rightarrow>
          (case ch_Previous c of None \<Rightarrow> (e, Some MissingPrevious) | Some p \<Rightarrow> run_op (cm_UpdateInbound p) e)
      | ChangeDelete \<Rightarrow>
          (case ch_Previous c of None \<Rightarrow> (e, Some MissingPrevious) | Some p \<Rightarrow> run_op (cm_AddInbound p) e))"
| "step_rollback (UserStep c) e =
     (case ch_Type c of
        ChangeCreate \<Rightarrow> run_op (cm_DeleteUser (InboundTag (ch_Item c)) (SubID (ch_Item c))) e
      | ChangeUpdate \<Rightarrow>
          (case ch_Previous c of
             None \<Rightarrow> (e, Some MissingPrevious)
           | Some p \<Rightarrow> run_op (cm_UpdateUser (InboundTag p) p) e)
      | ChangeDelete \<Rightarrow>
          (case ch_Previous c of
             None \<Rightarrow> (e, Some MissingPrevious)
           | Some p \<Rightarrow> run_op (cm_AddUser (InboundTag p) p) e))"

text \<open>Every step first checks that there is a configuration manager.\<close>

definition Execute_step :: "manager \<Rightarrow> step \<Rightarrow> env \<Rightarrow> env \<times> cm_error option" where
  "Execute_step m s e = (if m = NoManager then (e, Some NoConfigManager) else step_execute s e)"

definition Rollback_step :: "manager \<Rightarrow> step \<Rightarrow> env \<Rightarrow> env \<times> cm_error option" where
  "Rollback_step m s e = (if m = NoManager then (e, Some NoConfigManager) else step_rollback s e)"

text \<open>\<open>ErrRollbackFailed\<close> with the index of the step and its error.\<close>

datatype rollback_error = RollbackFailed nat step cm_error

text \<open>The steps in the order of the list, that is in reverse order of execution.\<close>

fun rollback_loop :: "manager \<Rightarrow> step list \<Rightarrow> env \<Rightarrow> env \<times> rollback_error option" where
  "rollback_loop m [] e = (e, None)"
| "rollback_loop m (s # ss) e =
     (case Rollback_step m s e of
        (e', Some err) \<Rightarrow> (e', Some (RollbackFailed (length ss) s err))
      | (e', None) \<Rightarrow> rollback_loop m ss e')"

definition rollbackExecuted :: "manager \<Rightarrow> step list \<Rightarrow> env \<Rightarrow> env \<times> rollback_error option" where
  "rollbackExecuted m executed e = rollback_loop m (rev executed) e"

definition Rollback :: "Plan \<Rightarrow> env \<Rightarrow> env \<times> rollback_error option" where
  "Rollback p e = rollback_loop (pl_manager p) (rev (pl_steps p)) e"

text \<open>The ways \<open>ErrPlanExecutionFailed\<close> is wrapped.\<close>

datatype plan_error =
    StepFailed nat step cm_error
  | StepFailedRollbackFailed cm_error rollback_error
  | ManagerRequired
  | PlanReloadFailed cm_error
  | PlanReloadRollbackFailed cm_error rollback_error
  | PlanReloadReloadFailed cm_error cm_error

fun execute_loop :: "manager \<Rightarrow> step list \<Rightarrow> step list \<Rightarrow> env \<Rightarrow> env \<times> plan_error option" where
  "execute_loop m executed [] e = (e, None)"
| "execute_loop m executed (s # ss) e =
     (let executed' = executed @ [s]
      in case Execute_step m s e of
           (e', Some err) \<Rightarrow>
             (case rollbackExecuted m executed' e' of
                (e'', Some rerr) \<Rightarrow> (e'', Some (StepFailedRollbackFailed err rerr))
              | (e'', None) \<Rightarrow> (e'', Some (StepFailed (length executed) s err)))
         | (e', None) \<Rightarrow> execute_loop m executed' ss e')"

definition Execute :: "Plan \<Rightarrow> env \<Rightarrow> env \<times> plan_error option" where
  "Execute p e =
     (case execute_loop (pl_manager p) [] (pl_steps p) e of
        (e', Some err) \<Rightarrow> (e', Some err)
      | (e', None) \<Rightarrow>
          if pl_steps p = [] then (e', None)
          else case pl_manager p of
                 NoManager \<Rightarrow> (e', Some ManagerRequired)
               | Manager rl \<Rightarrow>
                   (case cm_Reload rl e' of
                      (e', None) \<Rightarrow> (e', None)
                    | (e', Some err) \<Rightarrow>
                        (case rollbackExecuted (pl_manager p) (pl_steps p) e' of
                           (e', Some rerr) \<Rightarrow> (e', Some (PlanReloadRollbackFailed err rerr))
                         | (e', None) \<Rightarrow>
                             (case cm_Reload rl e' of
                                (e', Some err2) \<Rightarrow> (e', Some (PlanReloadReloadFailed err err2))
                              | (e', None) \<Rightarrow> (e', Some (PlanReloadFailed err))))))"

section \<open>The order of the steps\<close>

fun rank :: "step \<Rightarrow> nat" where
  "rank (InboundStep c) = (case ch_Type c of ChangeCreate \<Rightarrow> 0 | ChangeUpdate \<Rightarrow> 1 | ChangeDelete \<Rightarrow> 5)"
| "rank (UserStep c) = (case ch_Type c of ChangeCreate \<Rightarrow> 2 | ChangeUpdate \<Rightarrow> 3 | ChangeDelete \<Rightarrow> 4)"

lemma mset_by_type:
  "mset (filter (\<lambda>c. ch_Type c = ChangeCreate) cs) + mset (filter (\<lambda>c. ch_Type c = ChangeUpdate) cs)
     + mset (filter (\<lambda>c. ch_Type c = ChangeDelete) cs) = mset cs"
  by (induction cs) (auto intro: ChangeType.exhaust)

lemma mset_buildSteps: "mset (buildSteps ics ucs) = mset (map InboundStep ics @ map UserStep ucs)"
proof -
  have "image_mset InboundStep (mset ics) = image_mset InboundStep
      (mset (filter (\<lambda>c. ch_Type c = ChangeCreate) ics) + mset (filter (\<lambda>c. ch_Type c = ChangeUpdate) ics)
        + mset (filter (\<lambda>c. ch_Type c = ChangeDelete) ics))"
    by (simp only: mset_by_type)
  moreover have "image_mset UserStep (mset ucs) = image_mset UserStep
      (mset (filter (\<lambda>c. ch_Type c = ChangeCreate) ucs) + mset (filter (\<lambda>c. ch_Type c = ChangeUpdate) ucs)
        + mset (filter (\<lambda>c. ch_Type c = ChangeDelete) ucs))"
    by (simp only: mset_by_type)
  ultimately show ?thesis
    by (simp add: buildSteps_def)
qed

lemma set_buildSteps: "set (buildSteps ics ucs) = InboundStep ` set ics \<union> UserStep ` set ucs"
  using mset_buildSteps [of ics ucs] by (metis list.set_map set_append set_mset_mset)

lemma sorted_const: "\<forall>x \<in> set xs. f x = (c :: nat) \<Longrightarrow> sorted (map f xs)"
  by (induction xs) auto

lemma sorted_type:
  "sorted (map (rank \<circ> InboundStep) (filter (\<lambda>c. ch_Type c = t) ics))"
  "sorted (map (rank \<circ> UserStep) (filter (\<lambda>c. ch_Type c = t) ucs))"
  by (rule sorted_const [where c = "case t of ChangeCreate \<Rightarrow> 0 | ChangeUpdate \<Rightarrow> 1 | ChangeDelete \<Rightarrow> 5"], simp)
    (rule sorted_const [where c = "case t of ChangeCreate \<Rightarrow> 2 | ChangeUpdate \<Rightarrow> 3 | ChangeDelete \<Rightarrow> 4"], simp)

lemma sorted_buildSteps: "sorted (map rank (buildSteps ics ucs))"
  by (simp add: buildSteps_def sorted_append sorted_type ball_Un)

section \<open>What the steps do to the tags\<close>

text \<open>
  The contract the engine relies on: a state with a set of inbound tags, and what a successful
  step of each kind makes of it.
\<close>

locale tag_steps =
  fixes exec :: "step \<Rightarrow> 's \<Rightarrow> 's \<times> 'e option"
    and tags :: "'s \<Rightarrow> string set"
    and ok :: "'s \<Rightarrow> bool"
    and wf :: "step \<Rightarrow> bool"
  assumes exec_inbound: "ok s \<Longrightarrow> wf (InboundStep c) \<Longrightarrow> exec (InboundStep c) s = (s', None) \<Longrightarrow>
      ok s' \<and> tags s' = (case ch_Type c of
        ChangeCreate \<Rightarrow> insert (Tag (ch_Item c)) (tags s)
      | ChangeUpdate \<Rightarrow> tags s
      | ChangeDelete \<Rightarrow> tags s - {Tag (ch_Item c)})"
    and exec_user: "ok s \<Longrightarrow> wf (UserStep u) \<Longrightarrow> exec (UserStep u) s = (s', None) \<Longrightarrow> ok s' \<and> tags s' = tags s"
begin

fun exec_all :: "step list \<Rightarrow> 's \<Rightarrow> 's option" where
  "exec_all [] s = Some s"
| "exec_all (x # xs) s = (case exec x s of (s', None) \<Rightarrow> exec_all xs s' | (s', Some _) \<Rightarrow> None)"

definition created :: "step list \<Rightarrow> string set" where
  "created xs = {Tag (ch_Item c) | c. InboundStep c \<in> set xs \<and> ch_Type c = ChangeCreate}"

definition deleted :: "step list \<Rightarrow> string set" where
  "deleted xs = {Tag (ch_Item c) | c. InboundStep c \<in> set xs \<and> ch_Type c = ChangeDelete}"

lemma created_deleted_simps [simp]:
  "created [] = {}" "deleted [] = {}"
  "created (UserStep u # xs) = created xs" "deleted (UserStep u # xs) = deleted xs"
  "created (InboundStep c # xs) =
     (if ch_Type c = ChangeCreate then insert (Tag (ch_Item c)) (created xs) else created xs)"
  "deleted (InboundStep c # xs) =
     (if ch_Type c = ChangeDelete then insert (Tag (ch_Item c)) (deleted xs) else deleted xs)"
  by (auto simp: created_def deleted_def)

text \<open>No tag is both created and deleted: then the order of the steps does not matter for the tags.\<close>

lemma exec_all_tags:
  assumes "ok s" and "\<forall>x \<in> set xs. wf x" and "exec_all xs s = Some s'" and "created xs \<inter> deleted xs = {}"
  shows "ok s' \<and> tags s' = (tags s \<union> created xs) - deleted xs"
  using assms
proof (induction xs arbitrary: s)
  case (Cons x xs)
  from Cons.prems(3) obtain s1 where step: "exec x s = (s1, None)" and rest: "exec_all xs s1 = Some s'"
    by (auto split: prod.splits option.splits)
  show ?case
  proof (cases x)
    case (InboundStep c)
    with exec_inbound [OF Cons.prems(1)] step Cons.prems(2) have "ok s1"
      "tags s1 = (case ch_Type c of ChangeCreate \<Rightarrow> insert (Tag (ch_Item c)) (tags s)
        | ChangeUpdate \<Rightarrow> tags s | ChangeDelete \<Rightarrow> tags s - {Tag (ch_Item c)})"
      by auto
    with Cons.IH [of s1] rest Cons.prems(2,4) InboundStep show ?thesis
      by (cases "ch_Type c") auto
  next
    case (UserStep c)
    with exec_user [OF Cons.prems(1)] step Cons.prems(2) have "ok s1" "tags s1 = tags s"
      by auto
    with Cons.IH [of s1] rest Cons.prems(2,4) UserStep show ?thesis
      by auto
  qed
qed simp

end

fun step_wf :: "step \<Rightarrow> bool" where
  "step_wf (InboundStep c) = inbound_wf (ch_Item c)"
| "step_wf (UserStep c) = True"

lemma run_op_None:
  "run_op op e = (e', None) \<Longrightarrow> \<exists>w. op w (ev_file e) = (ev_file e', None)"
  by (auto simp: run_op_def Let_def split: prod.splits)

interpretation plan_tags: tag_steps step_execute "\<lambda>e. set (file_tags (ev_file e))" "\<lambda>e. file_ok (ev_file e)" step_wf
proof (unfold_locales, goal_cases)
  case (1 s c s')
  show ?case
  proof (cases "ch_Type c")
    case ChangeCreate
    with 1 obtain w where "cm_AddInbound (ch_Item c) w (ev_file s) = (ev_file s', None)"
      using run_op_None by fastforce
    with 1 cm_tags(1) [OF 1(1)] ChangeCreate show ?thesis
      by auto
  next
    case ChangeUpdate
    with 1 obtain w where "cm_UpdateInbound (ch_Item c) w (ev_file s) = (ev_file s', None)"
      using run_op_None by fastforce
    with 1 cm_tags(2) [OF 1(1)] ChangeUpdate show ?thesis
      by auto
  next
    case ChangeDelete
    with 1 obtain w where "cm_DeleteInbound (Tag (ch_Item c)) w (ev_file s) = (ev_file s', None)"
      using run_op_None by fastforce
    with cm_tags(3) [OF 1(1)] ChangeDelete show ?thesis
      by auto
  qed
next
  case (2 s c s')
  show ?case
  proof (cases "ch_Type c")
    case ChangeCreate
    with 2 obtain w where "cm_AddUser (InboundTag (ch_Item c)) (ch_Item c) w (ev_file s) = (ev_file s', None)"
      using run_op_None by fastforce
    with cm_tags(4) [OF 2(1)] show ?thesis
      by auto
  next
    case ChangeUpdate
    with 2 obtain w where "cm_UpdateUser (InboundTag (ch_Item c)) (ch_Item c) w (ev_file s) = (ev_file s', None)"
      using run_op_None by fastforce
    with cm_tags(5) [OF 2(1)] show ?thesis
      by auto
  next
    case ChangeDelete
    with 2 obtain w where "cm_DeleteUser (InboundTag (ch_Item c)) (SubID (ch_Item c)) w (ev_file s) = (ev_file s', None)"
      using run_op_None by fastforce
    with cm_tags(6) [OF 2(1)] show ?thesis
      by auto
  qed
qed

lemma execute_loop_None:
  "execute_loop (Manager rl) executed ss e = (e', None) \<Longrightarrow> plan_tags.exec_all ss e = Some e'"
  by (induction ss arbitrary: executed e)
    (auto simp: Execute_step_def Let_def split: prod.splits option.splits)

text \<open>A plan that succeeds has executed all its steps and, if there were any, reloaded the result.\<close>

lemma Execute_None:
  assumes "Execute p e = (e', None)" and "pl_manager p = Manager rl"
  shows "\<exists>e1. plan_tags.exec_all (pl_steps p) e = Some e1 \<and> ev_file e' = ev_file e1 \<and>
    (pl_steps p \<noteq> [] \<longrightarrow> ev_log e' = ev_log e1 @ [(ev_file e', True)])"
proof -
  obtain e1 where e1: "execute_loop (pl_manager p) [] (pl_steps p) e = (e1, None)"
    using assms(1) by (auto simp: Execute_def split: prod.splits option.splits)
  with assms show ?thesis
    by (intro exI [of _ e1])
      (auto simp: Execute_def cm_Reload_def Let_def execute_loop_None
        split: if_splits prod.splits option.splits list.splits)
qed

section \<open>Rolling back creations\<close>

text \<open>
  A configuration the agent wrote, with a list of inbounds; the inbounds users are created in have
  a list of users.
\<close>

definition plain_cfg :: "jobj \<Rightarrow> bool" where
  "plain_cfg cfg \<longleftrightarrow> canonical (JObj cfg) \<and> (\<exists>vs. mget cfg ''inbounds'' = Some (JArr vs))"

definition has_users :: "string \<Rightarrow> jobj \<Rightarrow> bool" where
  "has_users tag cfg \<longleftrightarrow> (\<exists>vs i m us loc. findInbound cfg tag = Inr (vs, i, m) \<and> usersAccessor m False = Inr (us, loc))"

lemma cm_AddInbound_plain:
  assumes "plain_cfg cfg" and "cm_AddInbound i WriteOk (written_file cfg) = (f', None)"
  shows "\<exists>cfg'. f' = written_file cfg' \<and> plain_cfg cfg' \<and> (\<forall>t. has_users t cfg \<longrightarrow> has_users t cfg')"
proof -
  obtain vs where vs: "mget cfg ''inbounds'' = Some (JArr vs)" and can: "canonical (JObj cfg)"
    using assms(1) by (auto simp: plain_cfg_def)
  let ?cfg' = "set_inbounds (vs @ [JObj (modelToMap (inbound_fields i))]) cfg"
  have f': "f' = Some (MarshalIndent (JObj ?cfg'))"
    using assms(2) vs by (auto simp: cm_AddInbound_def load_edit_save_def edit_AddInbound_def inboundsSlice_def
        saveConfigMap_def split: if_splits)
  have can': "canonical (JObj ?cfg')"
    by (rule canonical_set_inbounds [OF can vs]) simp
  have "find_tag t vs = Some (n, m) \<Longrightarrow> find_tag t (vs @ ws) = Some (n, m)" for t n m ws
  proof (induction vs arbitrary: n)
    case (Cons v vs)
    then show ?case
      by (cases v) (auto split: if_splits)
  qed simp
  then have "\<forall>t. has_users t cfg \<longrightarrow> has_users t ?cfg'"
    using vs by (fastforce simp: has_users_def findInbound_Inr)
  with f' can' save_canonical [OF can'] show ?thesis
    by (intro exI [of _ ?cfg']) (simp add: plain_cfg_def)
qed

lemma cm_AddUser_plain:
  assumes "plain_cfg cfg" and "has_users tag cfg" and "cm_AddUser tag u WriteOk (written_file cfg) = (f', None)"
  shows "\<exists>cfg'. f' = written_file cfg' \<and> plain_cfg cfg' \<and> (\<forall>t. has_users t cfg \<longrightarrow> has_users t cfg')"
proof -
  obtain vs i m us loc where find: "findInbound cfg tag = Inr (vs, i, m)"
    and acc: "usersAccessor m False = Inr (us, loc)"
    using assms(2) by (auto simp: has_users_def)
  note slice = find [unfolded findInbound_Inr]
  have im: "i < length vs" "vs ! i = JObj m" "getString m ''tag'' = tag"
    using slice find_tag_Some by auto
  let ?m' = "setUsers loc (us @ [JObj (modelToMap (user_fields u))]) m"
  let ?cfg' = "set_inbounds (vs[i := JObj (setUsers loc (us @ [JObj (modelToMap (user_fields u))]) m)]) cfg"
  obtain cfg1 where "edit_AddUser tag u cfg = Inr cfg1" and f1: "f' = Some (MarshalIndent (JObj cfg1))"
    using assms(3) unfolding cm_AddUser_def by (rule load_edit_save_ok) auto
  then have f': "f' = Some (MarshalIndent (JObj ?cfg'))"
    using find usersAccessor_create [OF acc] by (simp add: edit_AddUser_def split: if_splits)
  have can: "canonical (JObj cfg)"
    using assms(1) by (simp add: plain_cfg_def)
  then have "canonical (JArr vs)"
    using slice by (blast intro: canonical_mget)
  then have "canonical (JObj m)"
    using im(1,2) by (metis canonical_JArr nth_mem)
  then have m': "canonical (JObj ?m')"
    by (rule canonical_setUsers [OF _ acc]) simp
  then have can': "canonical (JObj ?cfg')"
    using set_update_subset_insert [of vs i "JObj ?m'"] slice
    by (intro canonical_set_inbounds [OF can]) auto
  have "has_users t ?cfg'" if t: "has_users t cfg" for t
  proof -
    from t slice obtain n k us' loc' where tn: "find_tag t vs = Some (n, k)" "usersAccessor k False = Inr (us', loc')"
      by (auto simp: has_users_def findInbound_Inr)
    show ?thesis
    proof (cases "t = tag")
      case True
      with slice im(3) usersAccessor_setUsers [OF acc, of "us @ [JObj (modelToMap (user_fields u))]"] show ?thesis
        by (auto simp: has_users_def findInbound_Inr find_tag_update getString_setUsers)
    next
      case False
      have "find_tag t (vs[i := JObj ?m']) = find_tag t vs"
        using im False by (intro find_tag_other) (auto simp: getString_setUsers)
      with tn show ?thesis
        by (auto simp: has_users_def findInbound_Inr)
    qed
  qed
  with f' can' save_canonical [OF can'] show ?thesis
    by (intro exI [of _ ?cfg']) (simp add: plain_cfg_def)
qed

text \<open>The tags a diff creates and deletes.\<close>

lemma change_for_key:
  assumes "change_for differ (mget (index_by key d) k) (mget (index_by key c) k) = Some ch"
  shows "key (ch_Item ch) = k"
  using assms by (auto simp: change_for_def split: option.splits if_splits dest: index_by_key)

lemma diff_created:
  assumes "\<And>ch. ch \<in> C \<longleftrightarrow> change_for inboundsDiffer (mget (index_by Tag d) (Tag (ch_Item ch)))
      (mget (index_by Tag c) (Tag (ch_Item ch))) = Some ch"
  shows "{Tag (ch_Item ch) | ch. InboundStep ch \<in> InboundStep ` C \<union> UserStep ` U \<and> ch_Type ch = ChangeCreate} =
    mkeys (index_by Tag d) - mkeys (index_by Tag c)" (is "?l = ?r")
proof (intro equalityI subsetI)
  fix t
  assume "t \<in> ?l"
  then obtain ch where "ch \<in> C" "ch_Type ch = ChangeCreate" "t = Tag (ch_Item ch)"
    by auto
  then show "t \<in> ?r"
    by (auto simp: assms change_for_def mkeys_mget split: option.splits if_splits)
next
  fix t
  assume t: "t \<in> ?r"
  then obtain x where x: "mget (index_by Tag d) t = Some x" "mget (index_by Tag c) t = None"
    by (auto simp: mkeys_mget)
  let ?ch = "\<lparr>ch_Type = ChangeCreate, ch_Item = x, ch_Previous = None\<rparr>"
  have "Tag x = t"
    using x(1) index_by_key by fast
  moreover have "?ch \<in> C"
    unfolding assms using x \<open>Tag x = t\<close> by (simp add: change_for_def)
  ultimately show "t \<in> ?l"
    by (intro CollectI exI [of _ ?ch]) simp
qed

lemma diff_deleted:
  assumes "\<And>ch. ch \<in> C \<longleftrightarrow> change_for inboundsDiffer (mget (index_by Tag d) (Tag (ch_Item ch)))
      (mget (index_by Tag c) (Tag (ch_Item ch))) = Some ch"
  shows "{Tag (ch_Item ch) | ch. InboundStep ch \<in> InboundStep ` C \<union> UserStep ` U \<and> ch_Type ch = ChangeDelete} =
    mkeys (index_by Tag c) - mkeys (index_by Tag d)" (is "?l = ?r")
proof (intro equalityI subsetI)
  fix t
  assume "t \<in> ?l"
  then obtain ch where "ch \<in> C" "ch_Type ch = ChangeDelete" "t = Tag (ch_Item ch)"
    by auto
  then show "t \<in> ?r"
    by (auto simp: assms change_for_def mkeys_mget split: option.splits if_splits)
next
  fix t
  assume t: "t \<in> ?r"
  then obtain x where x: "mget (index_by Tag c) t = Some x" "mget (index_by Tag d) t = None"
    by (auto simp: mkeys_mget)
  let ?ch = "\<lparr>ch_Type = ChangeDelete, ch_Item = x, ch_Previous = Some x\<rparr>"
  have "Tag x = t"
    using x(1) index_by_key by fast
  moreover have "?ch \<in> C"
    unfolding assms using x \<open>Tag x = t\<close> by (simp add: change_for_def)
  ultimately show "t \<in> ?l"
    by (intro CollectI exI [of _ ?ch]) simp
qed

fun creation :: "jobj \<Rightarrow> step \<Rightarrow> bool" where
  "creation cfg (InboundStep c) = (ch_Type c = ChangeCreate)"
| "creation cfg (UserStep c) = (ch_Type c = ChangeCreate \<and> has_users (InboundTag (ch_Item c)) cfg)"

lemma run_op_ok: "ev_writes e = [] \<Longrightarrow> run_op op e = (e\<lparr>ev_file := fst (op WriteOk (ev_file e))\<rparr>, snd (op WriteOk (ev_file e)))"
  by (simp add: run_op_def split_beta)

lemma creation_undone:
  assumes "plain_cfg cfg" and "creation cfg s" and "ev_file e = written_file cfg" and "ev_writes e = []"
    and "step_execute s e = (e', None)"
  obtains cfg' where "ev_file e' = written_file cfg'" "ev_writes e' = []" "plain_cfg cfg'"
    "\<And>t. has_users t cfg \<Longrightarrow> has_users t cfg'"
    "\<And>e2. ev_file e2 = written_file cfg' \<Longrightarrow> ev_writes e2 = [] \<Longrightarrow>
       step_rollback s e2 = (e2\<lparr>ev_file := written_file cfg\<rparr>, None)"
proof (cases s)
  case (InboundStep c)
  let ?op = "cm_AddInbound (ch_Item c) WriteOk (written_file cfg)"
  have e': "e' = e\<lparr>ev_file := fst ?op\<rparr>" and op: "?op = (fst ?op, None)"
    using assms(2-5) InboundStep by (auto simp: run_op_ok prod_eq_iff)
  obtain vs where vs: "mget cfg ''inbounds'' = Some (JArr vs)" and can: "canonical (JObj cfg)"
    using assms(1) by (auto simp: plain_cfg_def)
  from cm_AddInbound_plain [OF assms(1) op] obtain cfg' where
    cfg': "fst ?op = written_file cfg'" "plain_cfg cfg'" "\<forall>t. has_users t cfg \<longrightarrow> has_users t cfg'"
    by blast
  have "cm_DeleteInbound (Tag (ch_Item c)) WriteOk (written_file cfg') = (written_file cfg, None)"
    using add_delete_inbound [OF can vs op] cfg'(1) by simp
  with that [of cfg'] cfg' e' assms(2,4) InboundStep show thesis
    by (simp add: run_op_ok)
next
  case (UserStep c)
  let ?tag = "InboundTag (ch_Item c)"
  let ?op = "cm_AddUser (InboundTag (ch_Item c)) (ch_Item c) WriteOk (written_file cfg)"
  have e': "e' = e\<lparr>ev_file := fst ?op\<rparr>" and op: "?op = (fst ?op, None)"
    using assms(2-5) UserStep by (auto simp: run_op_ok prod_eq_iff)
  have has: "has_users ?tag cfg"
    using assms(2) UserStep by simp
  then obtain vs i m us loc where *: "findInbound cfg ?tag = Inr (vs, i, m)" "usersAccessor m False = Inr (us, loc)"
    by (auto simp: has_users_def)
  from cm_AddUser_plain [OF assms(1) has op] obtain cfg' where
    cfg': "fst ?op = written_file cfg'" "plain_cfg cfg'" "\<forall>t. has_users t cfg \<longrightarrow> has_users t cfg'"
    by blast
  have "canonical (JObj cfg)"
    using assms(1) by (simp add: plain_cfg_def)
  then have "cm_DeleteUser ?tag (SubID (ch_Item c)) WriteOk (written_file cfg') = (written_file cfg, None)"
    using add_delete_user [OF _ * op] cfg'(1) by simp
  with that [of cfg'] cfg' e' assms(2,4) UserStep show thesis
    by (simp add: run_op_ok)
qed

lemma rollback_loop_append:
  "rollback_loop m xs e = (e1, None) \<Longrightarrow> rollback_loop m (xs @ ys) e = rollback_loop m ys e1"
  by (induction xs arbitrary: e) (auto split: prod.splits option.splits)

lemma creations_undone:
  assumes "plain_cfg cfg" and "\<forall>s \<in> set ss. creation cfg s" and "ev_file e = written_file cfg" and "ev_writes e = []"
    and "execute_loop (Manager rl) executed ss e = (e', None)"
  shows "ev_writes e' = [] \<and> (\<forall>e2. ev_file e2 = ev_file e' \<longrightarrow> ev_writes e2 = [] \<longrightarrow>
    rollback_loop (Manager rl) (rev ss) e2 = (e2\<lparr>ev_file := written_file cfg\<rparr>, None))"
  using assms
proof (induction ss arbitrary: cfg executed e)
  case Nil
  then show ?case by auto
next
  case (Cons s ss)
  from Cons.prems(5) obtain e1 where step: "step_execute s e = (e1, None)"
    and rest: "execute_loop (Manager rl) (executed @ [s]) ss e1 = (e', None)"
    by (auto simp: Execute_step_def Let_def split: prod.splits option.splits)
  from Cons.prems(1) _ Cons.prems(3,4) step obtain cfg1 where
    cfg1: "ev_file e1 = written_file cfg1" "ev_writes e1 = []" "plain_cfg cfg1"
      "\<And>t. has_users t cfg \<Longrightarrow> has_users t cfg1"
    and undo: "\<And>e2. ev_file e2 = written_file cfg1 \<Longrightarrow> ev_writes e2 = [] \<Longrightarrow>
       step_rollback s e2 = (e2\<lparr>ev_file := written_file cfg\<rparr>, None)"
    by (rule creation_undone) (use Cons.prems(2) in auto)
  have "\<forall>x \<in> set ss. creation cfg1 x"
  proof
    fix x
    assume "x \<in> set ss"
    with Cons.prems(2) have "creation cfg x"
      by simp
    with cfg1(4) show "creation cfg1 x"
      by (cases x) auto
  qed
  from Cons.IH [OF cfg1(3) this cfg1(1,2) rest] have IH: "ev_writes e' = []"
    "\<And>e2. ev_file e2 = ev_file e' \<Longrightarrow> ev_writes e2 = [] \<Longrightarrow>
       rollback_loop (Manager rl) (rev ss) e2 = (e2\<lparr>ev_file := written_file cfg1\<rparr>, None)"
    by blast+
  have "rollback_loop (Manager rl) (rev (s # ss)) e2 = (e2\<lparr>ev_file := written_file cfg\<rparr>, None)"
    if "ev_file e2 = ev_file e'" "ev_writes e2 = []" for e2
    using rollback_loop_append [OF IH(2) [OF that], of "[s]"] undo [of "e2\<lparr>ev_file := written_file cfg1\<rparr>"] that
    by (simp add: Rollback_step_def)
  with IH(1) show ?case
    by blast
qed

section \<open>Properties\<close>

text \<open>
  The steps of a plan are exactly its changes, each once, in the order the dependencies ask
  for: inbounds are created and updated before any user is touched, users are created, updated
  and deleted in that order, and inbounds are deleted last.
\<close>

theorem buildSteps_ordered:
  "mset (buildSteps ics ucs) = mset (map InboundStep ics @ map UserStep ucs) \<and>
   sorted (map rank (buildSteps ics ucs)) \<and> StepsCount (NewPlanWithConfigManager ics ucs m) = length ics + length ucs"
proof -
  have "length (buildSteps ics ucs) = length ics + length ucs"
    using mset_buildSteps [of ics ucs] by (metis length_append length_map size_mset)
  then show ?thesis
    using mset_buildSteps sorted_buildSteps by (simp add: StepsCount_def NewPlanWithConfigManager_def)
qed

lemma plan_converges:
  assumes "is_order r1" and "is_order r2" and "file_ok (ev_file e)"
    and "set (file_tags (ev_file e)) = Tag ` set current"
    and "\<forall>i \<in> set desired. inbound_wf i" and "\<forall>i \<in> set current. inbound_wf i"
    and "p = NewPlanWithConfigManager (DiffInbounds r1 r2 desired current) ucs (Manager rl)"
    and "Execute p e = (e', None)"
  shows "set (file_tags (ev_file e')) = Tag ` set desired \<and> file_ok (ev_file e') \<and>
    (0 < StepsCount p \<longrightarrow> last (ev_log e') = (ev_file e', True))"
proof -
  let ?ics = "DiffInbounds r1 r2 desired current"
  have steps: "pl_steps p = buildSteps ?ics ucs" "pl_manager p = Manager rl"
    using assms(7) by (simp_all add: NewPlanWithConfigManager_def)
  obtain e1 where e1: "plan_tags.exec_all (buildSteps ?ics ucs) e = Some e1" "ev_file e' = ev_file e1"
    "buildSteps ?ics ucs \<noteq> [] \<longrightarrow> ev_log e' = ev_log e1 @ [(ev_file e', True)]"
    using Execute_None [OF assms(8) steps(2)] steps(1) by auto
  have ch: "c \<in> set ?ics \<longleftrightarrow> change_for inboundsDiffer (mget (index_by Tag desired) (Tag (ch_Item c)))
      (mget (index_by Tag current) (Tag (ch_Item c))) = Some c" for c
    unfolding DiffInbounds_def by (rule set_diff_by [OF assms(1,2)])
  have created: "plan_tags.created (buildSteps ?ics ucs) = Tag ` set desired - Tag ` set current"
    unfolding plan_tags.created_def set_buildSteps mkeys_index_by [symmetric]
    by (rule diff_created [OF ch])
  have deleted: "plan_tags.deleted (buildSteps ?ics ucs) = Tag ` set current - Tag ` set desired"
    unfolding plan_tags.deleted_def set_buildSteps mkeys_index_by [symmetric]
    by (rule diff_deleted [OF ch])
  have "\<forall>x \<in> set (buildSteps ?ics ucs). step_wf x"
    using assms(5,6) by (auto simp: set_buildSteps ch change_for_def split: option.splits if_splits)
      (metis index_by_key)+
  from plan_tags.exec_all_tags [OF assms(3) this e1(1)] created deleted assms(4) e1(2,3) steps(1) show ?thesis
    by (auto simp: StepsCount_def)
qed

text \<open>
  C23.  A plan that succeeds converges on the tags, and sing-box has been told.  If the plan was
  made from a diff against the inbounds that are in the file, and executing it reports no error,
  then the tags in the file are the desired ones, and (unless the plan was empty) the last thing
  that happened is a successful reload of this very file.
\<close>

theorem Execute_converges:
  assumes "is_order r1" and "is_order r2" and "file_ok (ev_file e)"
    and "set (file_tags (ev_file e)) = Tag ` set current"
    and "\<forall>i \<in> set desired. inbound_wf i" and "\<forall>i \<in> set current. inbound_wf i"
    and "p = NewPlanWithConfigManager (DiffInbounds r1 r2 desired current) ucs (Manager rl)"
    and "Execute p e = (e', None)"
  shows "set (file_tags (ev_file e')) = Tag ` set desired \<and> file_ok (ev_file e') \<and>
    (0 < StepsCount p \<longrightarrow> last (ev_log e') = (ev_file e', True))"
  using assms by (rule plan_converges)

definition demo_env :: "jobj \<Rightarrow> cm_error option list \<Rightarrow> env" where
  "demo_env cfg reloads = \<lparr>ev_file = written_file cfg, ev_writes = [], ev_reloads = reloads, ev_log = []\<rparr>"

definition demo_inbound :: Inbound where
  "demo_inbound = \<lparr>Tag = ''b'', Type = ''vless'', Listen = [], Port = 0, Options = []\<rparr>"

definition demo_create :: InboundChange where
  "demo_create = \<lparr>ch_Type = ChangeCreate, ch_Item = demo_inbound, ch_Previous = None\<rparr>"

lemma demo_diff: "DiffInbounds id id [demo_inbound] [] = [demo_create]"
  by (simp add: DiffInbounds_def diff_by_def index_by_def mput_def demo_create_def)

lemma demo_loop:
  "\<exists>e1. execute_loop (Manager rl) executed [InboundStep demo_create] (demo_env [(''inbounds'', JArr [])] rs) = (e1, None)
   \<and> ev_reloads e1 = rs"
  by (simp add: Execute_step_def demo_create_def demo_env_def run_op_def cm_AddInbound_def load_edit_save_def
      edit_AddInbound_def inboundsSlice_def saveConfigMap_def)

theorem Execute_converges_witness:
  "\<exists>e'. Execute (NewPlanWithConfigManager (DiffInbounds id id [demo_inbound] []) [] (Manager True))
      (demo_env [(''inbounds'', JArr [])] []) = (e', None) \<and> set (file_tags (ev_file e')) = {''b''}"
proof -
  let ?p = "NewPlanWithConfigManager (DiffInbounds id id [demo_inbound] []) [] (Manager True)"
  let ?e = "demo_env [(''inbounds'', JArr [])] []"
  have p: "pl_steps ?p = [InboundStep demo_create]" "pl_manager ?p = Manager True"
    by (simp_all add: NewPlanWithConfigManager_def demo_diff buildSteps_def demo_create_def)
  obtain e1 where "execute_loop (Manager True) [] [InboundStep demo_create] ?e = (e1, None)" "ev_reloads e1 = []"
    using demo_loop [of True "[]" "[]"] by auto
  then obtain e' where e': "Execute ?p ?e = (e', None)"
    using p by (simp add: Execute_def cm_Reload_def)
  have "is_order (id :: Inbound order)"
    by (simp add: is_order_def)
  from Execute_converges [OF this this _ _ _ _ refl e'] have "set (file_tags (ev_file e')) = Tag ` set [demo_inbound]"
    by (simp add: demo_env_def file_ok_def file_tags_def tags_of_def inbound_objs_def jwf_JObj jwf_JArr mwf_def
        demo_inbound_def inbound_wf_def)
  with e' show ?thesis
    by (auto simp: demo_inbound_def)
qed

text \<open>
  C24.  When the reload fails, creations are taken back without a trace.  From a configuration the
  agent wrote, a plan that only creates inbounds and creates users in inbounds that have a list
  of users, all of whose steps succeed but whose reload fails, is rolled back to the very bytes
  the file had before, an error is reported, and sing-box is told to reload that file.
\<close>

theorem failed_reload_restores_file:
  assumes "plain_cfg cfg" and "ev_file e = written_file cfg" and "ev_writes e = []"
    and "\<forall>s \<in> set (pl_steps p). creation cfg s" and "pl_steps p \<noteq> []" and "pl_manager p = Manager True"
    and "execute_loop (pl_manager p) [] (pl_steps p) e = (e1, None)" and "ev_reloads e1 = Some err # rs"
  shows "\<exists>e' perr ok. Execute p e = (e', Some perr) \<and> ev_file e' = written_file cfg \<and>
    ev_log e' = ev_log e1 @ [(ev_file e1, False), (written_file cfg, ok)]"
proof -
  have undone: "ev_writes e1 = []" "\<And>e2. ev_file e2 = ev_file e1 \<Longrightarrow> ev_writes e2 = [] \<Longrightarrow>
      rollback_loop (Manager True) (rev (pl_steps p)) e2 = (e2\<lparr>ev_file := written_file cfg\<rparr>, None)"
    using creations_undone [OF assms(1,4,2,3)] assms(6,7) by auto
  define e2 where "e2 = e1\<lparr>ev_reloads := rs, ev_log := ev_log e1 @ [(ev_file e1, False)]\<rparr>"
  have reload: "cm_Reload True e1 = (e2, Some err)"
    using assms(8) by (simp add: cm_Reload_def e2_def)
  have "rollbackExecuted (pl_manager p) (pl_steps p) e2 = (e2\<lparr>ev_file := written_file cfg\<rparr>, None)"
    using undone(1) undone(2) [of e2] assms(6) by (simp add: rollbackExecuted_def e2_def)
  moreover obtain r2 e3 where "cm_Reload True (e2\<lparr>ev_file := written_file cfg\<rparr>) = (e3, r2)"
    "ev_file e3 = written_file cfg" "ev_log e3 = ev_log e2 @ [(written_file cfg, r2 = None)]"
    by (simp add: cm_Reload_def Let_def)
  moreover have "ev_log e2 = ev_log e1 @ [(ev_file e1, False)]"
    by (simp add: e2_def)
  ultimately show ?thesis
    using reload assms(5-7) by (cases r2) (auto simp: Execute_def)
qed

theorem failed_reload_restores_file_witness:
  "\<exists>e' perr. Execute (NewPlanWithConfigManager [demo_create] [] (Manager True))
      (demo_env [(''inbounds'', JArr [])] [Some (ReloadFailed ''x'')]) = (e', Some perr) \<and>
    ev_file e' = written_file [(''inbounds'', JArr [])]"
proof -
  let ?p = "NewPlanWithConfigManager [demo_create] [] (Manager True)"
  let ?e = "demo_env [(''inbounds'', JArr [])] [Some (ReloadFailed ''x'')]"
  have p: "pl_steps ?p = [InboundStep demo_create]" "pl_manager ?p = Manager True"
    by (simp_all add: NewPlanWithConfigManager_def buildSteps_def demo_create_def)
  obtain e1 where 1: "execute_loop (Manager True) [] [InboundStep demo_create] ?e = (e1, None)"
    "ev_reloads e1 = [Some (ReloadFailed ''x'')]"
    using demo_loop [of True "[]" "[Some (ReloadFailed ''x'')]"] by auto
  have plain: "plain_cfg [(''inbounds'', JArr [])]"
    by (simp add: plain_cfg_def canonical_def)
  from failed_reload_restores_file [OF plain, of ?e ?p e1 "ReloadFailed ''x''" "[]"] 1 p show ?thesis
    by (auto simp: demo_env_def demo_create_def)
qed

text \<open>
  A step that fails is itself rolled back, and the rollback of a create step is a deletion:
  when a plan wants to create an inbound that has come into the file in the meantime, it
  reports \<open>inbound already exists\<close>, and the inbound that was there is gone from the file, its
  users included.
\<close>

theorem failed_create_deletes_inbound:
  assumes "loadConfigMap (ev_file e) = Inr cfg" and "jwf (JObj cfg)" and "ev_writes e = []"
    and "ch_Type c = ChangeCreate" and "Tag (ch_Item c) \<in> set (tags_of cfg)"
    and "pl_steps p = InboundStep c # ss" and "pl_manager p = Manager rl"
  shows "\<exists>e'. Execute p e = (e', Some (StepFailed 0 (InboundStep c) (InboundExists (Tag (ch_Item c))))) \<and>
    set (file_tags (ev_file e')) = set (tags_of cfg) - {Tag (ch_Item c)}"
proof -
  let ?t = "Tag (ch_Item c)"
  obtain vs where vs: "mget cfg ''inbounds'' = Some (JArr vs)" "list_ex (has_tag ?t) vs"
  proof (cases "inboundsSlice cfg False")
    case (Inl err)
    with assms(5) show ?thesis
      by (auto simp: inboundsSlice_def tags_of_def inbound_objs_def split: option.split_asm jv.split_asm)
  next
    case (Inr vs)
    with assms(5) inboundsSlice_ok [OF Inr] that [of vs] show ?thesis
      by (simp add: inboundsSlice_False ex_has_tag)
  qed
  have add: "step_execute (InboundStep c) e = (e, Some (InboundExists ?t))"
    using assms(1,3,4) vs
    by (simp add: run_op_ok cm_AddInbound_def load_edit_save_def edit_AddInbound_def inboundsSlice_def)
  obtain f' where del: "cm_DeleteInbound ?t WriteOk (ev_file e) = (f', None)"
    using assms(1) vs
    by (simp add: cm_DeleteInbound_def load_edit_save_def edit_DeleteInbound_def inboundsSlice_def saveConfigMap_def)
  have "file_ok (ev_file e)"
    using assms(1,2) by (auto simp: file_ok_def)
  from cm_tags(3) [OF this del] assms(1) have "set (file_tags f') = set (tags_of cfg) - {?t}"
    by (auto simp: file_tags_def)
  moreover have "rollbackExecuted (Manager rl) [InboundStep c] e = (e\<lparr>ev_file := f'\<rparr>, None)"
    using del assms(3,4) by (simp add: rollbackExecuted_def Rollback_step_def run_op_ok)
  ultimately show ?thesis
    using add assms(6,7) by (simp add: Execute_def Execute_step_def)
qed

theorem failed_create_deletes_inbound_witness:
  "\<exists>e'. Execute (NewPlanWithConfigManager [demo_create] [] (Manager True))
      (demo_env [(''inbounds'', JArr [JObj [(''tag'', JStr ''b'')]])] []) =
      (e', Some (StepFailed 0 (InboundStep demo_create) (InboundExists ''b''))) \<and>
    set (file_tags (ev_file e')) = {}"
proof -
  let ?p = "NewPlanWithConfigManager [demo_create] [] (Manager True)"
  let ?cfg = "[(''inbounds'', JArr [JObj [(''tag'', JStr ''b'')]])]"
  let ?e = "demo_env [(''inbounds'', JArr [JObj [(''tag'', JStr ''b'')]])] []"
  have p: "pl_steps ?p = InboundStep demo_create # []" "pl_manager ?p = Manager True"
    by (simp_all add: NewPlanWithConfigManager_def buildSteps_def demo_create_def)
  have "\<exists>e'. Execute ?p ?e = (e', Some (StepFailed 0 (InboundStep demo_create)
      (InboundExists (Tag (ch_Item demo_create))))) \<and>
    set (file_tags (ev_file e')) = set (tags_of ?cfg) - {Tag (ch_Item demo_create)}"
    by (rule failed_create_deletes_inbound [OF _ _ _ _ _ p])
      (simp_all add: demo_env_def demo_create_def demo_inbound_def jwf_JObj jwf_JArr mwf_def tags_of_def
        inbound_objs_def getString_def)
  then show ?thesis
    by (simp add: demo_create_def demo_inbound_def tags_of_def inbound_objs_def getString_def)
qed

end
