(* ===== verification/SingBoxClient.thy ===== *)
theory SingBoxClient
  imports ConfigClient
begin

text \<open>
  The interface \<open>SingBoxClient\<close> of \<open>internal/sync/engine.go\<close>, through which the REST handlers and
  the sync engine use the configuration, as a record of operations on a state, the contract that
  the handlers rely on (locale \<open>sing_box_client\<close>), and the proof that \<open>ConfigClient\<close> keeps it.
  An error is its text; the panic of \<open>loadRootConfig\<close> on a file \<open>null\<close> is represented by an error.
\<close>

section \<open>The interface\<close>

record 's SingBoxClient =
  GetInbounds :: "'s \<Rightarrow> string + Inbound list"
  GetUsers :: "'s \<Rightarrow> string + User list"
  CreateInbound :: "Inbound \<Rightarrow> 's \<Rightarrow> 's \<times> string option"
  UpdateInbound :: "Inbound \<Rightarrow> 's \<Rightarrow> 's \<times> string option"
  DeleteInbound :: "string \<Rightarrow> 's \<Rightarrow> 's \<times> string option"
  CreateUser :: "User \<Rightarrow> 's \<Rightarrow> 's \<times> string option"
  UpdateUser :: "User \<Rightarrow> 's \<Rightarrow> 's \<times> string option"
  DeleteUser :: "string \<Rightarrow> 's \<Rightarrow> 's \<times> string option"

section \<open>ConfigClient as an implementation\<close>

text \<open>
  The path, the directory, and the environment of the next operation: what the system calls do, the
  text of a system error, and the next value of \<open>uuid.NewString()\<close>.
\<close>

record client =
  configPath :: string
  disk :: fs
  c_io :: save_io
  c_oserr :: string
  c_uuid :: string

fun cc_error_text :: "string \<Rightarrow> cc_error \<Rightarrow> string" where
  "cc_error_text os CC_Read = ''failed to read config: '' @ os"
| "cc_error_text os CC_Parse = ''failed to parse config: '' @ os"
| "cc_error_text os CC_NilMapPanic = ''assignment to entry in nil map''"
| "cc_error_text os CC_Backup = ''failed to read current config for backup: '' @ os"
| "cc_error_text os CC_Write = ''failed to write config file: '' @ os"
| "cc_error_text os (CC_InboundExists tag) = ''inbound with tag '' @ tag @ '' already exists''"
| "cc_error_text os (CC_InboundNotFound tag) = ''inbound with tag '' @ tag @ '' not found''"
| "cc_error_text os (CC_UserExists subID) = ''user with subID '' @ subID @ '' already exists''"
| "cc_error_text os (CC_UserNotFound subID) = ''user with subID '' @ subID @ '' not found''"

definition cc_read :: "(cfgfile \<Rightarrow> cc_error + 'a) \<Rightarrow> client \<Rightarrow> string + 'a" where
  "cc_read get c =
     (case get (mget (disk c) (configPath c)) of
        Inl e \<Rightarrow> Inl (cc_error_text (c_oserr c) e)
      | Inr x \<Rightarrow> Inr x)"

definition cc_run ::
  "(save_io \<Rightarrow> string \<Rightarrow> fs \<Rightarrow> fs list \<times> (cc_error + saved)) \<Rightarrow> client \<Rightarrow> client \<times> string option" where
  "cc_run op c =
     (case op (c_io c) (configPath c) (disk c) of
        (trace, r) \<Rightarrow>
          (c\<lparr>disk := last trace\<rparr>, case r of Inl e \<Rightarrow> Some (cc_error_text (c_oserr c) e) | Inr _ \<Rightarrow> None))"

definition config_client :: "client SingBoxClient" where
  "config_client =
     \<lparr>GetInbounds = cc_read cc_GetInbounds,
      GetUsers = cc_read cc_GetUsers,
      CreateInbound = \<lambda>i. cc_run (cc_CreateInbound i),
      UpdateInbound = \<lambda>i. cc_run (cc_UpdateInbound i),
      DeleteInbound = \<lambda>tag. cc_run (cc_DeleteInbound tag),
      CreateUser = \<lambda>u c. cc_run (cc_CreateUser (c_uuid c) u) c,
      UpdateUser = \<lambda>u c. cc_run (cc_UpdateUser (c_uuid c) u) c,
      DeleteUser = \<lambda>subID. cc_run (cc_DeleteUser subID)\<rparr>"

text \<open>
  A client in working order: the system calls succeed, the temporary name is free, and the file
  holds a well-formed JSON object with an \<open>inbounds\<close> section.
\<close>

definition loaded :: "client \<Rightarrow> cc_error + jobj" where
  "loaded c = loadRootConfig (mget (disk c) (configPath c))"

definition client_ok :: "client \<Rightarrow> bool" where
  "client_ok c \<longleftrightarrow>
     io_ok (c_io c) \<and> mget (disk c) (tmpName (sio_write (c_io c))) = None \<and>
     tmpName (sio_write (c_io c)) \<noteq> configPath c @ ''.agent.bak'' \<and>
     (\<exists>rt. loaded c = Inr rt \<and> jwf (JObj rt) \<and> canonical (JObj rt))"

definition users_of :: "jobj \<Rightarrow> User list" where
  "users_of rt = concat (map inbound_users (getInbounds rt))"

lemma get_simps:
  "loaded c = Inr rt \<Longrightarrow> GetInbounds config_client c = Inr (map inboundFromMap (getInbounds rt))"
  "loaded c = Inr rt \<Longrightarrow> GetUsers config_client c = Inr (users_of rt)"
  by (simp_all add: config_client_def cc_read_def cc_GetInbounds_def cc_GetUsers_def loaded_def users_of_def)

section \<open>Running an edit\<close>

lemma file_after_edit:
  assumes "client_ok c" and "loaded c = Inr rt" and "cc_edit edit" and "edit rt = Inr rt'"
  defines "c' \<equiv> fst (cc_run (cc_edit_save edit) c)"
  shows "snd (cc_run (cc_edit_save edit) c) = None" and "client_ok c'"
    and "loaded c' = Inr (modelToMap (syncStatsUsers rt'))" and "jwf (JObj rt')"
    and "c_uuid c' = c_uuid c"
proof -
  let ?tmp = "tmpName (sio_write (c_io c))"
  from assms(1,2) have ok: "io_ok (c_io c)" "mget (disk c) ?tmp = None" "?tmp \<noteq> configPath c @ ''.agent.bak''"
    and wf: "jwf (JObj rt)"
    by (auto simp: client_ok_def)
  obtain old where old: "mget (disk c) (configPath c) = Some old"
    using assms(2) by (auto simp: loaded_def loadRootConfig_def split: option.splits)
  obtain trace s where run: "cc_edit_save edit (c_io c) (configPath c) (disk c) = (trace, Inr s)"
    using cc_edit_save_succeeds [where edit = edit, OF ok(1) assms(2) [unfolded loaded_def] assms(4)] by blast
  note atomic = cc_edit_save_atomic [OF run old ok(2,3)]
  obtain "is" where "is": "rt' = setInbounds is rt" "\<forall>i \<in> set is. jwf (JObj i)"
    using cc_edit_shape [OF assms(3) wf assms(4)] by blast
  then show wf': "jwf (JObj rt')"
    using wf by (simp add: jwf_setInbounds)
  have json: "configJSON s = MarshalIndent (JObj (syncStatsUsers rt'))"
    using cc_edit_save_json [OF run] assms(2,4) by (auto simp: loaded_def)
  have "mwf (syncStatsUsers rt')" "mget (syncStatsUsers rt') ''inbounds'' \<noteq> None"
    using "is"(1) wf by (simp_all add: setInbounds_def jwf_JObj mget_syncStatsUsers)
  then have load: "loadRootConfig (Some (configJSON s)) = Inr (modelToMap (syncStatsUsers rt'))"
    unfolding json by (rule loadRootConfig_Marshal)
  show "snd (cc_run (cc_edit_save edit) c) = None" "c_uuid c' = c_uuid c"
    by (simp_all add: cc_run_def run c'_def)
  show loaded': "loaded c' = Inr (modelToMap (syncStatsUsers rt'))"
    using atomic load by (simp add: loaded_def c'_def cc_run_def run)
  have "mget (last trace) ?tmp = None"
    using atomic by simp
  then show "client_ok c'"
    using ok loaded' jwf_modelToMap [OF jwf_syncStatsUsers [OF wf']]
    by (simp add: client_ok_def c'_def cc_run_def run)
qed

section \<open>Inbounds\<close>

lemma canonical_modelToMap_id: "canonical (JObj m) \<Longrightarrow> modelToMap m = m"
  by (simp add: canonical_def canon_JObj del: canon.simps(7))

lemma canonical_getInbounds: "canonical (JObj rt) \<Longrightarrow> m \<in> set (getInbounds rt) \<Longrightarrow> modelToMap m = m"
  by (rule canonical_modelToMap_id)
    (auto simp: getInbounds_def arr_at_Some set_objects canonical_JArr split: option.splits dest!: sym [of "Some _"] canonical_mget)

lemma map_modelToMap_id: "canonical (JObj rt) \<Longrightarrow> map modelToMap (getInbounds rt) = getInbounds rt"
  by (simp add: map_idI canonical_getInbounds)

text \<open>
  An inbound that survives a round trip through the file: its options do not name one of the five
  keys that are kept outside of the options, and its port is a number that JSON keeps.
\<close>

definition inbound_fits :: "Inbound \<Rightarrow> bool" where
  "inbound_fits i \<longleftrightarrow> inbound_wf i \<and> mkeys (Options i) \<inter> set inbound_keys = {} \<and> \<bar>Port i\<bar> < 2 ^ 53"

definition normal_inbound :: "Inbound \<Rightarrow> Inbound" where
  "normal_inbound i = i\<lparr>Options := modelToMap (Options i)\<rparr>"

lemma put_all_fresh: "mwf new \<Longrightarrow> mkeys new \<inter> mkeys m = {} \<Longrightarrow> put_all new m = m @ new"
proof (induction new arbitrary: m)
  case (Cons p new)
  obtain k v where p: "p = (k, v)"
    by fastforce
  have "mput k v m = m @ [(k, v)]"
    using Cons.prems(2) p by (induction m) (auto simp: mput_def mkeys_def)
  moreover have "put_all new (m @ [(k, v)]) = (m @ [(k, v)]) @ new"
    using Cons.prems p by (intro Cons.IH) (auto simp: mwf_def mkeys_def)
  ultimately show ?case
    by (simp add: put_all_def p)
qed (simp add: put_all_def)

lemma getInt_float: "\<bar>n\<bar> < 2 ^ 53 \<Longrightarrow> int_of_float (float64_of_int n) = n"
  by (simp add: float64_of_int_exact int_of_float_exact)

lemma newInbound_fits:
  assumes "inbound_fits i"
  shows "newInbound i = ([(''type'', JStr (Type i)), (''tag'', JStr (Tag i))]
      @ opt_string ''listen'' (Listen i) @ opt_int ''listen_port'' (Port i)) @ Options i"
  unfolding newInbound_def
  by (rule put_all_fresh)
    (use assms in \<open>auto simp: inbound_fits_def inbound_wf_def jwf_JObj inbound_keys_def mkeys_def opt_string_def opt_int_def
      disjoint_iff\<close>)

lemma inboundFromMap_new:
  assumes "inbound_fits i"
  shows "inboundFromMap (modelToMap (newInbound i)) = normal_inbound i"
proof -
  let ?m = "newInbound i"
  have wf: "mwf ?m"
    using assms jwf_newInbound [of i] by (simp add: inbound_fits_def jwf_JObj)
  have opts: "mget (Options i) k = None" if "k \<in> set inbound_keys" for k
    using assms that mkeys_mget [of k "Options i"] by (auto simp: inbound_fits_def)
  have "mget ?m ''tag'' = Some (JStr (Tag i))" "mget ?m ''type'' = Some (JStr (Type i))"
    "mget ?m ''listen'' = (if Listen i = [] then None else Some (JStr (Listen i)))"
    "mget ?m ''listen_port'' = (if Port i = 0 then None else Some (JInt (Port i)))" "mget ?m ''port'' = None"
    using opts by (simp_all add: newInbound_fits [OF assms] mget_append opt_string_def opt_int_def inbound_keys_def)
  then have fields: "getString ?m ''tag'' = Tag i" "getString ?m ''type'' = Type i" "getString ?m ''listen'' = Listen i"
    "getInt (modelToMap ?m) [''listen_port'', ''port''] = Port i"
    using wf assms by (simp_all add: getString_def mget_modelToMap getInt_float inbound_fits_def)
  have "filter (\<lambda>p. fst p \<notin> set inbound_keys) (Options i) = Options i"
    using assms by (intro filter_True) (auto simp: inbound_fits_def mkeys_def)
  then have "filter (\<lambda>p. fst p \<notin> set inbound_keys) (map (map_prod id canon) ?m) = map (map_prod id canon) (Options i)"
    by (simp add: newInbound_fits [OF assms] filter_map comp_def inbound_keys_def opt_string_def opt_int_def)
  then have "filter (\<lambda>p. fst p \<notin> set inbound_keys) (modelToMap ?m) = modelToMap (Options i)"
    by (simp add: modelToMap_simp filter_sort)
  with fields wf show ?thesis
    by (simp add: inboundFromMap_def normal_inbound_def getString_modelToMap)
qed

lemma cc_run_error:
  "loaded c = Inr rt \<Longrightarrow> edit rt = Inl e \<Longrightarrow> cc_run (cc_edit_save edit) c = (c, Some (cc_error_text (c_oserr c) e))"
  by (simp add: cc_run_def cc_edit_save_def loaded_def)

text \<open>The tags that are listed, and those the edits compare with.\<close>

lemma Tag_inboundFromMap [simp]: "Tag (inboundFromMap m) = getString m ''tag''"
  by (simp add: inboundFromMap_def)

lemma tags_listed: "Tag ` set (map inboundFromMap ms) = (\<lambda>m. getString m ''tag'') ` set ms"
  by (simp add: image_image)

text \<open>After an edit that succeeds, the inbounds that are listed are those of the edited map.\<close>

lemma run_edit:
  assumes "client_ok c" and "loaded c = Inr rt" and "cc_edit edit" and "edit rt = Inr rt'"
  shows "\<exists>c'. cc_run (cc_edit_save edit) c = (c', None) \<and> client_ok c' \<and> c_uuid c' = c_uuid c \<and>
    GetInbounds config_client c' = Inr (map (inboundFromMap \<circ> modelToMap) (getInbounds rt')) \<and>
    GetUsers config_client c' = Inr (users_of rt')"
proof -
  note run = file_after_edit [OF assms]
  have wf: "jwf (JObj (syncStatsUsers rt'))"
    using run(4) by (rule jwf_syncStatsUsers)
  then have gets: "getInbounds (modelToMap (syncStatsUsers rt')) = map modelToMap (getInbounds rt')"
    by (simp add: getInbounds_modelToMap jwf_JObj)
  then have "users_of (modelToMap (syncStatsUsers rt')) = users_of rt'"
    using jwf_getInbounds [OF run(4)] by (simp add: users_of_def inbound_users_modelToMap cong: map_cong)
  with run gets get_simps [OF run(3)] show ?thesis
    by (intro exI [of _ "fst (cc_run (cc_edit_save edit) c)"]) (simp add: prod_eq_iff)
qed

lemma client_okE:
  assumes "client_ok c"
  obtains rt where "loaded c = Inr rt" "jwf (JObj rt)" "canonical (JObj rt)"
  using assms by (auto simp: client_ok_def)

lemma client_CreateInbound:
  assumes ok: "client_ok c" and gets: "GetInbounds config_client c = Inr is" and fits: "inbound_fits i"
  shows "if Tag i \<in> Tag ` set is
    then \<exists>e. CreateInbound config_client i c = (c, Some e)
    else \<exists>c'. CreateInbound config_client i c = (c', None) \<and> client_ok c' \<and>
      GetInbounds config_client c' = Inr (is @ [normal_inbound i])"
proof -
  obtain rt where rt: "loaded c = Inr rt" "jwf (JObj rt)" "canonical (JObj rt)"
    using ok by (rule client_okE)
  have is_rt: "is = map inboundFromMap (getInbounds rt)"
    using gets get_simps(1) [OF rt(1)] by simp
  have exists: "list_ex (\<lambda>e. getString e ''tag'' = Tag i) (getInbounds rt) \<longleftrightarrow> Tag i \<in> Tag ` set is"
    by (simp add: is_rt list_ex_iff image_iff) metis
  have edit: "cc_edit (cc_edit_CreateInbound i)"
    using fits by (auto simp: cc_edit_def inbound_fits_def)
  show ?thesis
  proof (cases "Tag i \<in> Tag ` set is")
    case True
    with exists cc_run_error [OF rt(1), of "cc_edit_CreateInbound i"] show ?thesis
      by (simp add: config_client_def cc_CreateInbound_def cc_edit_CreateInbound_def)
  next
    case False
    let ?rt' = "setInbounds (getInbounds rt @ [newInbound i]) rt"
    have "cc_edit_CreateInbound i rt = Inr ?rt'"
      using False exists by (simp add: cc_edit_CreateInbound_def)
    from run_edit [OF ok rt(1) edit this] obtain c' where
      "cc_run (cc_CreateInbound i) c = (c', None)" "client_ok c'"
      "GetInbounds config_client c' = Inr (map (inboundFromMap \<circ> modelToMap) (getInbounds ?rt'))"
      by (auto simp: cc_CreateInbound_def)
    with False show ?thesis
      by (auto simp: config_client_def is_rt inboundFromMap_new [OF fits] canonical_getInbounds [OF rt(3)])
  qed
qed

lemma findInboundIndex_split:
  assumes "findInboundIndex ms tag = Some n"
  shows "ms = take n ms @ ms ! n # drop (Suc n) ms \<and> getString (ms ! n) ''tag'' = tag \<and>
    tag \<notin> (\<lambda>m. getString m ''tag'') ` set (take n ms)"
proof -
  note n = findInboundIndex_Some [OF assms]
  moreover have "tag \<notin> (\<lambda>m. getString m ''tag'') ` set (take n ms)"
    using n by (fastforce simp: in_set_conv_nth)
  ultimately show ?thesis
    by (simp add: id_take_nth_drop [symmetric])
qed

lemma client_DeleteInbound:
  assumes ok: "client_ok c" and gets: "GetInbounds config_client c = Inr is"
  shows "if tag \<in> Tag ` set is
    then \<exists>a x b c'. is = a @ x # b \<and> Tag x = tag \<and> tag \<notin> Tag ` set a \<and>
      DeleteInbound config_client tag c = (c', None) \<and> client_ok c' \<and> GetInbounds config_client c' = Inr (a @ b)
    else \<exists>e. DeleteInbound config_client tag c = (c, Some e)"
proof -
  obtain rt where rt: "loaded c = Inr rt" "jwf (JObj rt)" "canonical (JObj rt)"
    using ok by (rule client_okE)
  let ?ms = "getInbounds rt"
  have is_rt: "is = map inboundFromMap ?ms"
    using gets get_simps(1) [OF rt(1)] by simp
  have del: "DeleteInbound config_client tag c = cc_run (cc_edit_save (cc_edit_DeleteInbound tag)) c"
    by (simp add: config_client_def cc_DeleteInbound_def)
  show ?thesis
  proof (cases "findInboundIndex ?ms tag")
    case None
    then have "tag \<notin> Tag ` set is"
      by (simp add: findInboundIndex_None is_rt image_image)
    with None cc_run_error [OF rt(1), of "cc_edit_DeleteInbound tag"] show ?thesis
      by (simp add: del cc_edit_DeleteInbound_def)
  next
    case (Some n)
    let ?a = "take n ?ms" and ?b = "drop (Suc n) ?ms"
    have ms: "?ms = ?a @ ?ms ! n # ?b" "getString (?ms ! n) ''tag'' = tag" "tag \<notin> (\<lambda>m. getString m ''tag'') ` set ?a"
      using findInboundIndex_split [OF Some] by auto
    have "cc_edit (cc_edit_DeleteInbound tag)" "cc_edit_DeleteInbound tag rt = Inr (setInbounds (?a @ ?b) rt)"
      using Some by (auto simp: cc_edit_def cc_edit_DeleteInbound_def Let_def)
    from run_edit [OF ok rt(1) this] obtain c' where c': "DeleteInbound config_client tag c = (c', None)" "client_ok c'"
      "GetInbounds config_client c' = Inr (map (inboundFromMap \<circ> modelToMap) (?a @ ?b))"
      by (auto simp: del)
    have "map (inboundFromMap \<circ> modelToMap) (?a @ ?b) = map inboundFromMap ?a @ map inboundFromMap ?b"
      using canonical_getInbounds [OF rt(3)] by (auto dest!: in_set_takeD in_set_dropD)
    moreover have "is = map inboundFromMap ?a @ inboundFromMap (?ms ! n) # map inboundFromMap ?b"
      unfolding is_rt by (subst ms(1)) simp
    moreover have "tag \<in> Tag ` set is"
      using ms(2) findInboundIndex_Some [OF Some] unfolding is_rt tags_listed by (metis image_eqI nth_mem)
    moreover have "Tag (inboundFromMap (?ms ! n)) = tag" "tag \<notin> Tag ` set (map inboundFromMap ?a)"
      using ms(2,3) by (simp_all only: tags_listed Tag_inboundFromMap not_False_eq_True)
    ultimately show ?thesis
      using c' by (simp only: if_True) blast
  qed
qed

lemma mget_put_all_other: "k \<notin> mkeys new \<Longrightarrow> mget (put_all new m) k = mget m k"
  by (induction new arbitrary: m) (auto simp: put_all_def mkeys_def)

text \<open>What an update makes of the listed inbound.\<close>

definition updated_inbound :: "Inbound \<Rightarrow> Inbound \<Rightarrow> Inbound \<Rightarrow> bool" where
  "updated_inbound i x x' \<longleftrightarrow>
     Tag x' = Tag x \<and> Type x' = Type i \<and> Listen x' = (if Listen i = [] then Listen x else Listen i) \<and>
     Port x' = (if Port i = 0 then Port x else Port i)"

lemma getInt_cong: "(\<And>k. k \<in> set ks \<Longrightarrow> mget m k = mget m' k) \<Longrightarrow> getInt m ks = getInt m' ks"
  by (induction ks) (simp_all split: option.split jv.split)

lemma updateExisting_listed:
  assumes "inbound_fits i" and "jwf (JObj m)" and "canonical (JObj m)"
  shows "updated_inbound i (inboundFromMap m) (inboundFromMap (modelToMap (updateExisting i m)))"
proof -
  let ?m' = "updateExisting i m"
  have wf: "mwf ?m'"
    using assms jwf_updateExisting [of i m] by (simp add: inbound_fits_def jwf_JObj)
  have can: "canon v = v" if "mget m k = Some v" for k v
    using canonical_mget [OF assms(3) that] by (simp add: canonical_def)
  have opts: "k \<in> set inbound_keys \<Longrightarrow> k \<notin> mkeys (Options i)" for k
    using assms(1) by (auto simp: inbound_fits_def)
  have keys: "k \<in> set inbound_keys \<Longrightarrow> mget ?m' k =
     (if k = ''type'' then Some (JStr (Type i)) else if k = ''listen'' \<and> Listen i \<noteq> [] then Some (JStr (Listen i))
      else if k = ''listen_port'' \<and> Port i \<noteq> 0 then Some (JInt (Port i)) else mget m k)" for k
    using opts [of k]
    by (cases "Listen i = []"; cases "Port i = 0") (simp_all add: updateExisting_def Let_def mget_put_all_other)
  have "mget (modelToMap ?m') k = map_option canon (mget ?m' k)" for k
    using wf by (rule mget_modelToMap)
  then have m': "mget (modelToMap ?m') k =
     (if k = ''type'' then Some (JStr (Type i)) else if k = ''listen'' \<and> Listen i \<noteq> [] then Some (JStr (Listen i))
      else if k = ''listen_port'' \<and> Port i \<noteq> 0 then Some (JFloat (float64_of_int (Port i))) else mget m k)"
    if "k \<in> set inbound_keys" for k
    using keys [OF that] can [of k] by (cases "mget m k") simp_all
  have "getString (modelToMap ?m') ''tag'' = getString m ''tag''" "getString (modelToMap ?m') ''type'' = Type i"
    "getString (modelToMap ?m') ''listen'' = (if Listen i = [] then getString m ''listen'' else Listen i)"
    by (simp_all add: getString_def m' inbound_keys_def)
  moreover have "getInt (modelToMap ?m') [''listen_port'', ''port''] =
      (if Port i = 0 then getInt m [''listen_port'', ''port''] else Port i)"
  proof (cases "Port i = 0")
    case True
    then have "getInt (modelToMap ?m') [''listen_port'', ''port''] = getInt m [''listen_port'', ''port'']"
      by (intro getInt_cong) (auto simp: m' inbound_keys_def)
    with True show ?thesis
      by simp
  next
    case False
    with assms(1) show ?thesis
      by (simp add: m' inbound_keys_def inbound_fits_def getInt_float)
  qed
  ultimately show ?thesis
    by (simp add: updated_inbound_def inboundFromMap_def)
qed

lemma client_UpdateInbound:
  assumes ok: "client_ok c" and gets: "GetInbounds config_client c = Inr is" and fits: "inbound_fits i"
  shows "if Tag i \<in> Tag ` set is
    then \<exists>a x x' b c'. is = a @ x # b \<and> Tag x = Tag i \<and> updated_inbound i x x' \<and>
      UpdateInbound config_client i c = (c', None) \<and> client_ok c' \<and> GetInbounds config_client c' = Inr (a @ x' # b)
    else \<exists>e. UpdateInbound config_client i c = (c, Some e)"
proof -
  obtain rt where rt: "loaded c = Inr rt" "jwf (JObj rt)" "canonical (JObj rt)"
    using ok by (rule client_okE)
  let ?ms = "getInbounds rt"
  have is_rt: "is = map inboundFromMap ?ms"
    using gets get_simps(1) [OF rt(1)] by simp
  have upd: "UpdateInbound config_client i c = cc_run (cc_edit_save (cc_edit_UpdateInbound i)) c"
    by (simp add: config_client_def cc_UpdateInbound_def)
  show ?thesis
  proof (cases "findInboundIndex ?ms (Tag i)")
    case None
    then have "Tag i \<notin> Tag ` set is"
      by (simp add: findInboundIndex_None is_rt image_image)
    with None cc_run_error [OF rt(1), of "cc_edit_UpdateInbound i"] show ?thesis
      by (simp add: upd cc_edit_UpdateInbound_def)
  next
    case (Some n)
    let ?a = "take n ?ms" and ?b = "drop (Suc n) ?ms" and ?x' = "updateExisting i (?ms ! n)"
    have ms: "?ms = ?a @ ?ms ! n # ?b" "getString (?ms ! n) ''tag'' = Tag i" and n: "n < length ?ms"
      using findInboundIndex_split [OF Some] findInboundIndex_Some [OF Some] by auto
    have "cc_edit (cc_edit_UpdateInbound i)" "cc_edit_UpdateInbound i rt = Inr (setInbounds (?a @ ?x' # ?b) rt)"
      using Some n fits by (auto simp: cc_edit_def cc_edit_UpdateInbound_def Let_def upd_conv_take_nth_drop inbound_fits_def)
    from run_edit [OF ok rt(1) this] obtain c' where c': "UpdateInbound config_client i c = (c', None)" "client_ok c'"
      "GetInbounds config_client c' = Inr (map (inboundFromMap \<circ> modelToMap) (?a @ ?x' # ?b))"
      by (auto simp: upd)
    have "jwf (JObj (?ms ! n))" "canonical (JObj (?ms ! n))"
      using jwf_getInbounds [OF rt(2)] canonical_getInbounds [OF rt(3)] n canonical_modelToMap by (metis nth_mem)+
    then have "updated_inbound i (inboundFromMap (?ms ! n)) (inboundFromMap (modelToMap ?x'))"
      using fits by (intro updateExisting_listed)
    moreover have "map (inboundFromMap \<circ> modelToMap) (?a @ ?x' # ?b) =
        map inboundFromMap ?a @ inboundFromMap (modelToMap ?x') # map inboundFromMap ?b"
      using canonical_getInbounds [OF rt(3)] by (auto dest!: in_set_takeD in_set_dropD)
    moreover have "is = map inboundFromMap ?a @ inboundFromMap (?ms ! n) # map inboundFromMap ?b"
      unfolding is_rt by (subst ms(1)) simp
    moreover have "Tag i \<in> Tag ` set is"
      using ms(2) n unfolding is_rt tags_listed by (metis image_eqI nth_mem)
    moreover have "Tag (inboundFromMap (?ms ! n)) = Tag i"
      using ms(2) by simp
    ultimately show ?thesis
      using c' by (simp only: if_True) blast
  qed
qed

section \<open>Users\<close>

lemma inbound_users_append:
  assumes "SubID u \<noteq> []" and "InboundTag u = getString i ''tag''"
  shows "inbound_users (setInboundUsers (getInboundUsers i @ [JObj (buildProtocolUser fresh t u [])]) i) =
    inbound_users i @ [stored_user fresh t u]"
  using userFromMap_new [OF assms(1), of "getString i ''tag''" fresh t] assms(2)
  by (simp add: inbound_users_def getString_setInboundUsers List.map_filter_def)

text \<open>A user that \<open>GetUsers\<close> lists is found by the test of the edits.\<close>

lemma userFromMap_SubID: "userFromMap m tag = Some u \<Longrightarrow> userMatchesSubID m (SubID u) \<and> InboundTag u = tag \<and> SubID u \<noteq> []"
  by (auto simp: userFromMap_def userMatchesSubID_def Let_def split: if_splits)

lemma in_inbound_users:
  "u \<in> set (inbound_users i) \<longleftrightarrow> (\<exists>m. JObj m \<in> set (getInboundUsers i) \<and> userFromMap m (getString i ''tag'') = Some u)"
  by (auto simp: inbound_users_def List.map_filter_def set_objects image_iff)

lemma listed_user_found:
  assumes "u \<in> set (inbound_users i)"
  shows "list_ex (cc_is_user (SubID u)) (getInboundUsers i)" and "InboundTag u = getString i ''tag''"
proof -
  obtain m where m: "JObj m \<in> set (getInboundUsers i)" "userFromMap m (getString i ''tag'') = Some u"
    using assms by (auto simp: in_inbound_users)
  then show "list_ex (cc_is_user (SubID u)) (getInboundUsers i)" "InboundTag u = getString i ''tag''"
    using userFromMap_SubID [OF m(2)] by (auto simp: list_ex_iff intro: bexI [of _ "JObj m"])
qed

lemma client_CreateUser:
  assumes ok: "client_ok c" and users: "GetUsers config_client c = Inr us" and sub: "SubID u \<noteq> []"
  shows "(\<exists>e. CreateUser config_client u c = (c, Some e)) \<or>
    (\<exists>c' a t b. CreateUser config_client u c = (c', None) \<and> client_ok c' \<and> us = a @ b \<and>
       GetUsers config_client c' = Inr (a @ stored_user (c_uuid c) t u # b))"
proof -
  obtain rt where rt: "loaded c = Inr rt" "jwf (JObj rt)" "canonical (JObj rt)"
    using ok by (rule client_okE)
  let ?ms = "getInbounds rt" and ?edit = "cc_edit_CreateUser (c_uuid c) u"
  have us: "us = users_of rt"
    using users get_simps(2) [OF rt(1)] by simp
  have crt: "CreateUser config_client u c = cc_run (cc_edit_save ?edit) c"
    by (simp add: config_client_def cc_CreateUser_def)
  show ?thesis
  proof (cases "?edit rt")
    case (Inl e)
    with cc_run_error [OF rt(1)] crt show ?thesis
      by simp
  next
    case (Inr rt')
    then obtain n where n: "findInboundIndex ?ms (InboundTag u) = Some n"
      by (auto simp: cc_edit_CreateUser_def Let_def split: option.splits)
    let ?a = "take n ?ms" and ?b = "drop (Suc n) ?ms" and ?i = "?ms ! n"
    let ?t = "getString ?i ''type''"
    let ?i' = "setInboundUsers (getInboundUsers ?i @ [JObj (buildProtocolUser (c_uuid c) ?t u [])]) ?i"
    have ms: "?ms = ?a @ ?i # ?b" "getString ?i ''tag'' = InboundTag u"
      using findInboundIndex_split [OF n] by auto
    have "rt' = setInbounds (?a @ ?i' # ?b) rt"
      using Inr n findInboundIndex_Some [OF n]
      by (auto simp: cc_edit_CreateUser_def Let_def upd_conv_take_nth_drop split: if_splits)
    then have "users_of rt' = (concat (map inbound_users ?a) @ inbound_users ?i)
        @ stored_user (c_uuid c) ?t u # concat (map inbound_users ?b)"
      using inbound_users_append [OF sub ms(2) [symmetric]] by (simp add: users_of_def)
    moreover have "us = (concat (map inbound_users ?a) @ inbound_users ?i) @ concat (map inbound_users ?b)"
      unfolding us users_of_def by (subst ms(1)) simp
    moreover have edit: "cc_edit ?edit"
      by (auto simp: cc_edit_def)
    ultimately show ?thesis
      using run_edit [OF ok rt(1) edit Inr] crt by metis
  qed
qed

text \<open>Deleting, in one inbound: the entries with the subscription id go, all others stay.\<close>

lemma inbound_users_remove:
  "inbound_users (remove_user s i) =
     List.map_filter (\<lambda>m. userFromMap m (getString i ''tag''))
       (filter (\<lambda>m. \<not> userMatchesSubID m s) (objects (getInboundUsers i)))"
proof -
  have objs: "objects (filter (\<lambda>v. \<not> cc_is_user s v) vs) = filter (\<lambda>m. \<not> userMatchesSubID m s) (objects vs)" for vs
    by (induction vs rule: objects.induct) simp_all
  have "filter (\<lambda>v. \<not> cc_is_user s v) vs = vs" if "\<not> list_ex (cc_is_user s) vs" for vs
    using that by (intro filter_True) (simp add: list_ex_iff)
  then show ?thesis
    using objs [of "getInboundUsers i"]
    by (cases "list_ex (cc_is_user s) (getInboundUsers i)") (simp_all add: remove_user_def inbound_users_def Let_def getString_setInboundUsers)
qed

lemma remove_user_gone: "u \<in> set (inbound_users (remove_user s i)) \<Longrightarrow> u \<in> set (inbound_users i) \<and> SubID u \<noteq> s"
  unfolding inbound_users_remove in_inbound_users
  by (auto simp: List.map_filter_def set_objects dest: userFromMap_SubID)

lemma getString_remove_user [simp]: "getString (remove_user s i) ''tag'' = getString i ''tag''"
  by (simp add: remove_user_def Let_def getString_setInboundUsers)

lemma client_DeleteUser:
  assumes ok: "client_ok c" and users: "GetUsers config_client c = Inr us"
  shows "(\<exists>e. DeleteUser config_client s c = (c, Some e)) \<and> (\<forall>u \<in> set us. SubID u \<noteq> s) \<or>
    (\<exists>c' us'. DeleteUser config_client s c = (c', None) \<and> client_ok c' \<and> GetUsers config_client c' = Inr us' \<and>
       set us' \<subseteq> {u \<in> set us. SubID u \<noteq> s})"
proof -
  obtain rt where rt: "loaded c = Inr rt" "jwf (JObj rt)" "canonical (JObj rt)"
    using ok by (rule client_okE)
  have us: "us = users_of rt"
    using users get_simps(2) [OF rt(1)] by simp
  have del: "DeleteUser config_client s c = cc_run (cc_edit_save (cc_edit_DeleteUser s)) c"
    by (simp add: config_client_def cc_DeleteUser_def)
  show ?thesis
  proof (cases "cc_edit_DeleteUser s rt")
    case (Inl e)
    then have "\<not> list_ex (cc_is_user s) (getInboundUsers i)" if "i \<in> set (getInbounds rt)" for i
      using that by (auto simp: cc_edit_DeleteUser_def Let_def list_ex_iff split: if_splits)
    then have "\<forall>u \<in> set us. SubID u \<noteq> s"
      using listed_user_found(1) by (auto simp: us users_of_def)
    with Inl cc_run_error [OF rt(1)] del show ?thesis
      by simp
  next
    case (Inr rt')
    then have "rt' = setInbounds (map (remove_user s) (getInbounds rt)) rt"
      by (auto simp: cc_edit_DeleteUser_def Let_def split: if_splits)
    then have "set (users_of rt') \<subseteq> {u \<in> set us. SubID u \<noteq> s}"
      using remove_user_gone by (auto simp: us users_of_def)
    moreover have edit: "cc_edit (cc_edit_DeleteUser s)"
      by (auto simp: cc_edit_def)
    ultimately show ?thesis
      using run_edit [OF ok rt(1) edit Inr] by (intro disjI2) (auto simp: del)
  qed
qed

section \<open>The contract\<close>

text \<open>The operations on users leave the tags alone.\<close>

lemma tags_user_edit:
  assumes "client_ok c" and "loaded c = Inr rt" and "edit rt = Inr rt'"
    and "edit = cc_edit_CreateUser fresh u \<or> edit = cc_edit_UpdateUser fresh u \<or> edit = cc_edit_DeleteUser s"
  shows "map (\<lambda>m. getString m ''tag'') (getInbounds rt') = map (\<lambda>m. getString m ''tag'') (getInbounds rt)"
proof -
  have upd: "map (\<lambda>m. getString m ''tag'') (ms[n := setInboundUsers us (ms ! n)]) = map (\<lambda>m. getString m ''tag'') ms" for ms n us
    by (simp add: map_update getString_setInboundUsers) (metis list_update_id map_update)
  show ?thesis
    using assms(3,4) upd
    by (auto simp: cc_edit_CreateUser_def cc_edit_UpdateUser_def cc_edit_DeleteUser_def Let_def split: option.splits if_splits)
qed

definition same_inbound :: "Inbound \<Rightarrow> Inbound \<Rightarrow> bool" where
  "same_inbound i j \<longleftrightarrow> Tag i = Tag j \<and> Type i = Type j \<and> Listen i = Listen j \<and> Port i = Port j"

text \<open>
  What the handlers rely on.  \<open>ok\<close> are the states in working order, \<open>fits\<close> the inbounds that can
  be kept.
\<close>

locale sing_box_client =
  fixes C :: "'s SingBoxClient" and ok :: "'s \<Rightarrow> bool" and fits :: "Inbound \<Rightarrow> bool"
  assumes get_inbounds: "ok s \<Longrightarrow> \<exists>is. GetInbounds C s = Inr is"
    and get_users: "ok s \<Longrightarrow> \<exists>us. GetUsers C s = Inr us"
    and create_inbound: "ok s \<Longrightarrow> GetInbounds C s = Inr is \<Longrightarrow> fits i \<Longrightarrow> Tag i \<notin> Tag ` set is \<Longrightarrow>
      \<exists>s' i'. CreateInbound C i s = (s', None) \<and> ok s' \<and> GetInbounds C s' = Inr (is @ [i']) \<and> same_inbound i' i"
    and update_inbound: "ok s \<Longrightarrow> GetInbounds C s = Inr is \<Longrightarrow> fits i \<Longrightarrow> Tag i \<in> Tag ` set is \<Longrightarrow>
      \<exists>s' a x x' b. UpdateInbound C i s = (s', None) \<and> ok s' \<and> is = a @ x # b \<and> Tag x = Tag i \<and>
        GetInbounds C s' = Inr (a @ x' # b) \<and> updated_inbound i x x'"
    and delete_inbound: "ok s \<Longrightarrow> GetInbounds C s = Inr is \<Longrightarrow> tag \<in> Tag ` set is \<Longrightarrow>
      \<exists>s' a x b. DeleteInbound C tag s = (s', None) \<and> ok s' \<and> is = a @ x # b \<and> Tag x = tag \<and>
        tag \<notin> Tag ` set a \<and> GetInbounds C s' = Inr (a @ b)"
    and create_user: "ok s \<Longrightarrow> GetUsers C s = Inr us \<Longrightarrow> SubID u \<noteq> [] \<Longrightarrow>
      (\<exists>e. CreateUser C u s = (s, Some e)) \<or>
      (\<exists>s' a u' b. CreateUser C u s = (s', None) \<and> ok s' \<and> us = a @ b \<and> GetUsers C s' = Inr (a @ u' # b) \<and>
        SubID u' = SubID u \<and> InboundTag u' = InboundTag u)"
    and delete_user: "ok s \<Longrightarrow> GetUsers C s = Inr us \<Longrightarrow>
      (\<exists>e. DeleteUser C sid s = (s, Some e)) \<and> (\<forall>u \<in> set us. SubID u \<noteq> sid) \<or>
      (\<exists>s' us'. DeleteUser C sid s = (s', None) \<and> ok s' \<and> GetUsers C s' = Inr us' \<and>
        set us' \<subseteq> {u \<in> set us. SubID u \<noteq> sid})"
    and users_keep_tags: "ok s \<Longrightarrow> GetInbounds C s = Inr is \<Longrightarrow>
      CreateUser C u s = (s', None) \<or> UpdateUser C u s = (s', None) \<or> DeleteUser C sid s = (s', None) \<Longrightarrow>
      \<exists>is'. GetInbounds C s' = Inr is' \<and> map Tag is' = map Tag is"

lemma client_users_keep_tags:
  assumes ok: "client_ok c" and gets: "GetInbounds config_client c = Inr is"
    and run: "CreateUser config_client u c = (c', None) \<or> UpdateUser config_client u c = (c', None) \<or>
      DeleteUser config_client sid c = (c', None)"
  shows "\<exists>is'. GetInbounds config_client c' = Inr is' \<and> map Tag is' = map Tag is"
proof -
  obtain rt where rt: "loaded c = Inr rt" "jwf (JObj rt)" "canonical (JObj rt)"
    using ok by (rule client_okE)
  obtain edit where edit: "cc_run (cc_edit_save edit) c = (c', None)" "cc_edit edit"
    "edit = cc_edit_CreateUser (c_uuid c) u \<or> edit = cc_edit_UpdateUser (c_uuid c) u \<or> edit = cc_edit_DeleteUser sid"
    using run by (auto simp: config_client_def cc_CreateUser_def cc_UpdateUser_def cc_DeleteUser_def cc_edit_def)
  then obtain rt' where rt': "edit rt = Inr rt'"
    using cc_run_error [OF rt(1), of edit] by (cases "edit rt") auto
  have "GetInbounds config_client c' = Inr (map (inboundFromMap \<circ> modelToMap) (getInbounds rt'))" and wf: "jwf (JObj rt')"
    using run_edit [OF ok rt(1) edit(2) rt'] edit(1) file_after_edit(4) [OF ok rt(1) edit(2) rt'] by auto
  moreover have "map (Tag \<circ> (inboundFromMap \<circ> modelToMap)) (getInbounds rt') = map (\<lambda>m. getString m ''tag'') (getInbounds rt')"
    using jwf_getInbounds [OF wf] by (auto simp: getString_modelToMap jwf_JObj)
  ultimately show ?thesis
    using tags_user_edit [OF ok rt(1) rt' edit(3)] gets get_simps(1) [OF rt(1)] by (auto simp: comp_def)
qed

interpretation cfg: sing_box_client config_client client_ok inbound_fits
proof (unfold_locales, goal_cases)
  case (1 s)
  then show ?case by (metis client_okE get_simps(1))
next
  case (2 s)
  then show ?case by (metis client_okE get_simps(2))
next
  case (3 s "is" i)
  then show ?case
    using client_CreateInbound [of s "is" i] by (fastforce simp: normal_inbound_def same_inbound_def)
next
  case (4 s "is" i)
  then show ?case
    using client_UpdateInbound [of s "is" i] by (simp only: if_True) blast
next
  case (5 s "is" tag)
  then show ?case
    using client_DeleteInbound [of s "is" tag] by (simp only: if_True) blast
next
  case (6 s us u)
  then show ?case
    using client_CreateUser [of s us u] by (fastforce simp: stored_user_def Let_def)
next
  case (7 s us sid)
  then show ?case
    using client_DeleteUser [of s us sid] by blast
next
  case (8 s "is" u s' sid)
  then show ?case
    by (rule client_users_keep_tags)
qed

end
