(* ===== verification/Api.thy ===== *)
theory Api
  imports SingBoxClient
begin

text \<open>
  What the REST handlers of \<open>internal/handlers\<close> share: the response envelopes, the error codes, and
  the decoding of request bodies by \<open>encoding/json\<close> into the structs of the agent.

  Reading JSON text is the argument \<open>je_parse\<close>: the first value in a body, where an integer
  literal is \<^term>\<open>JInt\<close> and any other number \<^term>\<open>JFloat\<close>, and an object keeps its members in the order of
  the text; or the text of the error.  \<open>je_type_error\<close> is the text of an \<open>UnmarshalTypeError\<close>,
  and \<open>je_time\<close> reads an RFC 3339 time.
  The assignment of the members to the fields of a struct is written out.
\<close>

section \<open>Responses\<close>

text \<open>\<open>Response\<close> and \<open>ErrorInfo\<close> of \<open>inbounds.go\<close>; \<open>ErrorResponse\<close> and \<open>SuccessResponse\<close> of
  \<open>users.go\<close> have the same JSON form.\<close>

definition success_body :: "jv \<Rightarrow> jv" where
  "success_body data = JObj [(''success'', JBool True), (''data'', data)]"

definition error_body :: "string \<Rightarrow> string \<Rightarrow> jv" where
  "error_body code message =
     JObj [(''success'', JBool False), (''error'', JObj [(''code'', JStr code), (''message'', JStr message)])]"

definition sendSuccess :: "int \<Rightarrow> jv \<Rightarrow> wop list" where
  "sendSuccess statusCode data = json_reply statusCode (success_body data)"

definition sendError :: "int \<Rightarrow> string \<Rightarrow> string \<Rightarrow> wop list" where
  "sendError statusCode code message = json_reply statusCode (error_body code message)"

definition CodeInvalidRequest :: string where "CodeInvalidRequest = ''INVALID_REQUEST''"
definition CodeInboundNotFound :: string where "CodeInboundNotFound = ''INBOUND_NOT_FOUND''"
definition CodeInboundExists :: string where "CodeInboundExists = ''INBOUND_EXISTS''"
definition CodeInternalError :: string where "CodeInternalError = ''INTERNAL_ERROR''"

text \<open>The status that reaches the client.\<close>

definition status :: "wop list \<Rightarrow> int" where
  "status ops = rsp_status (serve ops)"

lemma status_json_reply [simp]: "status (json_reply code v) = code"
  by (simp add: status_def serve_json_reply)

lemma status_simps [simp]:
  "status (sendSuccess code data) = code" "status (sendError code c msg) = code"
  by (simp_all add: sendSuccess_def sendError_def)

lemma status_WriteHeader [simp]: "status [WriteHeader code] = code"
  by (simp add: status_def serve_def conn_new_def conn_WriteHeader_def)

section \<open>Decoding\<close>

record json_env =
  je_parse :: "body \<Rightarrow> string + jv"
  je_type_error :: "jv \<Rightarrow> string"
  je_time :: "string \<Rightarrow> string + stamp"

text \<open>
  Member names are compared up to case.  Besides the ASCII letters, the Kelvin sign and the long
  \<open>s\<close> fold to \<open>k\<close> and \<open>s\<close>.
\<close>

fun fold_name :: "string \<Rightarrow> string" where
  "fold_name [] = []"
| "fold_name (c # s) =
     (if HasPrefix (c # s) [char_of (226 :: nat), char_of (132 :: nat), char_of (170 :: nat)] then CHR ''k'' # fold_name (drop 2 s)
      else if HasPrefix (c # s) [char_of (197 :: nat), char_of (191 :: nat)] then CHR ''s'' # fold_name (drop 1 s)
      else lower_char c # fold_name s)"

definition names :: "string \<Rightarrow> string \<Rightarrow> bool" where
  "names key field \<longleftrightarrow> key = field \<or> fold_name key = fold_name field"

lemma names_refl [simp]: "names field field"
  by (simp add: names_def)

text \<open>
  The value of one field: \<open>null\<close> leaves it as it is (a pointer becomes nil), a value of another
  type is an error.
\<close>

definition dec_string :: "json_env \<Rightarrow> string \<Rightarrow> jv \<Rightarrow> string + string" where
  "dec_string je old v = (case v of JStr s \<Rightarrow> Inr s | JNull \<Rightarrow> Inr old | _ \<Rightarrow> Inl (je_type_error je v))"

definition dec_int :: "json_env \<Rightarrow> int \<Rightarrow> jv \<Rightarrow> string + int" where
  "dec_int je old v =
     (case v of
        JInt n \<Rightarrow> if - (2 ^ 63) \<le> n \<and> n < 2 ^ 63 then Inr n else Inl (je_type_error je v)
      | JNull \<Rightarrow> Inr old
      | _ \<Rightarrow> Inl (je_type_error je v))"

definition dec_uint64 :: "json_env \<Rightarrow> uint64 \<Rightarrow> jv \<Rightarrow> string + uint64" where
  "dec_uint64 je old v =
     (case v of
        JInt n \<Rightarrow> if 0 \<le> n \<and> n < 2 ^ 64 then Inr (of_int n) else Inl (je_type_error je v)
      | JNull \<Rightarrow> Inr old
      | _ \<Rightarrow> Inl (je_type_error je v))"

definition dec_bool :: "json_env \<Rightarrow> bool \<Rightarrow> jv \<Rightarrow> string + bool" where
  "dec_bool je old v = (case v of JBool b \<Rightarrow> Inr b | JNull \<Rightarrow> Inr old | _ \<Rightarrow> Inl (je_type_error je v))"

definition dec_ptr :: "(jv \<Rightarrow> string + 'a) \<Rightarrow> jv \<Rightarrow> string + 'a option" where
  "dec_ptr dec v = (case v of JNull \<Rightarrow> Inr None | _ \<Rightarrow> bindE (dec v) (\<lambda>x. Inr (Some x)))"

text \<open>A value decoded into an \<open>interface{}\<close>; the last of several members with one name counts.\<close>

primrec dec_any :: "jv \<Rightarrow> jv" where
  "dec_any JNull = JNull"
| "dec_any (JBool b) = JBool b"
| "dec_any (JInt i) = JFloat (float64_of_int i)"
| "dec_any (JFloat q) = JFloat q"
| "dec_any (JStr s) = JStr s"
| "dec_any (JArr vs) = JArr (map dec_any vs)"
| "dec_any (JObj m) = JObj (put_all (map (map_prod id dec_any) m) [])"

definition dec_options :: "json_env \<Rightarrow> jobj \<Rightarrow> jv \<Rightarrow> string + jobj" where
  "dec_options je old v =
     (case v of
        JObj m \<Rightarrow> Inr (put_all (map (map_prod id dec_any) m) old)
      | JNull \<Rightarrow> Inr []
      | _ \<Rightarrow> Inl (je_type_error je v))"

text \<open>A struct: member after member, into the value so far.\<close>

fun dec_members :: "(string \<Rightarrow> jv \<Rightarrow> 'a \<Rightarrow> string + 'a) \<Rightarrow> (string \<times> jv) list \<Rightarrow> 'a \<Rightarrow> string + 'a" where
  "dec_members field [] x = Inr x"
| "dec_members field ((k, v) # ms) x = bindE (field k v x) (dec_members field ms)"

definition dec_struct :: "json_env \<Rightarrow> (string \<Rightarrow> jv \<Rightarrow> 'a \<Rightarrow> string + 'a) \<Rightarrow> 'a \<Rightarrow> jv \<Rightarrow> string + 'a" where
  "dec_struct je field zero v =
     (case v of JObj ms \<Rightarrow> dec_members field ms zero | JNull \<Rightarrow> Inr zero | _ \<Rightarrow> Inl (je_type_error je v))"

definition zero_Inbound :: Inbound where
  "zero_Inbound = \<lparr>Tag = [], Type = [], Listen = [], Port = 0, Options = []\<rparr>"

definition dec_Inbound_field :: "json_env \<Rightarrow> string \<Rightarrow> jv \<Rightarrow> Inbound \<Rightarrow> string + Inbound" where
  "dec_Inbound_field je k v i =
     (if names k ''tag'' then bindE (dec_string je (Tag i) v) (\<lambda>s. Inr (i\<lparr>Tag := s\<rparr>))
      else if names k ''type'' then bindE (dec_string je (Type i) v) (\<lambda>s. Inr (i\<lparr>Type := s\<rparr>))
      else if names k ''listen'' then bindE (dec_string je (Listen i) v) (\<lambda>s. Inr (i\<lparr>Listen := s\<rparr>))
      else if names k ''port'' then bindE (dec_int je (Port i) v) (\<lambda>n. Inr (i\<lparr>Port := n\<rparr>))
      else if names k ''options'' then bindE (dec_options je (Options i) v) (\<lambda>m. Inr (i\<lparr>Options := m\<rparr>))
      else Inr i)"

definition dec_Inbound :: "json_env \<Rightarrow> jv \<Rightarrow> string + Inbound" where
  "dec_Inbound je = dec_struct je (dec_Inbound_field je) zero_Inbound"

definition dec_time :: "json_env \<Rightarrow> stamp option \<Rightarrow> jv \<Rightarrow> string + stamp option" where
  "dec_time je old v =
     (case v of JStr s \<Rightarrow> bindE (je_time je s) (\<lambda>t. Inr (Some t)) | JNull \<Rightarrow> Inr old | _ \<Rightarrow> Inl (je_type_error je v))"

definition dec_time_ptr :: "json_env \<Rightarrow> jv \<Rightarrow> string + stamp option" where
  "dec_time_ptr je v = (case v of JNull \<Rightarrow> Inr None | _ \<Rightarrow> dec_time je None v)"

fun dec_elems :: "(jv \<Rightarrow> string + 'a) \<Rightarrow> jv list \<Rightarrow> string + 'a list" where
  "dec_elems dec [] = Inr []"
| "dec_elems dec (v # vs) = bindE (dec v) (\<lambda>x. bindE (dec_elems dec vs) (\<lambda>xs. Inr (x # xs)))"

definition dec_slice :: "json_env \<Rightarrow> (jv \<Rightarrow> string + 'a) \<Rightarrow> jv \<Rightarrow> string + 'a list" where
  "dec_slice je dec v = (case v of JArr vs \<Rightarrow> dec_elems dec vs | JNull \<Rightarrow> Inr [] | _ \<Rightarrow> Inl (je_type_error je v))"

definition zero_User :: User where
  "zero_User = \<lparr>SubID = [], UUID = [], InboundTag = [], Email = [], Enabled = False, Flow = [], LimitIP = 0,
     UploadLimit = 0, DownloadLimit = 0, ResetAt = None\<rparr>"

definition dec_User_field :: "json_env \<Rightarrow> string \<Rightarrow> jv \<Rightarrow> User \<Rightarrow> string + User" where
  "dec_User_field je k v u =
     (if names k ''subId'' then bindE (dec_string je (SubID u) v) (\<lambda>x. Inr (u\<lparr>SubID := x\<rparr>))
      else if names k ''uuid'' then bindE (dec_string je (UUID u) v) (\<lambda>x. Inr (u\<lparr>UUID := x\<rparr>))
      else if names k ''inboundTag'' then bindE (dec_string je (InboundTag u) v) (\<lambda>x. Inr (u\<lparr>InboundTag := x\<rparr>))
      else if names k ''email'' then bindE (dec_string je (Email u) v) (\<lambda>x. Inr (u\<lparr>Email := x\<rparr>))
      else if names k ''enabled'' then bindE (dec_bool je (Enabled u) v) (\<lambda>x. Inr (u\<lparr>Enabled := x\<rparr>))
      else if names k ''flow'' then bindE (dec_string je (Flow u) v) (\<lambda>x. Inr (u\<lparr>Flow := x\<rparr>))
      else if names k ''limitIp'' then bindE (dec_int je (LimitIP u) v) (\<lambda>x. Inr (u\<lparr>LimitIP := x\<rparr>))
      else if names k ''uploadLimit'' then bindE (dec_uint64 je (UploadLimit u) v) (\<lambda>x. Inr (u\<lparr>UploadLimit := x\<rparr>))
      else if names k ''downloadLimit'' then bindE (dec_uint64 je (DownloadLimit u) v) (\<lambda>x. Inr (u\<lparr>DownloadLimit := x\<rparr>))
      else if names k ''resetAt'' then bindE (dec_time_ptr je v) (\<lambda>x. Inr (u\<lparr>ResetAt := x\<rparr>))
      else Inr u)"

definition dec_User :: "json_env \<Rightarrow> jv \<Rightarrow> string + User" where
  "dec_User je = dec_struct je (dec_User_field je) zero_User"

text \<open>\<open>DesiredState\<close>, and \<open>Config\<close> of the control plane, which has the same members; the time stamp is read and not used.\<close>

definition zero_DesiredState :: DesiredState where
  "zero_DesiredState = \<lparr>ds_Version = 0, ds_Inbounds = [], ds_Users = []\<rparr>"

definition dec_DesiredState_field :: "json_env \<Rightarrow> string \<Rightarrow> jv \<Rightarrow> DesiredState \<Rightarrow> string + DesiredState" where
  "dec_DesiredState_field je k v d =
     (if names k ''version'' then bindE (dec_int je (ds_Version d) v) (\<lambda>x. Inr (d\<lparr>ds_Version := x\<rparr>))
      else if names k ''inbounds'' then bindE (dec_slice je (dec_Inbound je) v) (\<lambda>x. Inr (d\<lparr>ds_Inbounds := x\<rparr>))
      else if names k ''users'' then bindE (dec_slice je (dec_User je) v) (\<lambda>x. Inr (d\<lparr>ds_Users := x\<rparr>))
      else if names k ''timestamp'' then bindE (dec_time je None v) (\<lambda>x. Inr d)
      else Inr d)"

definition dec_DesiredState :: "json_env \<Rightarrow> jv \<Rightarrow> string + DesiredState" where
  "dec_DesiredState je = dec_struct je (dec_DesiredState_field je) zero_DesiredState"

definition Decode_DesiredState :: "json_env \<Rightarrow> body \<Rightarrow> string + DesiredState" where
  "Decode_DesiredState je b = bindE (je_parse je b) (dec_DesiredState je)"

definition Decode_Inbound :: "json_env \<Rightarrow> body \<Rightarrow> string + Inbound" where
  "Decode_Inbound je b = bindE (je_parse je b) (dec_Inbound je)"

section \<open>Decoded values\<close>

lemma jwf_dec_any: "jwf (dec_any v)"
proof (induction v)
  case (JArr vs)
  then show ?case by (auto simp: jwf_JArr)
next
  case (JObj m)
  have "jwf (dec_any (snd p))" if "p \<in> set m" for p
    using JObj [OF that, of "snd p"] by (cases p) (simp add: snds.simps)
  then show ?case
    by (auto intro!: jwf_put_all simp: jwf_JObj [of "[]"])
qed simp_all

lemma dec_members_inv:
  assumes step: "\<And>k v x y. P x \<Longrightarrow> field k v x = Inr y \<Longrightarrow> P y"
  shows "P x \<Longrightarrow> dec_members field ms x = Inr y \<Longrightarrow> P y"
proof (induction ms arbitrary: x)
  case (Cons p ms)
  then obtain x' where "field (fst p) (snd p) x = Inr x'" "dec_members field ms x' = Inr y"
    by (cases p) (auto simp: bindE_eq_Inr_iff)
  with Cons step show ?case
    by blast
qed simp

lemma dec_struct_inv:
  assumes "dec_struct je field zero v = Inr y" and "P zero"
    and step: "\<And>k v x y. P x \<Longrightarrow> field k v x = Inr y \<Longrightarrow> P y"
  shows "P y"
proof (cases v)
  case (JObj ms)
  with assms(1) have "dec_members field ms zero = Inr y"
    by (simp add: dec_struct_def)
  then show ?thesis
    by (rule dec_members_inv [where P = P and field = field, rotated 2]) (fact assms(2) step)+
next
  case JNull
  with assms(1,2) show ?thesis
    by (simp add: dec_struct_def)
qed (use assms(1) in \<open>simp_all add: dec_struct_def\<close>)

text \<open>A decoded inbound is a Go value: no map in its options has a key twice, and its port fits.\<close>

lemma dec_Inbound_wf:
  assumes "dec_Inbound je v = Inr i"
  shows "inbound_wf i"
proof (rule dec_struct_inv [OF assms [unfolded dec_Inbound_def]])
  show "inbound_wf zero_Inbound"
    by (simp add: zero_Inbound_def inbound_wf_def jwf_JObj)
next
  fix k u x y
  assume x: "inbound_wf x" and y: "dec_Inbound_field je k u x = Inr y"
  have "jwf (JObj m)" if "dec_options je (Options x) u = Inr m" for m
    using that x by (auto simp: dec_options_def inbound_wf_def jwf_dec_any jwf_JObj [of "[]"]
        split: jv.splits intro!: jwf_put_all)
  with x y show "inbound_wf y"
    by (auto simp: dec_Inbound_field_def inbound_wf_def bindE_eq_Inr_iff split: if_splits)
qed

lemma Decode_Inbound_wf: "Decode_Inbound je b = Inr i \<Longrightarrow> inbound_wf i"
  by (auto simp: Decode_Inbound_def bindE_eq_Inr_iff dec_Inbound_wf)

lemma dec_elems_Inr:
  assumes "dec_elems dec vs = Inr xs"
  shows "\<forall>x \<in> set xs. \<exists>v. dec v = Inr x"
  using assms by (induction vs arbitrary: xs) (auto simp: bindE_eq_Inr_iff)

lemma dec_slice_Inr:
  assumes "dec_slice je dec v = Inr xs"
  shows "\<forall>x \<in> set xs. \<exists>v. dec v = Inr x"
proof (cases v)
  case (JArr vs)
  with assms have "dec_elems dec vs = Inr xs"
    by (simp add: dec_slice_def)
  then show ?thesis
    by (rule dec_elems_Inr)
qed (use assms in \<open>auto simp: dec_slice_def\<close>)

lemma Decode_DesiredState_wf:
  assumes "Decode_DesiredState je b = Inr d"
  shows "\<forall>i \<in> set (ds_Inbounds d). inbound_wf i"
proof -
  obtain v where v: "dec_DesiredState je v = Inr d"
    using assms by (auto simp: Decode_DesiredState_def bindE_eq_Inr_iff)
  show ?thesis
  proof (rule dec_struct_inv [OF v [unfolded dec_DesiredState_def]])
    fix k u x y
    assume "\<forall>i \<in> set (ds_Inbounds x). inbound_wf i" and "dec_DesiredState_field je k u x = Inr y"
    then show "\<forall>i \<in> set (ds_Inbounds y). inbound_wf i"
      by (auto simp: dec_DesiredState_field_def bindE_eq_Inr_iff split: if_splits dest!: dec_slice_Inr dest: dec_Inbound_wf)
  qed (simp add: zero_DesiredState_def)
qed

end
