(* ===== verification/Retry.thy ===== *)
theory Retry
  imports Api
begin

text \<open>
  Retries with exponential backoff, \<open>internal/client/retry.go\<close>.  The operation acts on a state and
  returns whether its failure may be retried; \<open>ctx_done\<close> says for each attempt whether the context is
  cancelled while the timer runs.  The delays that were started are part of the result.
\<close>

section \<open>Model\<close>

record RetryConfig =
  MaxRetries :: int
  BaseDelay :: duration
  MaxDelay :: duration

definition DefaultMaxRetries :: int where "DefaultMaxRetries = 3"
definition DefaultBaseDelay :: duration where "DefaultBaseDelay = Second"
definition DefaultMaxDelay :: duration where "DefaultMaxDelay = 30 * Second"

definition withDefaults :: "RetryConfig \<Rightarrow> RetryConfig" where
  "withDefaults c =
     \<lparr>MaxRetries = (if MaxRetries c \<le> 0 then DefaultMaxRetries else MaxRetries c),
      BaseDelay = (if BaseDelay c \<le> 0 then DefaultBaseDelay else BaseDelay c),
      MaxDelay = (if MaxDelay c \<le> 0 then DefaultMaxDelay else MaxDelay c)\<rparr>"

text \<open>The loop of \<open>backoff\<close>: \<open>n\<close> more doublings, each of which may wrap around.\<close>

fun backoff_loop :: "RetryConfig \<Rightarrow> nat \<Rightarrow> duration \<Rightarrow> duration" where
  "backoff_loop c 0 delay = (if MaxDelay c < delay then MaxDelay c else delay)"
| "backoff_loop c (Suc n) delay =
     (let delay = wrap64 (delay * 2)
      in if MaxDelay c \<le> delay then MaxDelay c else backoff_loop c n delay)"

definition backoff :: "RetryConfig \<Rightarrow> nat \<Rightarrow> duration" where
  "backoff c attempt = backoff_loop c attempt (BaseDelay c)"

datatype 'e retry_result = RetryOk | RetryErr 'e | CtxErr

type_synonym ('s, 'e) operation = "'s \<Rightarrow> 's \<times> bool \<times> 'e option"

function retry_from ::
  "RetryConfig \<Rightarrow> ('s, 'e) operation \<Rightarrow> (nat \<Rightarrow> bool) \<Rightarrow> nat \<Rightarrow> 's \<Rightarrow> 's \<times> duration list \<times> 'e retry_result" where
  "retry_from c operation ctx_done attempt s =
     (case operation s of
        (s', retryable, None) \<Rightarrow> (s', [], RetryOk)
      | (s', retryable, Some err) \<Rightarrow>
          if \<not> retryable \<or> MaxRetries c \<le> int attempt then (s', [], RetryErr err)
          else let delay = backoff c attempt
               in if ctx_done attempt then (s', [delay], CtxErr)
                  else case retry_from c operation ctx_done (Suc attempt) s' of
                         (s'', delays, r) \<Rightarrow> (s'', delay # delays, r))"
  by pat_completeness auto
termination
  by (relation "measure (\<lambda>(c, operation, ctx_done, attempt, s). nat (MaxRetries c - int attempt))") auto

declare retry_from.simps [simp del]

definition Retry ::
  "RetryConfig \<Rightarrow> ('s, 'e) operation \<Rightarrow> (nat \<Rightarrow> bool) \<Rightarrow> 's \<Rightarrow> 's \<times> duration list \<times> 'e retry_result" where
  "Retry cfg operation ctx_done s = retry_from (withDefaults cfg) operation ctx_done 0 s"

section \<open>Backoff\<close>

text \<open>Within the range where doubling cannot overflow, the delay is the capped exponential.\<close>

lemma backoff_loop_exact:
  assumes "0 < MaxDelay c" and "MaxDelay c \<le> 2 ^ 62" and "0 < d" and "d < 2 ^ 62"
  shows "backoff_loop c n d = min (MaxDelay c) (d * 2 ^ n)"
  using assms(3,4)
proof (induction n arbitrary: d)
  case (Suc n)
  have wrap: "wrap64 (d * 2) = d * 2"
    using Suc.prems by (intro wrap64_id) simp_all
  show ?case
  proof (cases "MaxDelay c \<le> d * 2")
    case True
    have "d * 2 \<le> d * 2 ^ Suc n"
      using Suc.prems(1) by simp
    with True wrap show ?thesis
      by simp
  next
    case False
    then have "d * 2 < 2 ^ 62"
      using assms(2) by simp
    with False wrap Suc.IH [of "d * 2"] Suc.prems(1) show ?thesis
      by (simp add: mult.assoc)
  qed
qed simp

lemma withDefaults_pos:
  "0 < MaxRetries (withDefaults c)" "0 < BaseDelay (withDefaults c)" "0 < MaxDelay (withDefaults c)"
  by (simp_all add: withDefaults_def DefaultMaxRetries_def DefaultBaseDelay_def DefaultMaxDelay_def Second_def)

section \<open>The attempts\<close>

text \<open>The states the operation leaves behind when it is tried again and again.\<close>

primrec attempts :: "('s, 'e) operation \<Rightarrow> nat \<Rightarrow> 's \<Rightarrow> 's" where
  "attempts operation 0 s = s"
| "attempts operation (Suc n) s = attempts operation n (fst (operation s))"

text \<open>
  What a run of \<open>Retry\<close> is: the waits are those of the failed attempts, of which all but the last
  may be retried; the last attempt decides.
\<close>

definition retry_spec ::
  "RetryConfig \<Rightarrow> ('s, 'e) operation \<Rightarrow> (nat \<Rightarrow> bool) \<Rightarrow> nat \<Rightarrow> 's \<Rightarrow> 's \<times> duration list \<times> 'e retry_result \<Rightarrow> bool" where
  "retry_spec c operation ctx_done attempt s = (\<lambda>(s', delays, r).
     let n = length delays
     in int attempt + int n \<le> MaxRetries c \<and> delays = map (backoff c) [attempt..<attempt + n] \<and>
        s' = attempts operation (if r = CtxErr then n else Suc n) s \<and>
        (\<forall>i < n. \<exists>err. snd (operation (attempts operation i s)) = (True, Some err)) \<and>
        (case r of
           RetryOk \<Rightarrow> \<exists>b. snd (operation (attempts operation n s)) = (b, None)
         | RetryErr e \<Rightarrow> \<exists>b. snd (operation (attempts operation n s)) = (b, Some e) \<and>
             (\<not> b \<or> int attempt + int n = MaxRetries c)
         | CtxErr \<Rightarrow> 0 < n \<and> ctx_done (attempt + n - 1)))"

lemma retry_spec_Cons:
  assumes "retry_spec c operation ctx_done (Suc attempt) s1 (s', ds, r)" and "operation s = (s1, True, Some err)"
  shows "retry_spec c operation ctx_done attempt s (s', backoff c attempt # ds, r)"
proof -
  have "[attempt..<attempt + Suc (length ds)] = attempt # [Suc attempt..<Suc attempt + length ds]"
    by (subst upt_conv_Cons) simp_all
  then show ?thesis
    using assms
    by (auto simp: retry_spec_def Let_def less_Suc_eq_0_disj simp del: upt_Suc split: retry_result.splits)
qed

lemma retry_from_spec:
  "int attempt \<le> MaxRetries c \<Longrightarrow>
   retry_spec c operation ctx_done attempt s (retry_from c operation ctx_done attempt s)"
proof (induction c operation ctx_done attempt s rule: retry_from.induct)
  case (1 c operation ctx_done attempt s)
  obtain s1 b e where op: "operation s = (s1, b, e)"
    by (metis prod_cases3)
  show ?case
  proof (cases "e = None \<or> \<not> b \<or> MaxRetries c \<le> int attempt")
    case True
    with 1(2) op show ?thesis
      by (auto simp: retry_from.simps [of c operation ctx_done attempt s] retry_spec_def split: option.splits)
  next
    case False
    then obtain err where e: "e = Some err" and b: "b" and less: "int attempt < MaxRetries c"
      by auto
    show ?thesis
    proof (cases "ctx_done attempt")
      case True
      with op e b less show ?thesis
        by (simp add: retry_from.simps [of c operation ctx_done attempt s] retry_spec_def)
    next
      case False
      obtain s' ds r where rec: "retry_from c operation ctx_done (Suc attempt) s1 = (s', ds, r)"
        by (metis prod_cases3)
      have "retry_spec c operation ctx_done (Suc attempt) s1 (s', ds, r)"
        using 1(1) [OF op [symmetric] refl e _ refl False] b less rec by simp
      then have "retry_spec c operation ctx_done attempt s (s', backoff c attempt # ds, r)"
        by (rule retry_spec_Cons) (simp add: op e b)
      then show ?thesis
        using False rec op e b less by (simp add: retry_from.simps [of c operation ctx_done attempt s])
    qed
  qed
qed

text \<open>
  C34.  \<open>Retry\<close> ends after at most \<open>MaxRetries + 1\<close> attempts, whatever the operation does.  The waits
  between them are the capped exponential \<open>min MaxDelay (BaseDelay * 2^n)\<close>; every attempt but the last failed
  with a retryable error; the result is that of the last attempt, an error only when it is not
  retryable or the attempts are used up, or the cancellation of the context during the last wait.  The limits on the delays (146 years)
  keep the doubling from wrapping around.
\<close>

theorem Retry_terminates:
  fixes operation :: "('s, 'e) operation" and cfg :: RetryConfig
  defines "c \<equiv> withDefaults cfg"
  assumes "BaseDelay c < 2 ^ 62" and "MaxDelay c \<le> 2 ^ 62" and "Retry cfg operation ctx_done s = (s', delays, r)"
  shows "int (length delays) \<le> MaxRetries c \<and>
    delays = map (\<lambda>n. min (MaxDelay c) (BaseDelay c * 2 ^ n)) [0..<length delays] \<and>
    s' = attempts operation (if r = CtxErr then length delays else Suc (length delays)) s \<and>
    (\<forall>i < length delays. \<exists>err. snd (operation (attempts operation i s)) = (True, Some err)) \<and>
    (case r of
       RetryOk \<Rightarrow> \<exists>b. snd (operation (attempts operation (length delays) s)) = (b, None)
     | RetryErr e \<Rightarrow> \<exists>b. snd (operation (attempts operation (length delays) s)) = (b, Some e) \<and>
         (\<not> b \<or> int (length delays) = MaxRetries c)
     | CtxErr \<Rightarrow> 0 < length delays \<and> ctx_done (length delays - 1))"
proof -
  have "retry_spec c operation ctx_done 0 s (s', delays, r)"
    using retry_from_spec [of 0 c operation ctx_done s] assms(4) withDefaults_pos(1) [of cfg]
    by (simp add: Retry_def c_def)
  moreover have "backoff c n = min (MaxDelay c) (BaseDelay c * 2 ^ n)" for n
    unfolding backoff_def using assms(2,3) withDefaults_pos(2,3) [of cfg]
    by (intro backoff_loop_exact) (simp_all add: c_def)
  then have "backoff c = (\<lambda>n. min (MaxDelay c) (BaseDelay c * 2 ^ n))"
    by blast
  ultimately show ?thesis
    by (cases r) (simp_all add: retry_spec_def Let_def)
qed

text \<open>An operation that fails twice and then succeeds.\<close>

definition flaky :: "(nat, string) operation" where
  "flaky n = (Suc n, True, if n < 2 then Some ''down'' else None)"

theorem Retry_terminates_witness:
  "\<exists>s' delays r. Retry \<lparr>MaxRetries = 0, BaseDelay = 0, MaxDelay = 0\<rparr> flaky (\<lambda>n. False) 0 = (s', delays, r) \<and>
     delays = map (\<lambda>n. min (30 * Second) (Second * 2 ^ n)) [0..<length delays] \<and> length delays \<le> 3"
proof -
  let ?cfg = "\<lparr>MaxRetries = 0, BaseDelay = 0, MaxDelay = 0\<rparr>"
  obtain s' delays r where run: "Retry ?cfg flaky (\<lambda>n. False) 0 = (s', delays, r)"
    by (metis prod_cases3)
  have c: "withDefaults ?cfg = \<lparr>MaxRetries = 3, BaseDelay = Second, MaxDelay = 30 * Second\<rparr>"
    by (simp add: withDefaults_def DefaultMaxRetries_def DefaultBaseDelay_def DefaultMaxDelay_def)
  have "int (length delays) \<le> 3 \<and> delays = map (\<lambda>n. min (30 * Second) (Second * 2 ^ n)) [0..<length delays]"
    using Retry_terminates [of ?cfg flaky "\<lambda>n. False" 0 s' delays r] run c by (simp add: Second_def)
  with run show ?thesis
    by auto
qed

end
