(* ===== verification/Fastify.thy ===== *)
theory Fastify
  imports Retry
begin

text \<open>
  The client of the central control plane, \<open>internal/client/fastify.go\<close>.  The transport
  (\<open>http.Client.Do\<close>) is the argument \<open>send\<close>, acting on the state of the outside world; \<open>new_request\<close>
  is the error of \<open>http.NewRequestWithContext\<close>, if any, for a method and a URL.  The
  TLS library and the file with the root certificates, which \<open>buildHTTPClient\<close> uses, answer through a record.
\<close>

section \<open>Model\<close>

text \<open>An HTTP client: the one given in the options, or one built with a timeout, a server name and the pool of roots.\<close>

datatype http_client = GivenClient | BuiltClient duration string "string option"

record ClientOptions =
  opt_BaseURL :: string
  opt_Token :: string
  opt_Secret :: string
  opt_CACertPath :: string
  opt_ServerName :: string
  opt_Timeout :: duration
  opt_Retry :: RetryConfig
  opt_HTTPClient :: bool

record Client =
  baseURL :: string
  cl_token :: string
  cl_secret :: string
  httpClient :: http_client
  cl_retry :: RetryConfig

text \<open>What the standard library and the file system answer while a client is built.\<close>

record tls_env =
  te_transport :: bool
  te_ReadFile :: "string \<Rightarrow> string + string"
  te_AppendCertsFromPEM :: "string \<Rightarrow> bool"

definition defaultTimeout :: duration where "defaultTimeout = 10 * Second"

definition root_pool :: "tls_env \<Rightarrow> string \<Rightarrow> string + string option" where
  "root_pool te path =
     (if TrimSpace path = [] then Inr None
      else case te_ReadFile te path of
             Inl err \<Rightarrow> Inl (''read custom CA certificate: '' @ err)
           | Inr pem \<Rightarrow> if te_AppendCertsFromPEM te pem then Inr (Some pem) else Inl ''parse custom CA certificate'')"

definition buildHTTPClient :: "tls_env \<Rightarrow> ClientOptions \<Rightarrow> string + http_client" where
  "buildHTTPClient te opts =
     (if opt_HTTPClient opts then Inr GivenClient
      else if \<not> te_transport te then Inl ''default transport is not *http.Transport''
      else bindE (root_pool te (opt_CACertPath opts)) (\<lambda>roots.
        Inr (BuiltClient (if opt_Timeout opts \<le> 0 then defaultTimeout else opt_Timeout opts)
               (TrimSpace (opt_ServerName opts)) roots)))"

text \<open>\<open>strings.TrimRight(s, "/")\<close>\<close>

definition TrimRight :: "string \<Rightarrow> char \<Rightarrow> string" where
  "TrimRight s c = rev (dropWhile (\<lambda>d. d = c) (rev s))"

definition NewFastifyClient :: "tls_env \<Rightarrow> ClientOptions \<Rightarrow> string + Client" where
  "NewFastifyClient te opts =
     (if TrimSpace (opt_BaseURL opts) = [] then Inl ''base URL is required''
      else if TrimSpace (opt_Token opts) = [] then Inl ''token is required''
      else if TrimSpace (opt_Secret opts) = [] then Inl ''secret is required''
      else bindE (buildHTTPClient te opts) (\<lambda>http.
        Inr \<lparr>baseURL = TrimRight (opt_BaseURL opts) CHR ''/'', cl_token = opt_Token opts, cl_secret = opt_Secret opts,
             httpClient = http, cl_retry = withDefaults (opt_Retry opts)\<rparr>))"

record http_request =
  hr_method :: string
  hr_url :: string
  hr_header :: header
  hr_payload :: "jv option"

record http_response =
  hs_status :: int
  hs_body :: body

text \<open>The outside world, and the network in front of it.\<close>

record 'w network =
  send :: "http_request \<Rightarrow> 'w \<Rightarrow> 'w \<times> (string + http_response)"
  new_request :: "string \<Rightarrow> string \<Rightarrow> string option"
  ctx_done :: "nat \<Rightarrow> bool"
  ctx_error :: string

definition doJSON_request :: "Client \<Rightarrow> string \<Rightarrow> string \<Rightarrow> jv option \<Rightarrow> http_request" where
  "doJSON_request c method path payload =
     (let h = Header_Set ''Accept'' ''application/json'' (Header_Set ''X-Agent-Secret'' (cl_secret c)
                (Header_Set ''Authorization'' (''Bearer '' @ cl_token c) []))
      in \<lparr>hr_method = method, hr_url = baseURL c @ path,
          hr_header = (if payload = None then h else Header_Set ''Content-Type'' ''application/json'' h), hr_payload = payload\<rparr>)"

text \<open>One attempt; the response is kept beside the state of the world (the variable \<open>response\<close>).\<close>

definition doJSON_attempt ::
  "'w network \<Rightarrow> Client \<Rightarrow> string \<Rightarrow> string \<Rightarrow> jv option \<Rightarrow> ('w \<times> http_response option, string) operation" where
  "doJSON_attempt net c method path payload = (\<lambda>(w, response).
     case new_request net method (baseURL c @ path) of
       Some err \<Rightarrow> ((w, response), False, Some (''create request: '' @ err))
     | None \<Rightarrow>
         (case send net (doJSON_request c method path payload) w of
            (w', Inl err) \<Rightarrow> ((w', response), True, Some (''perform request: '' @ err))
          | (w', Inr resp) \<Rightarrow>
              if 500 \<le> hs_status resp
              then ((w', response), True, Some (''retryable server status '' @ Itoa (hs_status resp)))
              else ((w', Some resp), False, None)))"

text \<open>\<open>envelope[json.RawMessage]\<close>\<close>

record envelope =
  en_Success :: bool
  en_Data :: "jv option"
  en_Error :: "(string \<times> string) option"

definition dec_apiError_field :: "json_env \<Rightarrow> string \<Rightarrow> jv \<Rightarrow> string \<times> string \<Rightarrow> string + (string \<times> string)" where
  "dec_apiError_field je k v e =
     (if names k ''code'' then bindE (dec_string je (fst e) v) (\<lambda>x. Inr (x, snd e))
      else if names k ''message'' then bindE (dec_string je (snd e) v) (\<lambda>x. Inr (fst e, x))
      else Inr e)"

definition dec_envelope_field :: "json_env \<Rightarrow> string \<Rightarrow> jv \<Rightarrow> envelope \<Rightarrow> string + envelope" where
  "dec_envelope_field je k v e =
     (if names k ''success'' then bindE (dec_bool je (en_Success e) v) (\<lambda>x. Inr (e\<lparr>en_Success := x\<rparr>))
      else if names k ''data'' then Inr (e\<lparr>en_Data := Some v\<rparr>)
      else if names k ''error''
      then bindE (dec_ptr (dec_struct je (dec_apiError_field je) (case en_Error e of Some x \<Rightarrow> x | None \<Rightarrow> ([], []))) v)
             (\<lambda>x. Inr (e\<lparr>en_Error := x\<rparr>))
      else Inr e)"

definition Decode_envelope :: "json_env \<Rightarrow> body \<Rightarrow> string + envelope" where
  "Decode_envelope je b =
     bindE (je_parse je b) (dec_struct je (dec_envelope_field je) \<lparr>en_Success = False, en_Data = None, en_Error = None\<rparr>)"

text \<open>
  The answer is decoded with \<open>out\<close>, the value \<open>zero\<close> stays when there is no data.  A read error of
  the body of a failed request is ignored.
\<close>

definition doJSON_answer :: "json_env \<Rightarrow> (jv \<Rightarrow> string + 'a) option \<Rightarrow> 'a \<Rightarrow> http_response \<Rightarrow> string + 'a" where
  "doJSON_answer je out zero resp =
     (if hs_status resp < 200 \<or> 300 \<le> hs_status resp
      then Inl (''request failed with status '' @ Itoa (hs_status resp) @ '': '' @ TrimSpace (body_data (hs_body resp)))
      else case out of
             None \<Rightarrow> Inr zero
           | Some decode \<Rightarrow>
               (case Decode_envelope je (hs_body resp) of
                  Inl err \<Rightarrow> Inl (''decode envelope: '' @ err)
                | Inr wrapped \<Rightarrow>
                    if \<not> en_Success wrapped
                    then Inl (case en_Error wrapped of
                                None \<Rightarrow> ''API returned unsuccessful response''
                              | Some (code, message) \<Rightarrow> ''API error '' @ code @ '': '' @ message)
                    else case en_Data wrapped of
                           None \<Rightarrow> Inr zero
                         | Some d \<Rightarrow>
                             (case decode d of Inl err \<Rightarrow> Inl (''decode envelope data: '' @ err) | Inr x \<Rightarrow> Inr x)))"

definition doJSON ::
  "json_env \<Rightarrow> 'w network \<Rightarrow> Client \<Rightarrow> string \<Rightarrow> string \<Rightarrow> jv option \<Rightarrow> (jv \<Rightarrow> string + 'a) option \<Rightarrow> 'a \<Rightarrow> 'w \<Rightarrow> 'w \<times> (string + 'a)" where
  "doJSON je net c method path payload out zero w =
     (case Retry (cl_retry c) (doJSON_attempt net c method path payload) (ctx_done net) (w, None) of
        ((w', response), delays, RetryErr err) \<Rightarrow> (w', Inl err)
      | ((w', response), delays, CtxErr) \<Rightarrow> (w', Inl (ctx_error net))
      | ((w', response), delays, RetryOk) \<Rightarrow>
          (w', case response of None \<Rightarrow> Inl [] | Some resp \<Rightarrow> doJSON_answer je out zero resp))"

definition FetchConfig :: "json_env \<Rightarrow> 'w network \<Rightarrow> Client \<Rightarrow> 'w \<Rightarrow> 'w \<times> (string + DesiredState)" where
  "FetchConfig je net c w =
     doJSON je net c ''GET'' ''/api/agents/config'' None (Some (dec_DesiredState je)) zero_DesiredState w"

text \<open>\<open>now\<close> is the text of the current time.\<close>

definition Heartbeat :: "json_env \<Rightarrow> 'w network \<Rightarrow> string \<Rightarrow> Client \<Rightarrow> 'w \<Rightarrow> 'w \<times> (string + unit)" where
  "Heartbeat je net now c w =
     doJSON je net c ''POST'' ''/api/agents/heartbeat'' (Some (JObj [(''timestamp'', JStr now)])) None () w"

record Status =
  st_State :: string
  st_Version :: int
  st_Message :: string
  st_UpdatedAt :: "string option"

definition ReportStatus :: "json_env \<Rightarrow> 'w network \<Rightarrow> string \<Rightarrow> Client \<Rightarrow> Status \<Rightarrow> 'w \<Rightarrow> 'w \<times> (string + unit)" where
  "ReportStatus je net now c st w =
     (let updated = (case st_UpdatedAt st of None \<Rightarrow> now | Some t \<Rightarrow> t);
          payload = [(''state'', JStr (st_State st))] @ opt_int ''version'' (st_Version st)
            @ opt_string ''message'' (st_Message st) @ [(''updatedAt'', JStr updated)]
      in doJSON je net c ''POST'' ''/api/agents/status'' (Some (JObj payload)) None () w)"

section \<open>What an answer says about the requests\<close>

text \<open>When the retries end well, there is a response below 500.\<close>

lemma doJSON_attempt_ok:
  "doJSON_attempt net c method path payload wr = ((w', response), b, None) \<Longrightarrow>
   \<exists>resp. response = Some resp \<and> hs_status resp < 500 \<and> send net (doJSON_request c method path payload) (fst wr) = (w', Inr resp)"
  by (auto simp: doJSON_attempt_def split: prod.splits option.splits sum.splits if_splits)

lemma doJSON_response:
  assumes "Retry (cl_retry c) (doJSON_attempt net c method path payload) (ctx_done net) (w, None) = ((w', response), delays, RetryOk)"
  shows "\<exists>resp. response = Some resp \<and> hs_status resp < 500"
proof -
  let ?op = "doJSON_attempt net c method path payload"
  have "retry_spec (withDefaults (cl_retry c)) ?op (ctx_done net) 0 (w, None) ((w', response), delays, RetryOk)"
    using retry_from_spec [of 0 "withDefaults (cl_retry c)" ?op "ctx_done net" "(w, None)"] assms withDefaults_pos(1)
    by (simp add: Retry_def less_imp_le)
  then obtain b where last: "(w', response) = attempts ?op (Suc (length delays)) (w, None)"
    "snd (?op (attempts ?op (length delays) (w, None))) = (b, None)"
    by (auto simp: retry_spec_def Let_def)
  have "attempts ?op (Suc n) s = fst (?op (attempts ?op n s))" for n s
    by (induction n arbitrary: s) simp_all
  with last have "?op (attempts ?op (length delays) (w, None)) = ((w', response), b, None)"
    by (metis prod.collapse)
  from doJSON_attempt_ok [OF this] show ?thesis
    by auto
qed

text \<open>A configuration is only fetched from a 2xx answer whose envelope reports success.\<close>

lemma doJSON_ok:
  assumes "doJSON je net c method path payload out zero w = (w', Inr x)"
  shows "\<exists>resp. 200 \<le> hs_status resp \<and> hs_status resp < 300 \<and> doJSON_answer je out zero resp = Inr x"
  using assms
  by (auto simp: doJSON_def doJSON_answer_def split: prod.splits retry_result.splits option.splits if_splits)

end
