(* ===== verification/Engine.thy ===== *)
theory Engine
  imports Plan Fastify
begin

text \<open>
  The sync engine (\<open>internal/sync/engine.go\<close>) and its status (\<open>status.go\<close>), the REST handler for the
  desired state (\<open>internal/handlers/sync.go\<close>), the probes of \<open>internal/server/handlers.go\<close>, and the
  background synchronisation of \<open>internal/server/lifecycle.go\<close>.

  The engine reads the configuration through \<open>ConfigClient\<close> and writes it through \<open>ConfigManager\<close>, as \<open>server.New\<close>
  wires them: both act on the file of the environment of theory \<open>Plan\<close>.  Arguments of an operation are the current
  time, the iteration orders of the maps in the diff, and the texts of errors.
\<close>

section \<open>Status\<close>

datatype SyncState = SyncStateSynced | SyncStateSyncing | SyncStateError

fun state_text :: "SyncState \<Rightarrow> string" where
  "state_text SyncStateSynced = ''synced''"
| "state_text SyncStateSyncing = ''syncing''"
| "state_text SyncStateError = ''error''"

record SyncStatus =
  LastSync :: time
  State :: SyncState
  Error :: string
  CurrentVersion :: int
  ChangesApplied :: int
  InSync :: bool

definition NewSyncStatus :: SyncStatus where
  "NewSyncStatus = \<lparr>LastSync = 0, State = SyncStateSynced, Error = [], CurrentVersion = -1, ChangesApplied = 0, InSync = True\<rparr>"

text \<open>The Prometheus metrics of \<open>status.go\<close>: the label that is 1, the time stamp, two counters.\<close>

record sync_metrics =
  m_syncStatus :: "string option"
  m_syncTimestamp :: "rat option"
  m_changesApplied :: nat
  m_syncErrors :: nat

definition time_unix :: "time \<Rightarrow> int" where
  "time_unix t = t div Second - unixToInternal"

definition updateMetrics :: "SyncStatus \<Rightarrow> sync_metrics \<Rightarrow> sync_metrics" where
  "updateMetrics s m =
     (let m = m\<lparr>m_syncStatus := Some (state_text (State s))\<rparr>
      in if LastSync s \<noteq> 0 then m\<lparr>m_syncTimestamp := Some (float64_of_int (time_unix (LastSync s)))\<rparr> else m)"

text \<open>The dynamic type of the values that \<open>Get\<close> puts into a \<open>map[string]interface{}\<close>.\<close>

datatype dyn = DynString string | DynSyncState SyncState | DynInt int | DynBool bool

definition Status_Get :: "(time \<Rightarrow> string) \<Rightarrow> SyncStatus \<Rightarrow> (string, dyn) gomap" where
  "Status_Get fmt s =
     [(''last_sync'', DynString (fmt (LastSync s))), (''state'', DynSyncState (State s)), (''error'', DynString (Error s)),
      (''current_version'', DynInt (CurrentVersion s)), (''changes_applied'', DynInt (ChangesApplied s)),
      (''in_sync'', DynBool (InSync s))]"

text \<open>The type assertion \<open>v.(string)\<close>; a value of the named type \<open>SyncState\<close> is not a \<open>string\<close>.\<close>

fun as_string :: "dyn \<Rightarrow> string option" where
  "as_string (DynString s) = Some s"
| "as_string _ = None"

fun json_dyn :: "dyn \<Rightarrow> jv" where
  "json_dyn (DynString s) = JStr s"
| "json_dyn (DynSyncState st) = JStr (state_text st)"
| "json_dyn (DynInt i) = JInt i"
| "json_dyn (DynBool b) = JBool b"

section \<open>Engine\<close>

record Engine =
  eg_env :: env
  eg_manager :: manager
  eg_status :: SyncStatus
  eg_metrics :: sync_metrics
  eg_oserr :: string

definition set_status :: "SyncStatus \<Rightarrow> Engine \<Rightarrow> Engine" where
  "set_status s e = e\<lparr>eg_status := s, eg_metrics := updateMetrics s (eg_metrics e)\<rparr>"

definition UpdateSync :: "time \<Rightarrow> int \<Rightarrow> int \<Rightarrow> Engine \<Rightarrow> Engine" where
  "UpdateSync now version changes =
     set_status \<lparr>LastSync = now, State = SyncStateSynced, Error = [], CurrentVersion = version, ChangesApplied = changes,
       InSync = True\<rparr>"

definition UpdateError :: "string \<Rightarrow> Engine \<Rightarrow> Engine" where
  "UpdateError err e = set_status ((eg_status e)\<lparr>State := SyncStateError, Error := err, InSync := False\<rparr>) e"

definition UpdateSyncing :: "Engine \<Rightarrow> Engine" where
  "UpdateSyncing e = set_status ((eg_status e)\<lparr>State := SyncStateSyncing\<rparr>) e"

definition IncrementErrors :: "Engine \<Rightarrow> Engine" where
  "IncrementErrors e = e\<lparr>eg_metrics := (eg_metrics e)\<lparr>m_syncErrors := m_syncErrors (eg_metrics e) + 1\<rparr>\<rparr>"

definition IncrementChangesApplied :: "Engine \<Rightarrow> Engine" where
  "IncrementChangesApplied e =
     e\<lparr>eg_metrics := (eg_metrics e)\<lparr>m_changesApplied := m_changesApplied (eg_metrics e) + 1\<rparr>\<rparr>"

record sync_ctx =
  sc_now :: time
  sc_inbound_order1 :: "Inbound order"
  sc_inbound_order2 :: "Inbound order"
  sc_user_order1 :: "User order"
  sc_user_order2 :: "User order"
  sc_plan_text :: "plan_error \<Rightarrow> string"

definition Reconcile :: "sync_ctx \<Rightarrow> DesiredState \<Rightarrow> Engine \<Rightarrow> Engine \<times> (string + Plan)" where
  "Reconcile ctx desired e =
     (let e = UpdateSyncing e; f = ev_file (eg_env e)
      in case cc_GetInbounds f of
           Inl err \<Rightarrow>
             let t = cc_error_text (eg_oserr e) err
             in (UpdateError t e, Inl (''failed to get current inbounds: '' @ t))
         | Inr currentInbounds \<Rightarrow>
             (case cc_GetUsers f of
                Inl err \<Rightarrow>
                  let t = cc_error_text (eg_oserr e) err
                  in (UpdateError t e, Inl (''failed to get current users: '' @ t))
              | Inr currentUsers \<Rightarrow>
                  (e, Inr (NewPlanWithConfigManager
                    (DiffInbounds (sc_inbound_order1 ctx) (sc_inbound_order2 ctx) (ds_Inbounds desired) currentInbounds)
                    (DiffUsers (sc_user_order1 ctx) (sc_user_order2 ctx) (ds_Users desired) currentUsers)
                    (eg_manager e)))))"

definition Apply :: "sync_ctx \<Rightarrow> Plan \<Rightarrow> int \<Rightarrow> Engine \<Rightarrow> Engine \<times> string option" where
  "Apply ctx plan version e =
     (let e = UpdateSyncing e
      in case Execute plan (eg_env e) of
           (env', Some err) \<Rightarrow>
             (IncrementErrors (UpdateError (sc_plan_text ctx err) (e\<lparr>eg_env := env'\<rparr>)), Some (sc_plan_text ctx err))
         | (env', None) \<Rightarrow>
             let changesCount = StepsCount plan
             in ((IncrementChangesApplied ^^ changesCount)
                   (UpdateSync (sc_now ctx) version (int changesCount) (e\<lparr>eg_env := env'\<rparr>)), None))"

definition DryRun :: "sync_ctx \<Rightarrow> DesiredState \<Rightarrow> Engine \<Rightarrow> Engine \<times> (string + Plan)" where
  "DryRun = Reconcile"

definition NewEngine :: "env \<Rightarrow> manager \<Rightarrow> sync_metrics \<Rightarrow> string \<Rightarrow> Engine" where
  "NewEngine env m metrics oserr =
     \<lparr>eg_env = env, eg_manager = m, eg_status = NewSyncStatus, eg_metrics = metrics, eg_oserr = oserr\<rparr>"

section \<open>REST\<close>

text \<open>The handlers of \<open>SyncHandler\<close>; an engine always has a status, so the branches for a nil status are not taken.\<close>

definition CodeVersionConflict :: string where "CodeVersionConflict = ''VERSION_CONFLICT''"
definition CodeSyncFailed :: string where "CodeSyncFailed = ''SYNC_FAILED''"

text \<open>\<open>SyncResult\<close>; its time stamp is the zero time, written as \<open>zero_time\<close>.\<close>

definition json_SyncResult :: "string \<Rightarrow> int \<Rightarrow> int \<Rightarrow> jv" where
  "json_SyncResult zero_time changes version =
     JObj [(''success'', JBool True), (''changesApplied'', JInt changes), (''version'', JInt version), (''timestamp'', JStr zero_time)]"

definition ApplyDesiredState :: "json_env \<Rightarrow> sync_ctx \<Rightarrow> string \<Rightarrow> Engine handler" where
  "ApplyDesiredState je ctx zero_time r e =
     (case Decode_DesiredState je (r_body r) of
        Inl err \<Rightarrow> (sendError 400 CodeInvalidRequest (''Invalid request body: '' @ err), e)
      | Inr desired \<Rightarrow>
          if ds_Version desired \<le> 0
          then (sendError 400 CodeInvalidRequest ''version must be a positive integer'', e)
          else if ds_Version desired \<le> CurrentVersion (eg_status e)
          then (sendError 409 CodeVersionConflict
                  (''version '' @ Itoa (ds_Version desired) @ '' is not newer than current version ''
                   @ Itoa (CurrentVersion (eg_status e))), e)
          else case Reconcile ctx desired e of
                 (e', Inl err) \<Rightarrow> (sendError 500 CodeSyncFailed (''Reconcile failed: '' @ err), e')
               | (e', Inr plan) \<Rightarrow>
                   (case Apply ctx plan (ds_Version desired) e' of
                      (e'', Some err) \<Rightarrow> (sendError 500 CodeSyncFailed (''Apply failed: '' @ err), e'')
                    | (e'', None) \<Rightarrow>
                        (sendSuccess 200 (json_SyncResult zero_time (int (StepsCount plan)) (ds_Version desired)), e'')))"

definition GetSyncStatus :: "(time \<Rightarrow> string) \<Rightarrow> Engine handler" where
  "GetSyncStatus fmt r e = (sendSuccess 200 (JObj (map (map_prod id json_dyn) (Status_Get fmt (eg_status e)))), e)"

section \<open>Probes\<close>

definition HealthHandler :: "'s handler" where
  "HealthHandler r s = ([HSet ''Content-Type'' ''text/plain'', WriteHeader 200, Write (Bytes ''OK'')], s)"

text \<open>
  \<open>ReadyzHandler\<close>: the core service is absent, or active or not; the engine may be absent.  The state is
  entered among the checks only when the type assertion holds.
\<close>

definition readyz_checks :: "(time \<Rightarrow> string) \<Rightarrow> bool option \<Rightarrow> Engine option \<Rightarrow> bool \<times> (string, string) gomap" where
  "readyz_checks fmt coreService syncEngine =
     (let (ready, checks) =
        (case coreService of
           None \<Rightarrow> (False, [(''singbox'', ''not_configured'')])
         | Some active \<Rightarrow> if active then (True, [(''singbox'', ''running'')]) else (False, [(''singbox'', ''not_running'')]))
      in case syncEngine of
           None \<Rightarrow> (ready, mput ''sync'' ''not_configured'' checks)
         | Some e \<Rightarrow>
             (case Option.bind (mget (Status_Get fmt (eg_status e)) ''state'') as_string of
                Some state \<Rightarrow> (if state = ''error'' then False else ready, mput ''sync'' state checks)
              | None \<Rightarrow> (ready, checks)))"

definition ReadyzHandler :: "(time \<Rightarrow> string) \<Rightarrow> bool option \<Rightarrow> Engine option handler" where
  "ReadyzHandler fmt coreService r syncEngine =
     (let (ready, checks) = readyz_checks fmt coreService syncEngine
      in (json_reply (if ready then 200 else 503)
            (JObj [(''ready'', JBool ready), (''checks'', JObj (map (map_prod id JStr) checks))]), syncEngine))"

text \<open>\<open>StatusHandler\<close>; the uptime is a \<open>float64\<close> of seconds.\<close>

definition StatusHandler :: "(time \<Rightarrow> string) \<Rightarrow> rat \<Rightarrow> int \<Rightarrow> string \<Rightarrow> Engine option handler" where
  "StatusHandler fmt uptime timestamp version r syncEngine =
     (let sync_fields =
        (case syncEngine of
           None \<Rightarrow> []
         | Some e \<Rightarrow>
             let statusMap = Status_Get fmt (eg_status e)
             in (case Option.bind (mget statusMap ''state'') as_string of Some state \<Rightarrow> opt_string ''sync_state'' state | None \<Rightarrow> [])
                @ [(''sync_status'', JObj (map (map_prod id json_dyn) statusMap))])
      in (json_reply 200 (JObj ([(''version'', JStr version), (''uptime_seconds'', JFloat uptime), (''status'', JStr ''running''),
            (''timestamp'', JInt timestamp)] @ sync_fields)), syncEngine))"

section \<open>Background synchronisation\<close>

text \<open>\<open>configToDesiredState\<close>: the limits and the reset time of a user are not copied.\<close>

definition configToDesiredState :: "DesiredState \<Rightarrow> DesiredState" where
  "configToDesiredState cfg =
     \<lparr>ds_Version = ds_Version cfg,
      ds_Inbounds = map (\<lambda>ib. \<lparr>Tag = Tag ib, Type = Type ib, Listen = Listen ib, Port = Port ib, Options = Options ib\<rparr>) (ds_Inbounds cfg),
      ds_Users = map (\<lambda>u. \<lparr>SubID = SubID u, UUID = UUID u, InboundTag = InboundTag u, Email = Email u, Enabled = Enabled u,
                           Flow = Flow u, LimitIP = 0, UploadLimit = 0, DownloadLimit = 0, ResetAt = None\<rparr>) (ds_Users cfg)\<rparr>"

definition reportStatus ::
  "json_env \<Rightarrow> 'w network \<Rightarrow> string \<Rightarrow> Client \<Rightarrow> string \<Rightarrow> int \<Rightarrow> string \<Rightarrow> 'w \<Rightarrow> 'w" where
  "reportStatus je net now c state version message w =
     fst (ReportStatus je net now c
       \<lparr>st_State = state, st_Version = version, st_Message = message, st_UpdatedAt = Some now\<rparr> w)"

definition fetchAndApplyDesiredState ::
  "json_env \<Rightarrow> 'w network \<Rightarrow> sync_ctx \<Rightarrow> string \<Rightarrow> Client \<Rightarrow> 'w \<times> Engine \<Rightarrow> 'w \<times> Engine" where
  "fetchAndApplyDesiredState je net ctx now c = (\<lambda>(w, e).
     case FetchConfig je net c w of
       (w', Inl err) \<Rightarrow> (w', e)
     | (w', Inr cfg) \<Rightarrow>
         let desired = configToDesiredState cfg
         in case Reconcile ctx desired e of
              (e', Inl err) \<Rightarrow> (w', e')
            | (e', Inr plan) \<Rightarrow>
                (case Apply ctx plan (ds_Version desired) e' of
                   (e'', Some err) \<Rightarrow> (w', e'')
                 | (e'', None) \<Rightarrow>
                     (reportStatus je net now c ''synced'' (ds_Version desired) ''initial sync completed'' w', e'')))"

text \<open>
  The loops: one element of the list for every tick that comes before the context is done.  A drift check is
  another round of \<open>fetchAndApplyDesiredState\<close>, at its time and with its iteration orders.
\<close>

definition DefaultHeartbeatInterval :: duration where "DefaultHeartbeatInterval = 30 * Second"
definition DefaultDriftCheckInterval :: duration where "DefaultDriftCheckInterval = 5 * 60 * Second"

definition heartbeatLoop :: "json_env \<Rightarrow> 'w network \<Rightarrow> Client \<Rightarrow> string list \<Rightarrow> 'w \<Rightarrow> 'w" where
  "heartbeatLoop je net c ticks w = fold (\<lambda>now w. fst (Heartbeat je net now c w)) ticks w"

definition driftCheckLoop ::
  "json_env \<Rightarrow> 'w network \<Rightarrow> Client \<Rightarrow> (sync_ctx \<times> string) list \<Rightarrow> 'w \<times> Engine \<Rightarrow> 'w \<times> Engine" where
  "driftCheckLoop je net c ticks we = fold (\<lambda>(ctx, now). fetchAndApplyDesiredState je net ctx now c) ticks we"

section \<open>The engine\<close>

lemma status_changes [simp]:
  "eg_env (UpdateSyncing e) = eg_env e" "eg_env (UpdateError t e) = eg_env e" "eg_env (IncrementErrors e) = eg_env e"
  "eg_env (UpdateSync now v n e) = eg_env e" "eg_manager (UpdateSyncing e) = eg_manager e"
  "CurrentVersion (eg_status (UpdateSyncing e)) = CurrentVersion (eg_status e)"
  "CurrentVersion (eg_status (UpdateError t e)) = CurrentVersion (eg_status e)"
  "CurrentVersion (eg_status (UpdateSync now v n e)) = v"
  "State (eg_status (UpdateError t e)) = SyncStateError" "State (eg_status (UpdateSync now v n e)) = SyncStateSynced"
  "InSync (eg_status (UpdateSync now v n e)) = True" "eg_status (IncrementErrors e) = eg_status e"
  by (simp_all add: UpdateSyncing_def UpdateError_def UpdateSync_def IncrementErrors_def set_status_def)

lemma increments [simp]:
  "eg_status ((IncrementChangesApplied ^^ n) e) = eg_status e" "eg_env ((IncrementChangesApplied ^^ n) e) = eg_env e"
  by (induction n) (simp_all add: IncrementChangesApplied_def)

lemma Reconcile_Inl:
  "Reconcile ctx d e = (e', Inl err) \<Longrightarrow>
     CurrentVersion (eg_status e') = CurrentVersion (eg_status e) \<and> State (eg_status e') = SyncStateError \<and> eg_env e' = eg_env e"
  by (auto simp: Reconcile_def Let_def split: sum.splits)

lemma Reconcile_Inr:
  "Reconcile ctx d e = (e', Inr p) \<Longrightarrow>
     CurrentVersion (eg_status e') = CurrentVersion (eg_status e) \<and> eg_env e' = eg_env e \<and>
     (\<exists>is us. cc_GetInbounds (ev_file (eg_env e)) = Inr is \<and> p = NewPlanWithConfigManager
        (DiffInbounds (sc_inbound_order1 ctx) (sc_inbound_order2 ctx) (ds_Inbounds d) is)
        (DiffUsers (sc_user_order1 ctx) (sc_user_order2 ctx) (ds_Users d) us) (eg_manager e))"
  by (auto simp: Reconcile_def Let_def split: sum.splits)

lemma Apply_Some:
  "Apply ctx p v e = (e', Some err) \<Longrightarrow>
     CurrentVersion (eg_status e') = CurrentVersion (eg_status e) \<and> State (eg_status e') = SyncStateError"
  by (auto simp: Apply_def Let_def split: prod.splits option.splits)

lemma Apply_None:
  "Apply ctx p v e = (e', None) \<Longrightarrow>
     CurrentVersion (eg_status e') = v \<and> State (eg_status e') = SyncStateSynced \<and> InSync (eg_status e') \<and>
     Execute p (eg_env e) = (eg_env e', None)"
  by (auto simp: Apply_def Let_def split: prod.splits option.splits)

text \<open>The four ways through the handler.\<close>

lemma ApplyDesiredState_cases:
  assumes "ApplyDesiredState je ctx zt r e = (ops, e')"
  obtains (rejected) "status ops \<in> {400, 409}" "e' = e"
      "\<not> (\<exists>d. Decode_DesiredState je (r_body r) = Inr d \<and> 0 < ds_Version d \<and> CurrentVersion (eg_status e) < ds_Version d)"
  | (failed) "status ops = 500" "CurrentVersion (eg_status e') = CurrentVersion (eg_status e)" "State (eg_status e') = SyncStateError"
  | (applied) d e1 p where "status ops = 200" "Decode_DesiredState je (r_body r) = Inr d" "0 < ds_Version d"
      "CurrentVersion (eg_status e) < ds_Version d" "Reconcile ctx d e = (e1, Inr p)" "Apply ctx p (ds_Version d) e1 = (e', None)"
proof (cases "Decode_DesiredState je (r_body r)")
  case (Inl err)
  with assms rejected show ?thesis
    by (auto simp: ApplyDesiredState_def)
next
  case (Inr d)
  show ?thesis
  proof (cases "ds_Version d \<le> 0 \<or> ds_Version d \<le> CurrentVersion (eg_status e)")
    case True
    with Inr assms rejected show ?thesis
      by (auto simp: ApplyDesiredState_def split: if_splits)
  next
    case False
    obtain e1 rp where rec: "Reconcile ctx d e = (e1, rp)"
      by fastforce
    show ?thesis
    proof (cases rp)
      case (Inl err)
      with Inr False rec assms failed Reconcile_Inl [of ctx d e e1 err] show ?thesis
        by (auto simp: ApplyDesiredState_def)
    next
      case plan: (Inr p)
      obtain e2 ra where app: "Apply ctx p (ds_Version d) e1 = (e2, ra)"
        by fastforce
      with Inr False rec plan assms failed applied [of d e1 p] Reconcile_Inr [of ctx d e e1 p]
        Apply_Some [of ctx p "ds_Version d" e1 e2] show ?thesis
        by (cases ra) (auto simp: ApplyDesiredState_def)
    qed
  qed
qed

text \<open>A sequence of requests, each with its time and its iteration orders.\<close>

definition run_requests :: "json_env \<Rightarrow> string \<Rightarrow> (sync_ctx \<times> request) list \<Rightarrow> Engine \<Rightarrow> Engine" where
  "run_requests je zt rs e = fold (\<lambda>(ctx, r) e. snd (ApplyDesiredState je ctx zt r e)) rs e"

lemma ApplyDesiredState_mono: "CurrentVersion (eg_status e) \<le> CurrentVersion (eg_status (snd (ApplyDesiredState je ctx zt r e)))"
proof -
  obtain ops e' where run: "ApplyDesiredState je ctx zt r e = (ops, e')"
    by fastforce
  then show ?thesis
    by (cases rule: ApplyDesiredState_cases) (auto simp: run dest!: Apply_None)
qed

lemma run_requests_mono: "CurrentVersion (eg_status e) \<le> CurrentVersion (eg_status (run_requests je zt rs e))"
proof (induction rs arbitrary: e)
  case (Cons cr rs)
  obtain ctx r where "cr = (ctx, r)"
    by fastforce
  with Cons show ?case
    using ApplyDesiredState_mono [of e je ctx zt r] order_trans by (fastforce simp: run_requests_def)
qed (simp add: run_requests_def)

text \<open>
  C35.  Versions only grow.  A request for a desired state is answered with 200, 400, 409 or 500.  It is
  accepted only when its body decodes to a state whose version is positive and newer than the current one, which it then
  becomes; otherwise it is rejected with 400 or 409 and changes nothing.  A request that fails while it is applied keeps the
  current version and leaves the state \<open>error\<close>.  Over any sequence of requests the current version never decreases.
\<close>

theorem ApplyDesiredState_versions:
  "(case ApplyDesiredState je ctx zt r e of (ops, e') \<Rightarrow>
     status ops \<in> {400, 409} \<and> e' = e \<and>
       \<not> (\<exists>d. Decode_DesiredState je (r_body r) = Inr d \<and> 0 < ds_Version d \<and> CurrentVersion (eg_status e) < ds_Version d) \<or>
     status ops = 500 \<and> CurrentVersion (eg_status e') = CurrentVersion (eg_status e) \<and> State (eg_status e') = SyncStateError \<or>
     status ops = 200 \<and> (\<exists>d. Decode_DesiredState je (r_body r) = Inr d \<and> 0 < ds_Version d \<and>
       CurrentVersion (eg_status e) < ds_Version d \<and> CurrentVersion (eg_status e') = ds_Version d \<and>
       State (eg_status e') = SyncStateSynced \<and> InSync (eg_status e'))) \<and>
   CurrentVersion (eg_status e) \<le> CurrentVersion (eg_status (run_requests je zt rs e))"
  (is "?step \<and> _")
proof
  obtain ops e' where run: "ApplyDesiredState je ctx zt r e = (ops, e')"
    by fastforce
  show ?step
    unfolding run prod.case using run by (cases rule: ApplyDesiredState_cases) (auto dest!: Apply_None)
  show "CurrentVersion (eg_status e) \<le> CurrentVersion (eg_status (run_requests je zt rs e))"
    by (rule run_requests_mono)
qed


section \<open>From a request to the file\<close>

lemma loadRootConfig_Inr:
  assumes "loadRootConfig f = Inr rt"
  obtains cfg where "loadConfigMap f = Inr cfg" "getInbounds rt = inbound_objs cfg"
proof -
  obtain data where f: "f = Some data"
    using assms by (cases f) (auto simp: loadRootConfig_def)
  obtain cfg where cfg: "Unmarshal data = Some (JObj cfg)"
    using assms f by (auto simp: loadRootConfig_def split: option.splits jv.splits)
  show ?thesis
    by (rule that [of cfg])
      (use assms f cfg in \<open>auto simp: loadRootConfig_def loadConfigMap_def getInbounds_def inbound_objs_def arr_at_def
        split: if_splits option.splits jv.splits\<close>)
qed

lemma cc_GetInbounds_tags: "cc_GetInbounds f = Inr is \<Longrightarrow> map Tag is = file_tags f"
  by (auto simp: cc_GetInbounds_def bindE_eq_Inr_iff file_tags_def tags_of_def inboundFromMap_def elim!: loadRootConfig_Inr)

lemma inboundFromMap_wf: "jwf (JObj m) \<Longrightarrow> inbound_wf (inboundFromMap m)"
  by (auto simp: inboundFromMap_def inbound_wf_def jwf_JObj mwf_def distinct_map_filter)

lemma cc_GetInbounds_wf:
  assumes "cc_GetInbounds f = Inr is" and "file_ok f"
  shows "\<forall>i \<in> set is. inbound_wf i"
proof -
  obtain rt where rt: "loadRootConfig f = Inr rt" "is = map inboundFromMap (getInbounds rt)"
    using assms(1) by (auto simp: cc_GetInbounds_def bindE_eq_Inr_iff)
  from rt(1) obtain cfg where cfg: "loadConfigMap f = Inr cfg" "getInbounds rt = inbound_objs cfg"
    by (rule loadRootConfig_Inr)
  then have "jwf (JObj cfg)"
    using assms(2) by (simp add: file_ok_def)
  moreover have "inbound_objs cfg = getInbounds cfg"
    by (simp add: inbound_objs_def getInbounds_def arr_at_def split: option.split jv.split)
  ultimately have "jwf (JObj m)" if "m \<in> set (inbound_objs cfg)" for m
    using that by (auto dest: jwf_getInbounds)
  with rt(2) cfg(2) show ?thesis
    by (auto intro: inboundFromMap_wf)
qed

lemma Execute_no_steps: "Execute p e = (e', None) \<Longrightarrow> StepsCount p = 0 \<Longrightarrow> e' = e"
  by (simp add: Execute_def StepsCount_def split: prod.splits option.splits if_splits)

text \<open>
  C36.  A desired state that is accepted is what is in the file.  When the agent answers 200, the body was a
  desired state, its inbounds' tags are exactly the tags in the configuration file, which is still well
  formed, and its version is the current one; either nothing had to be changed, or the last thing that happened
  is that sing-box reloaded this very file.
\<close>

theorem sync_converges:
  assumes "is_order (sc_inbound_order1 ctx)" and "is_order (sc_inbound_order2 ctx)" and "file_ok (ev_file (eg_env e))"
    and "eg_manager e = Manager rl" and "ApplyDesiredState je ctx zt r e = (ops, e')" and "status ops = 200"
  shows "\<exists>d. Decode_DesiredState je (r_body r) = Inr d \<and> set (file_tags (ev_file (eg_env e'))) = Tag ` set (ds_Inbounds d) \<and>
    file_ok (ev_file (eg_env e')) \<and> CurrentVersion (eg_status e') = ds_Version d \<and>
    (eg_env e' = eg_env e \<or> last (ev_log (eg_env e')) = (ev_file (eg_env e'), True))"
  using assms(5)
proof (cases rule: ApplyDesiredState_cases)
  case (applied d e1 p)
  note rec = Reconcile_Inr [OF applied(5)] and app = Apply_None [OF applied(6)]
  then obtain "is" us where listed: "cc_GetInbounds (ev_file (eg_env e)) = Inr is" and p: "p = NewPlanWithConfigManager
      (DiffInbounds (sc_inbound_order1 ctx) (sc_inbound_order2 ctx) (ds_Inbounds d) is)
      (DiffUsers (sc_user_order1 ctx) (sc_user_order2 ctx) (ds_Users d) us) (Manager rl)"
    using assms(4) by auto
  have exec: "Execute p (eg_env e) = (eg_env e', None)"
    using rec app by simp
  have "set (file_tags (ev_file (eg_env e))) = Tag ` set is"
    using cc_GetInbounds_tags [OF listed] by (metis set_map)
  from plan_converges [OF assms(1-3) this Decode_DesiredState_wf [OF applied(2)] cc_GetInbounds_wf [OF listed assms(3)] p exec]
    Execute_no_steps [OF exec] applied(2) app show ?thesis
    by auto
qed (use assms(6) in auto)

text \<open>A request for one inbound, to an agent whose file has none.\<close>

definition demo_state_body :: jv where
  "demo_state_body = JObj [(''version'', JInt 1), (''inbounds'', JArr [JObj [(''tag'', JStr ''b''), (''type'', JStr ''vless'')]])]"

definition demo_sync_json :: json_env where
  "demo_sync_json = \<lparr>je_parse = (\<lambda>b. Inr demo_state_body), je_type_error = (\<lambda>v. ''type''), je_time = (\<lambda>s. Inl ''time'')\<rparr>"

definition demo_ctx :: sync_ctx where
  "demo_ctx = \<lparr>sc_now = 0, sc_inbound_order1 = id, sc_inbound_order2 = id, sc_user_order1 = id, sc_user_order2 = id,
     sc_plan_text = (\<lambda>e. ''plan'')\<rparr>"

definition demo_engine :: Engine where
  "demo_engine = NewEngine (demo_env [(''inbounds'', JArr [])] []) (Manager True)
     \<lparr>m_syncStatus = None, m_syncTimestamp = None, m_changesApplied = 0, m_syncErrors = 0\<rparr> ''os''"

lemma demo_names: "\<not> names ''inbounds'' ''version''" "\<not> names ''type'' ''tag''"
  by (simp_all add: names_def lower_char_def char_of_def)

lemma demo_decode:
  "Decode_DesiredState demo_sync_json b = Inr \<lparr>ds_Version = 1, ds_Inbounds = [demo_inbound], ds_Users = []\<rparr>"
  by (simp add: Decode_DesiredState_def demo_sync_json_def demo_state_body_def dec_DesiredState_def dec_struct_def
      dec_DesiredState_field_def demo_names dec_int_def dec_slice_def dec_Inbound_def dec_Inbound_field_def dec_string_def
      zero_DesiredState_def zero_Inbound_def demo_inbound_def)


definition demo_put :: request where
  "demo_put = \<lparr>r_method = ''PUT'', r_path = ''/sync'', r_header = [], r_body = NewReader []\<rparr>"

lemma sync_demo_listed: "cc_GetInbounds (written_file [(''inbounds'', JArr [])]) = Inr []"
  "cc_GetUsers (written_file [(''inbounds'', JArr [])]) = Inr []"
  by (simp_all add: written_file_def loadRootConfig_def cc_GetInbounds_def cc_GetUsers_def getInbounds_def arr_at_def)

lemma demo_plan:
  "Reconcile demo_ctx \<lparr>ds_Version = 1, ds_Inbounds = [demo_inbound], ds_Users = []\<rparr> demo_engine =
     (UpdateSyncing demo_engine, Inr (NewPlanWithConfigManager [demo_create] [] (Manager True)))"
  by (simp add: Reconcile_def demo_ctx_def demo_engine_def NewEngine_def demo_env_def sync_demo_listed demo_diff DiffUsers_def
      diff_by_def index_by_def)

lemma demo_execute:
  "\<exists>e'. Execute (NewPlanWithConfigManager [demo_create] [] (Manager True)) (demo_env [(''inbounds'', JArr [])] []) = (e', None)"
  using demo_loop [of True "[]" "[]"]
  by (auto simp: Execute_def NewPlanWithConfigManager_def buildSteps_def demo_create_def cm_Reload_def)

lemma demo_request:
  obtains ops e' where "ApplyDesiredState demo_sync_json demo_ctx zt r demo_engine = (ops, e')" "status ops = 200"
proof -
  obtain e1 where run: "Execute (NewPlanWithConfigManager [demo_create] [] (Manager True)) (eg_env demo_engine) = (e1, None)"
    using demo_execute by (auto simp: demo_engine_def NewEngine_def)
  have v: "CurrentVersion (eg_status demo_engine) = -1"
    by (simp add: demo_engine_def NewEngine_def NewSyncStatus_def)
  show ?thesis
    by (rule that [OF surjective_pairing])
      (simp add: ApplyDesiredState_def demo_decode demo_plan Apply_def run v Let_def)
qed

theorem sync_converges_witness:
  "\<exists>ops e'. ApplyDesiredState demo_sync_json demo_ctx [] (demo_put) demo_engine = (ops, e') \<and>
     set (file_tags (ev_file (eg_env e'))) = {''b''} \<and> CurrentVersion (eg_status e') = 1"
proof -
  obtain ops e' where run: "ApplyDesiredState demo_sync_json demo_ctx [] (demo_put) demo_engine = (ops, e')"
      "status ops = 200"
    by (rule demo_request)
  have "is_order (sc_inbound_order1 demo_ctx)" "is_order (sc_inbound_order2 demo_ctx)" "eg_manager demo_engine = Manager True"
    "file_ok (ev_file (eg_env demo_engine))"
    by (simp_all add: demo_ctx_def is_order_def demo_engine_def NewEngine_def demo_env_def file_ok_def jwf_JObj mwf_def)
  from sync_converges [OF this(1,2,4,3) run] run(1) show ?thesis
    by (auto simp: demo_decode demo_inbound_def)
qed

text \<open>
  Readiness does not depend on synchronisation.  \<open>ReadyzHandler\<close> looks for a \<open>string\<close> under the key \<open>state\<close> of the
  status, where there is a \<open>SyncState\<close>: whatever the engine's state, also after a failed synchronisation, the agent is
  ready exactly when sing-box is active, the checks have no entry for the synchronisation, and the
  answer of \<open>StatusHandler\<close> has no \<open>sync_state\<close>.
\<close>

theorem readyz_ignores_sync:
  "status (fst (ReadyzHandler fmt coreService r (Some e))) = (if coreService = Some True then 200 else 503) \<and>
   fst ` set (snd (readyz_checks fmt coreService (Some e))) = {''singbox''} \<and>
   (\<exists>m. fst (StatusHandler fmt uptime ts version r (Some e)) = json_reply 200 (JObj m) \<and> mget m ''sync_state'' = None)"
  by (cases "coreService")
    (auto simp: ReadyzHandler_def readyz_checks_def Status_Get_def StatusHandler_def)
end
