(* ===== verification/Convergence.thy ===== *)
theory Convergence
  imports Engine
begin

text \<open>
  What a synchronisation does to the users.  The engine reads them with \<open>ConfigClient.GetUsers\<close>, which finds the id of a user under
  four keys, and changes them with \<open>ConfigManager\<close>, which looks for an id under four keys, not the same ones.  The theory states
  when this gives the desired users, and shows that a synchronisation is repeated for ever when an inbound has users.
\<close>

section \<open>The users in a configuration\<close>

text \<open>The id under which \<open>userFromMap\<close> lists a user.\<close>

definition listed_id :: "jobj \<Rightarrow> string" where
  "listed_id u = firstNonEmpty [getString u ''subId'', getString u ''name'', getString u ''email'', getString u ''uuid'']"

text \<open>Every user object with the tag of its inbound.\<close>

definition people_of :: "jobj list \<Rightarrow> (string \<times> jobj) set" where
  "people_of ms = (\<Union>m \<in> set ms. Pair (getString m ''tag'') ` set (objects (getInboundUsers m)))"

definition people :: "jobj \<Rightarrow> (string \<times> jobj) set" where
  "people cfg = people_of (inbound_objs cfg)"

text \<open>The users that \<open>GetUsers\<close> lists for some inbounds, with their multiplicity.\<close>

definition users_of_objs :: "jobj list \<Rightarrow> User multiset" where
  "users_of_objs ms = mset (concat (map inbound_users ms))"

definition users_in :: "jobj \<Rightarrow> User multiset" where
  "users_in cfg = users_of_objs (inbound_objs cfg)"

definition file_users :: "cfgfile \<Rightarrow> User multiset" where
  "file_users f = (case loadConfigMap f of Inr cfg \<Rightarrow> users_in cfg | Inl _ \<Rightarrow> {#})"

text \<open>No user is found under the id of another one; the ids are those in \<open>X\<close>.\<close>

definition clash_free :: "string set \<Rightarrow> (string \<times> jobj) set \<Rightarrow> bool" where
  "clash_free X P \<longleftrightarrow> (\<forall>p \<in> P. \<forall>x \<in> X. userMapMatchesSubID (snd p) x \<longleftrightarrow> listed_id (snd p) = x)"

definition file_people :: "cfgfile \<Rightarrow> (string \<times> jobj) set" where
  "file_people f = (case loadConfigMap f of Inr cfg \<Rightarrow> people cfg | Inl _ \<Rightarrow> {})"

lemma people_of_append [simp]: "people_of (a @ b) = people_of a \<union> people_of b"
  by (auto simp: people_of_def)

lemma people_of_Cons: "people_of (m # ms) = Pair (getString m ''tag'') ` set (objects (getInboundUsers m)) \<union> people_of ms"
  by (simp add: people_of_def)

lemma people_of_tag: "(t, u) \<in> people_of ms \<Longrightarrow> t \<in> (\<lambda>m. getString m ''tag'') ` set ms"
  by (auto simp: people_of_def)

lemma users_of_objs_simps [simp]:
  "users_of_objs [] = {#}" "users_of_objs (m # ms) = mset (inbound_users m) + users_of_objs ms"
  "users_of_objs (a @ b) = users_of_objs a + users_of_objs b"
  by (simp_all add: users_of_objs_def)

text \<open>Writing the file and reading it back changes nothing of this.\<close>

lemma inbound_objs_getInbounds: "inbound_objs cfg = getInbounds cfg"
  by (simp add: inbound_objs_def getInbounds_def arr_at_def split: option.split jv.split)

lemma people_mwf:
  assumes "jwf (JObj cfg)" and "(t, u) \<in> people cfg"
  shows "mwf u"
proof -
  obtain m where m: "m \<in> set (getInbounds cfg)" "u \<in> set (objects (getInboundUsers m))"
    using assms(2) by (auto simp: people_def people_of_def inbound_objs_getInbounds)
  with jwf_getInboundUsers [OF jwf_getInbounds [OF assms(1) m(1)], of "JObj u"] show ?thesis
    by (simp add: set_objects jwf_JObj)
qed

lemma people_modelToMap:
  assumes "jwf (JObj cfg)"
  shows "people (modelToMap cfg) = map_prod id modelToMap ` people cfg"
proof -
  have "Pair (getString (modelToMap m) ''tag'') ` set (objects (getInboundUsers (modelToMap m))) =
      map_prod id modelToMap ` Pair (getString m ''tag'') ` set (objects (getInboundUsers m))" if "m \<in> set (getInbounds cfg)" for m
    using jwf_getInbounds [OF assms that] by (simp add: objects_users_modelToMap getString_modelToMap jwf_JObj image_image)
  with assms show ?thesis
    by (auto simp: people_def people_of_def inbound_objs_getInbounds getInbounds_modelToMap jwf_JObj image_UN)
qed

lemma listed_id_modelToMap: "mwf u \<Longrightarrow> listed_id (modelToMap u) = listed_id u"
  by (simp add: listed_id_def getString_modelToMap)

lemma canon_JStr: "canon v = JStr s \<longleftrightarrow> v = JStr s"
  by (cases v) auto

lemma matches_modelToMap: "mwf u \<Longrightarrow> userMapMatchesSubID (modelToMap u) x \<longleftrightarrow> userMapMatchesSubID u x"
  by (simp add: userMapMatchesSubID_def mget_modelToMap canon_JStr)

lemma clash_free_modelToMap:
  assumes "\<And>t u. (t, u) \<in> P \<Longrightarrow> mwf u"
  shows "clash_free X (map_prod id modelToMap ` P) \<longleftrightarrow> clash_free X P"
proof -
  have "userMapMatchesSubID (modelToMap (snd p)) x = userMapMatchesSubID (snd p) x" "listed_id (modelToMap (snd p)) = listed_id (snd p)"
    if "p \<in> P" for p x
    using assms [of "fst p" "snd p"] that by (simp_all add: listed_id_modelToMap matches_modelToMap)
  then show ?thesis
    unfolding clash_free_def by simp
qed

lemma users_in_modelToMap:
  assumes "jwf (JObj cfg)"
  shows "users_in (modelToMap cfg) = users_in cfg"
proof -
  have "map inbound_users (map modelToMap (getInbounds cfg)) = map inbound_users (getInbounds cfg)"
    using jwf_getInbounds [OF assms] by (simp add: inbound_users_modelToMap)
  with assms show ?thesis
    unfolding users_in_def users_of_objs_def inbound_objs_getInbounds by (simp only: getInbounds_modelToMap jwf_JObj)
qed

text \<open>\<open>GetUsers\<close> lists these users.\<close>

lemma userFromMap_listed:
  "map_option (\<lambda>v. (InboundTag v, SubID v)) (userFromMap u t) = (if listed_id u = [] then None else Some (t, listed_id u))"
  by (simp add: userFromMap_def listed_id_def Let_def)

lemma userFromMap_id: "userFromMap u t = Some v \<Longrightarrow> InboundTag v = t \<and> SubID v = listed_id u"
  using userFromMap_listed [of u t] by (auto split: if_splits)

lemma inbound_users_tag: "v \<in> set (inbound_users m) \<Longrightarrow> InboundTag v = getString m ''tag''"
  by (auto simp: inbound_users_def List.map_filter_def dest: userFromMap_id)

lemma users_of_objs_tag: "v \<in># users_of_objs ms \<Longrightarrow> InboundTag v \<in> (\<lambda>m. getString m ''tag'') ` set ms"
  by (auto simp: users_of_objs_def dest: inbound_users_tag)

lemma cc_GetUsers_file:
  assumes "cc_GetUsers f = Inr us"
  shows "file_users f = mset us"
proof -
  obtain rt where rt: "loadRootConfig f = Inr rt" "us = concat (map inbound_users (getInbounds rt))"
    using assms by (auto simp: cc_GetUsers_def bindE_eq_Inr_iff)
  from rt(1) obtain cfg where "loadConfigMap f = Inr cfg" "getInbounds rt = inbound_objs cfg"
    by (rule loadRootConfig_Inr)
  with rt(2) show ?thesis
    by (simp add: file_users_def users_in_def users_of_objs_def)
qed

section \<open>The edits\<close>

text \<open>The inbound with a tag, when tags are unique.\<close>

lemma objects_split:
  "i < length vs \<Longrightarrow> vs ! i = JObj m \<Longrightarrow>
     objects vs = objects (take i vs) @ m # objects (drop (Suc i) vs) \<and>
     objects (vs[i := JObj m']) = objects (take i vs) @ m' # objects (drop (Suc i) vs)"
  by (metis append_Cons append_Nil id_take_nth_drop objects.simps(2) objects_append upd_conv_take_nth_drop)

lemma findInbound_split:
  assumes "findInbound cfg tag = Inr (vs, i, m)" and "distinct (tags_of cfg)"
  obtains a b where "inbound_objs cfg = a @ m # b" "getString m ''tag'' = tag" "tag \<notin> (\<lambda>m. getString m ''tag'') ` (set a \<union> set b)"
    "\<forall>m'. inbound_objs (set_inbounds (vs[i := JObj m']) cfg) = a @ m' # b"
proof -
  have vs: "mget cfg ''inbounds'' = Some (JArr vs)" and find: "i < length vs" "vs ! i = JObj m" "getString m ''tag'' = tag"
    using assms(1) find_tag_Some by (auto simp: findInbound_Inr)
  let ?a = "objects (take i vs)" and ?b = "objects (drop (Suc i) vs)"
  have objs: "inbound_objs cfg = ?a @ m # ?b"
    using vs objects_split [OF find(1,2)] by (simp add: inbound_objs_def)
  moreover have "\<forall>m'. inbound_objs (set_inbounds (vs[i := JObj m']) cfg) = ?a @ m' # ?b"
    using objects_split [OF find(1,2)] by (simp add: inbound_objs_def set_inbounds_def)
  moreover have "tag \<notin> (\<lambda>m. getString m ''tag'') ` (set ?a \<union> set ?b)"
    using assms(2) find(3) by (auto simp: tags_of_def objs)
  ultimately show ?thesis
    using that find(3) by blast
qed

text \<open>The two ways to find the list of users agree.\<close>

lemma usersAccessor_users:
  assumes "usersAccessor m create = Inr (us, loc)"
  shows "getInboundUsers m = us" and "getInboundUsers (setUsers loc us' m) = us'"
  using assms
  by (auto simp: usersAccessor_def getInboundUsers_def arr_at_def obj_at_def Let_def split: option.splits jv.splits if_splits)

text \<open>What the edit of the users of one inbound does.\<close>

lemma people_user_edit:
  assumes "findInbound cfg tag = Inr (vs, i, m)" and "distinct (tags_of cfg)" and "usersAccessor m create = Inr (us, loc)"
  shows "(t, u) \<in> people (set_inbounds (vs[i := JObj (setUsers loc us' m)]) cfg) \<longleftrightarrow>
      (if t = tag then u \<in> set (objects us') else (t, u) \<in> people cfg)"
    and "(tag, u) \<in> people cfg \<longleftrightarrow> u \<in> set (objects us)"
proof -
  obtain a b where ab: "inbound_objs cfg = a @ m # b" "getString m ''tag'' = tag" "tag \<notin> (\<lambda>m. getString m ''tag'') ` (set a \<union> set b)"
    "\<forall>m'. inbound_objs (set_inbounds (vs[i := JObj m']) cfg) = a @ m' # b"
    by (rule findInbound_split [OF assms(1,2)])
  have "(tag, u) \<notin> people_of a" "(tag, u) \<notin> people_of b" for u
    using ab(3) people_of_tag [of tag u a] people_of_tag [of tag u b] by auto
  then show "(t, u) \<in> people (set_inbounds (vs[i := JObj (setUsers loc us' m)]) cfg) \<longleftrightarrow>
      (if t = tag then u \<in> set (objects us') else (t, u) \<in> people cfg)" "(tag, u) \<in> people cfg \<longleftrightarrow> u \<in> set (objects us)"
    by (auto simp: people_def ab people_of_Cons usersAccessor_users [OF assms(3)] getString_setUsers)
qed

text \<open>The users of one inbound, as they are listed, beside those of the others.\<close>

definition tagged_users :: "string \<Rightarrow> jv list \<Rightarrow> User list" where
  "tagged_users tag us = List.map_filter (\<lambda>u. userFromMap u tag) (objects us)"

lemma tagged_users_simps [simp]:
  "tagged_users tag [] = []" "tagged_users tag (a @ b) = tagged_users tag a @ tagged_users tag b"
  "tagged_users tag (JObj u # us) = (case userFromMap u tag of Some v \<Rightarrow> v # tagged_users tag us | None \<Rightarrow> tagged_users tag us)"
  by (auto simp: tagged_users_def List.map_filter_def split: option.split)

lemma tagged_users_tag: "v \<in> set (tagged_users tag us) \<Longrightarrow> InboundTag v = tag"
  by (auto simp: tagged_users_def List.map_filter_def dest: userFromMap_id)

lemma users_user_edit:
  assumes "findInbound cfg tag = Inr (vs, i, m)" and "distinct (tags_of cfg)" and "usersAccessor m create = Inr (us, loc)"
  obtains R where "users_in cfg = R + mset (tagged_users tag us)" "\<forall>v \<in># R. InboundTag v \<noteq> tag"
    "\<forall>us'. users_in (set_inbounds (vs[i := JObj (setUsers loc us' m)]) cfg) = R + mset (tagged_users tag us')"
proof -
  obtain a b where ab: "inbound_objs cfg = a @ m # b" "getString m ''tag'' = tag" "tag \<notin> (\<lambda>m. getString m ''tag'') ` (set a \<union> set b)"
    "\<forall>m'. inbound_objs (set_inbounds (vs[i := JObj m']) cfg) = a @ m' # b"
    by (rule findInbound_split [OF assms(1,2)])
  have "\<forall>v \<in># users_of_objs a + users_of_objs b. InboundTag v \<noteq> tag"
    using ab(3) users_of_objs_tag [of _ a] users_of_objs_tag [of _ b] by (auto simp: image_iff)
  moreover have "inbound_users m = tagged_users tag us" "inbound_users (setUsers loc us' m) = tagged_users tag us'" for us'
    by (simp_all add: inbound_users_def tagged_users_def usersAccessor_users [OF assms(3)] getString_setUsers ab(2))
  ultimately show ?thesis
    by (intro that [of "users_of_objs a + users_of_objs b"]) (simp_all add: users_in_def ab(1,4))
qed

abbreviation new_user :: "User \<Rightarrow> jobj" where
  "new_user u \<equiv> modelToMap (user_fields u)"

text \<open>
  A user that has been written as it is listed: \<open>userFromMap\<close> reads the id, the UUID, the e-mail address, the flow and whether the user
  is enabled; the limits and the date of the reset are in the file and are not read.
\<close>

definition shown :: "User \<Rightarrow> User" where
  "shown u = u\<lparr>LimitIP := 0, UploadLimit := 0, DownloadLimit := 0, ResetAt := None\<rparr>"

lemma shown_simps [simp]: "SubID (shown u) = SubID u" "InboundTag (shown u) = InboundTag u"
  by (simp_all add: shown_def)

lemma userFromMap_written: "SubID u \<noteq> [] \<Longrightarrow> userFromMap (new_user u) (InboundTag u) = Some (shown u)"
proof -
  assume id: "SubID u \<noteq> []"
  have fields: "getString (user_fields u) ''subId'' = SubID u" "getString (user_fields u) ''uuid'' = UUID u"
    "getString (user_fields u) ''password'' = []" "getString (user_fields u) ''email'' = Email u"
    "getString (user_fields u) ''flow'' = Flow u" "mget (user_fields u) ''enabled'' = Some (JBool (Enabled u))"
    by (auto simp: user_fields_def getString_def opt_string_def opt_int_def mget_append split: option.split)
  from id show ?thesis
    by (simp add: userFromMap_modelToMap mwf_user_fields) (simp add: userFromMap_def shown_def fields Let_def)
qed

lemma new_user_id:
  assumes "SubID u \<noteq> []"
  shows "listed_id (new_user u) = SubID u" and "userMapMatchesSubID (new_user u) x \<longleftrightarrow> x = SubID u \<or> UUID u \<noteq> [] \<and> x = UUID u"
proof -
  have "mget (user_fields u) ''subId'' = Some (JStr (SubID u))" "mget (user_fields u) ''sub_id'' = None" "mget (user_fields u) ''name'' = None"
    "mget (user_fields u) ''uuid'' = (if UUID u = [] then None else Some (JStr (UUID u)))"
    by (auto simp: user_fields_def opt_string_def opt_int_def mget_append split: option.split)
  then show "userMapMatchesSubID (new_user u) x \<longleftrightarrow> x = SubID u \<or> UUID u \<noteq> [] \<and> x = UUID u"
    by (auto simp: userMapMatchesSubID_def mget_modelToMap mwf_user_fields)
  show "listed_id (new_user u) = SubID u"
    using assms by (simp add: listed_id_def)
qed

lemma people_AddUser:
  assumes "edit_AddUser tag u cfg = Inr cfg'" and "distinct (tags_of cfg)"
  shows "people cfg' = insert (tag, new_user u) (people cfg)"
proof -
  obtain vs i m us loc where *: "findInbound cfg tag = Inr (vs, i, m)" "usersAccessor m True = Inr (us, loc)"
    "cfg' = set_inbounds (vs[i := JObj (setUsers loc (us @ [JObj (new_user u)]) m)]) cfg"
    using assms(1) by (auto simp: edit_AddUser_def bindE_eq_Inr_iff split: if_splits)
  show ?thesis
    unfolding *(3) using people_user_edit [OF *(1) assms(2) *(2)] by (auto simp: set_eq_iff)
qed

lemma replace_first_user:
  "list_ex (is_user s) us \<Longrightarrow>
     \<exists>a w b. us = a @ JObj w # b \<and> userMapMatchesSubID w s \<and> replace_first (is_user s) (\<lambda>_. v) us = a @ v # b"
proof (induction us)
  case (Cons x us)
  show ?case
  proof (cases "is_user s x")
    case True
    then obtain w where "x = JObj w" "userMapMatchesSubID w s"
      by (cases x) auto
    with True show ?thesis
      by (intro exI [of _ "[]"] exI [of _ w] exI [of _ us]) simp
  next
    case False
    with Cons obtain a w b where "us = a @ JObj w # b" "userMapMatchesSubID w s" "replace_first (is_user s) (\<lambda>_. v) us = a @ v # b"
      by auto
    with False show ?thesis
      by (intro exI [of _ "x # a"] exI [of _ w] exI [of _ b]) simp
  qed
qed simp

lemma people_UpdateUser:
  assumes "edit_UpdateUser tag u cfg = Inr cfg'" and "distinct (tags_of cfg)"
  obtains w where "(tag, w) \<in> people cfg" "userMapMatchesSubID w (SubID u)"
    "people cfg - {(tag, w)} \<union> {(tag, new_user u)} \<subseteq> people cfg'" "people cfg' \<subseteq> insert (tag, new_user u) (people cfg)"
proof -
  obtain vs i m us loc where *: "findInbound cfg tag = Inr (vs, i, m)" "usersAccessor m False = Inr (us, loc)"
    "list_ex (is_user (SubID u)) us"
    "cfg' = set_inbounds (vs[i := JObj (setUsers loc (replace_first (is_user (SubID u)) (\<lambda>_. JObj (new_user u)) us) m)]) cfg"
    using assms(1) by (auto simp: edit_UpdateUser_def bindE_eq_Inr_iff split: if_splits)
  obtain a w b where w: "us = a @ JObj w # b" "userMapMatchesSubID w (SubID u)"
    "replace_first (is_user (SubID u)) (\<lambda>_. JObj (new_user u)) us = a @ JObj (new_user u) # b"
    using replace_first_user [OF *(3)] by blast
  have new: "(t, v) \<in> people cfg' \<longleftrightarrow> (if t = tag then v \<in> set (objects (a @ JObj (new_user u) # b)) else (t, v) \<in> people cfg)" for t v
    unfolding *(4) w(3) by (rule people_user_edit(1) [OF *(1) assms(2) *(2)])
  show ?thesis
    by (rule that [of w]) (use people_user_edit(2) [OF *(1) assms(2) *(2)] new w in \<open>auto split: if_splits\<close>)
qed

lemma people_DeleteUser:
  assumes "edit_DeleteUser tag s cfg = Inr cfg'" and "distinct (tags_of cfg)"
  shows "people cfg' = {p \<in> people cfg. \<not> (fst p = tag \<and> userMapMatchesSubID (snd p) s)}"
proof -
  obtain vs i m us loc where *: "findInbound cfg tag = Inr (vs, i, m)" "usersAccessor m False = Inr (us, loc)"
    "cfg' = set_inbounds (vs[i := JObj (setUsers loc (filter (\<lambda>e. \<not> is_user s e) us) m)]) cfg"
    using assms(1) by (auto simp: edit_DeleteUser_def bindE_eq_Inr_iff split: if_splits)
  have "set (objects (filter (\<lambda>e. \<not> is_user s e) us)) = {u \<in> set (objects us). \<not> userMapMatchesSubID u s}"
    by (auto simp: set_objects)
  with people_user_edit [OF *(1) assms(2) *(2)] show ?thesis
    unfolding *(3) by (auto split: if_splits)
qed

lemma users_AddUser:
  assumes "edit_AddUser (InboundTag u) u cfg = Inr cfg'" and "distinct (tags_of cfg)" and "SubID u \<noteq> []"
  shows "users_in cfg' = add_mset (shown u) (users_in cfg)"
proof -
  obtain vs i m us loc where *: "findInbound cfg (InboundTag u) = Inr (vs, i, m)" "usersAccessor m True = Inr (us, loc)"
    "cfg' = set_inbounds (vs[i := JObj (setUsers loc (us @ [JObj (new_user u)]) m)]) cfg"
    using assms(1) by (auto simp: edit_AddUser_def bindE_eq_Inr_iff split: if_splits)
  show ?thesis
    by (rule users_user_edit [OF *(1) assms(2) *(2)]) (simp add: *(3) userFromMap_written [OF assms(3)])
qed

lemma users_UpdateUser:
  assumes "edit_UpdateUser (InboundTag u) u cfg = Inr cfg'" and "distinct (tags_of cfg)" and "SubID u \<noteq> []"
    and "clash_free {SubID u} (people cfg)"
  obtains v where "v \<in># users_in cfg" "InboundTag v = InboundTag u" "SubID v = SubID u"
    "users_in cfg' = add_mset (shown u) (users_in cfg - {#v#})"
proof -
  obtain vs i m us loc where *: "findInbound cfg (InboundTag u) = Inr (vs, i, m)" "usersAccessor m False = Inr (us, loc)"
    "list_ex (is_user (SubID u)) us"
    "cfg' = set_inbounds (vs[i := JObj (setUsers loc (replace_first (is_user (SubID u)) (\<lambda>_. JObj (new_user u)) us) m)]) cfg"
    using assms(1) by (auto simp: edit_UpdateUser_def bindE_eq_Inr_iff split: if_splits)
  obtain a w b where w: "us = a @ JObj w # b" "userMapMatchesSubID w (SubID u)"
    "replace_first (is_user (SubID u)) (\<lambda>_. JObj (new_user u)) us = a @ JObj (new_user u) # b"
    using replace_first_user [OF *(3)] by blast
  have "(InboundTag u, w) \<in> people cfg"
    using people_user_edit(2) [OF *(1) assms(2) *(2)] w(1) by simp
  with assms(4) w(2) have id: "listed_id w = SubID u"
    by (auto simp: clash_free_def)
  then obtain v where v: "userFromMap w (InboundTag u) = Some v"
    using userFromMap_listed [of w "InboundTag u"] assms(3) by auto
  obtain R where "users_in cfg = R + mset (tagged_users (InboundTag u) us)"
    "users_in cfg' = R + mset (tagged_users (InboundTag u) (a @ JObj (new_user u) # b))"
    by (rule users_user_edit [OF *(1) assms(2) *(2)]) (simp add: *(4) w(3))
  with userFromMap_id [OF v] id show ?thesis
    by (intro that [of v]) (simp_all add: w(1) v userFromMap_written [OF assms(3)])
qed

lemma objects_unmatched: "objects (filter (\<lambda>e. \<not> is_user s e) us) = filter (\<lambda>u. \<not> userMapMatchesSubID u s) (objects us)"
  by (induction us rule: objects.induct) simp_all

lemma map_filter_unlisted:
  assumes "\<And>u. u \<in> set ms \<Longrightarrow> P u \<longleftrightarrow> listed_id u = s"
  shows "List.map_filter (\<lambda>u. userFromMap u tag) (filter (\<lambda>u. \<not> P u) ms) =
    filter (\<lambda>v. \<not> (InboundTag v = tag \<and> SubID v = s)) (List.map_filter (\<lambda>u. userFromMap u tag) ms)"
  using assms
proof (induction ms)
  case (Cons u ms)
  then show ?case
    by (cases "userFromMap u tag") (auto dest: userFromMap_id)
qed simp

lemma users_DeleteUser:
  assumes "edit_DeleteUser tag s cfg = Inr cfg'" and "distinct (tags_of cfg)" and "clash_free {s} (people cfg)"
  shows "users_in cfg' = {#v \<in># users_in cfg. \<not> (InboundTag v = tag \<and> SubID v = s)#}"
proof -
  obtain vs i m us loc where *: "findInbound cfg tag = Inr (vs, i, m)" "usersAccessor m False = Inr (us, loc)"
    "cfg' = set_inbounds (vs[i := JObj (setUsers loc (filter (\<lambda>e. \<not> is_user s e) us) m)]) cfg"
    using assms(1) by (auto simp: edit_DeleteUser_def bindE_eq_Inr_iff split: if_splits)
  have "userMapMatchesSubID u s \<longleftrightarrow> listed_id u = s" if "u \<in> set (objects us)" for u
    using people_user_edit(2) [OF *(1) assms(2) *(2), of u] that assms(3) by (auto simp: clash_free_def)
  then have kept: "tagged_users tag (filter (\<lambda>e. \<not> is_user s e) us) = filter (\<lambda>v. \<not> (InboundTag v = tag \<and> SubID v = s)) (tagged_users tag us)"
    unfolding tagged_users_def objects_unmatched by (rule map_filter_unlisted)
  obtain R where R: "users_in cfg = R + mset (tagged_users tag us)" "\<forall>v \<in># R. InboundTag v \<noteq> tag"
    "users_in cfg' = R + mset (filter (\<lambda>v. \<not> (InboundTag v = tag \<and> SubID v = s)) (tagged_users tag us))"
    by (rule users_user_edit [OF *(1) assms(2) *(2)]) (simp add: *(3) kept)
  have "{#v \<in># R. \<not> (InboundTag v = tag \<and> SubID v = s)#} = R"
    using R(2) by (simp add: filter_mset_eq_conv)
  with R(1,3) show ?thesis
    by (simp add: mset_filter)
qed

section \<open>Inbounds and their users\<close>

definition brings_no_users :: "Inbound \<Rightarrow> bool" where
  "brings_no_users i \<longleftrightarrow> mget (Options i) ''users'' = None"

lemma mget_preserveUsers:
  assumes "mget t ''users'' = None"
  shows "mget (preserveUsers m t) ''users'' = mget m ''users''"
    and "obj_at m ''options'' = None \<Longrightarrow> mget (preserveUsers m t) ''options'' = mget t ''options''"
    and "obj_at m ''options'' = Some opts \<Longrightarrow> \<forall>o1. mget t ''options'' = Some (JObj o1) \<longrightarrow> mget o1 ''users'' = None \<Longrightarrow>
      \<exists>o'. mget (preserveUsers m t) ''options'' = Some (JObj o') \<and> mget o' ''users'' = mget opts ''users''"
proof -
  show "mget (preserveUsers m t) ''users'' = mget m ''users''"
    using assms by (simp add: preserveUsers_def Let_def split: option.split jv.split)
  show "mget (preserveUsers m t) ''options'' = mget t ''options''" if "obj_at m ''options'' = None"
    using that assms by (simp add: preserveUsers_def Let_def obj_at_def split: option.splits jv.splits)
  show "\<exists>o'. mget (preserveUsers m t) ''options'' = Some (JObj o') \<and> mget o' ''users'' = mget opts ''users''"
    if "obj_at m ''options'' = Some opts" "\<forall>o1. mget t ''options'' = Some (JObj o1) \<longrightarrow> mget o1 ''users'' = None"
    using that assms by (cases "mget m ''users''"; cases "mget opts ''users''")
      (auto simp: preserveUsers_def Let_def obj_at_Some split: option.split jv.split)
qed

lemma new_inbound_users:
  assumes "inbound_wf i" and "brings_no_users i"
  shows "getInboundUsers (modelToMap (inbound_fields i)) = []"
    and "getInboundUsers (preserveUsers m (modelToMap (inbound_fields i))) = getInboundUsers m"
proof -
  let ?t = "modelToMap (inbound_fields i)"
  have none: "\<forall>o1. mget ?t ''options'' = Some (JObj o1) \<longrightarrow> mget o1 ''users'' = None"
    using assms by (auto simp: brings_no_users_def inbound_fields_no_users mget_modelToMap inbound_wf_def jwf_JObj)
  then show "getInboundUsers ?t = []"
    by (auto simp: getInboundUsers_def arr_at_def obj_at_def inbound_fields_no_users split: option.split)
  note keep = mget_preserveUsers [OF inbound_fields_no_users(1) [of i], of m]
  show "getInboundUsers (preserveUsers m ?t) = getInboundUsers m"
  proof (cases "obj_at m ''options''")
    case None
    with keep(2) none show ?thesis
      by (auto simp: getInboundUsers_def keep(1) arr_at_def obj_at_def [of "preserveUsers _ _"] split: option.split jv.split)
  next
    case (Some opts)
    from keep(3) [OF this none] obtain o' where "mget (preserveUsers m ?t) ''options'' = Some (JObj o')" "mget o' ''users'' = mget opts ''users''"
      by blast
    then have "obj_at (preserveUsers m ?t) ''options'' = Some o'" "arr_at o' ''users'' = arr_at opts ''users''"
      "arr_at (preserveUsers m ?t) ''users'' = arr_at m ''users''"
      by (simp_all add: obj_at_Some arr_at_def keep(1))
    with Some show ?thesis
      by (simp add: getInboundUsers_def split: option.split)
  qed
qed

lemma new_inbound_listed:
  assumes "inbound_wf i" and "brings_no_users i"
  shows "inbound_users (modelToMap (inbound_fields i)) = []"
    and "getString m ''tag'' = Tag i \<Longrightarrow> inbound_users (preserveUsers m (modelToMap (inbound_fields i))) = inbound_users m"
  by (simp_all add: inbound_users_def new_inbound_users [OF assms] getString_preserveUsers List.map_filter_def)

lemma users_AddInbound:
  assumes "edit_AddInbound i cfg = Inr cfg'" and "inbound_wf i" and "brings_no_users i"
  shows "people cfg' = people cfg" and "users_in cfg' = users_in cfg"
proof -
  obtain vs where vs: "inboundsSlice cfg True = Inr vs" "cfg' = set_inbounds (vs @ [JObj (modelToMap (inbound_fields i))]) cfg"
    using assms(1) by (auto simp: edit_AddInbound_def bindE_eq_Inr_iff split: if_splits)
  have "inbound_objs cfg = objects vs"
    using vs(1) by (auto simp: inboundsSlice_def inbound_objs_def split: option.splits jv.splits)
  with vs(2) show "people cfg' = people cfg" "users_in cfg' = users_in cfg"
    by (simp_all add: people_def users_in_def inbound_objs_def set_inbounds_def people_of_Cons new_inbound_users [OF assms(2,3)]
        people_of_def [of "[]"] new_inbound_listed [OF assms(2,3)])
qed

lemma users_UpdateInbound:
  assumes "edit_UpdateInbound i cfg = Inr cfg'" and "inbound_wf i" and "brings_no_users i"
  shows "people cfg' = people cfg" and "users_in cfg' = users_in cfg"
proof -
  let ?t = "modelToMap (inbound_fields i)"
  obtain vs where vs: "inboundsSlice cfg False = Inr vs"
    "cfg' = set_inbounds (replace_first (has_tag (Tag i)) (update_inbound ?t) vs) cfg"
    using assms(1) by (auto simp: edit_UpdateInbound_def bindE_eq_Inr_iff split: if_splits)
  have "people_of (objects (replace_first (has_tag (Tag i)) (update_inbound ?t) vs)) = people_of (objects vs)"
    by (induction vs rule: objects.induct)
      (auto simp: update_inbound_def people_of_Cons getString_preserveUsers new_inbound_users [OF assms(2,3)])
  moreover have "users_of_objs (objects (replace_first (has_tag (Tag i)) (update_inbound ?t) vs)) = users_of_objs (objects vs)"
    by (induction vs rule: objects.induct) (auto simp: update_inbound_def new_inbound_listed [OF assms(2,3)])
  ultimately show "people cfg' = people cfg" "users_in cfg' = users_in cfg"
    using vs by (simp_all add: people_def users_in_def inbound_objs_def set_inbounds_def inboundsSlice_False)
qed

lemma users_DeleteInbound:
  assumes "edit_DeleteInbound tag cfg = Inr cfg'"
  shows "people cfg' \<subseteq> people cfg" and "users_in cfg' = {#v \<in># users_in cfg. InboundTag v \<noteq> tag#}"
proof -
  obtain vs where vs: "inboundsSlice cfg False = Inr vs" "cfg' = set_inbounds (filter (\<lambda>e. \<not> has_tag tag e) vs) cfg"
    using assms by (auto simp: edit_DeleteInbound_def bindE_eq_Inr_iff split: if_splits)
  have kept: "objects (filter (\<lambda>e. \<not> has_tag tag e) vs) = filter (\<lambda>m. getString m ''tag'' \<noteq> tag) (objects vs)"
    by (induction vs rule: objects.induct) simp_all
  have "filter (\<lambda>v. InboundTag v \<noteq> tag) (inbound_users m) = (if getString m ''tag'' = tag then [] else inbound_users m)" for m
    by (auto simp: filter_empty_conv filter_id_conv dest: inbound_users_tag)
  then have "{#v \<in># mset (inbound_users m). InboundTag v \<noteq> tag#} = (if getString m ''tag'' = tag then {#} else mset (inbound_users m))" for m
    by (simp flip: mset_filter)
  then have "users_of_objs (filter (\<lambda>m. getString m ''tag'' \<noteq> tag) ms) = {#v \<in># users_of_objs ms. InboundTag v \<noteq> tag#}" for ms
    by (induction ms) simp_all
  with vs kept show "users_in cfg' = {#v \<in># users_in cfg. InboundTag v \<noteq> tag#}"
    by (simp add: users_in_def inbound_objs_def set_inbounds_def inboundsSlice_False)
  show "people cfg' \<subseteq> people cfg"
    using vs kept by (auto simp: people_def people_of_def inbound_objs_def set_inbounds_def inboundsSlice_False)
qed

section \<open>The operations\<close>

definition users_ok :: "string set \<Rightarrow> cfgfile \<Rightarrow> bool" where
  "users_ok X f \<longleftrightarrow> file_ok f \<and> (\<exists>us. cc_GetUsers f = Inr us) \<and> distinct (file_tags f) \<and> clash_free X (file_people f)"

text \<open>A user that may be written: its id is not empty, and its \<open>uuid\<close> is not the id of another user.\<close>

definition user_fits :: "string set \<Rightarrow> User \<Rightarrow> bool" where
  "user_fits X u \<longleftrightarrow> SubID u \<in> X \<and> SubID u \<noteq> [] \<and> (UUID u \<in> X \<and> UUID u \<noteq> [] \<longrightarrow> UUID u = SubID u)"

definition keeps_jwf :: "(jobj \<Rightarrow> cm_error + jobj) \<Rightarrow> bool" where
  "keeps_jwf edit \<longleftrightarrow> (\<forall>cfg cfg'. jwf (JObj cfg) \<longrightarrow> edit cfg = Inr cfg' \<longrightarrow> jwf (JObj cfg'))"

lemma keeps_jwf_edits:
  "keeps_jwf (edit_AddUser tag u)" "keeps_jwf (edit_UpdateUser tag u)" "keeps_jwf (edit_DeleteUser tag s)"
  "keeps_jwf (edit_DeleteInbound tag)"
  "inbound_wf i \<Longrightarrow> keeps_jwf (edit_AddInbound i)" "inbound_wf i \<Longrightarrow> keeps_jwf (edit_UpdateInbound i)"
  unfolding keeps_jwf_def by (blast dest: jwf_edit_user jwf_edit_inbound jwf_edit_DeleteInbound)+

text \<open>A successful operation edits the users the file lists, and the file it writes lists the edited users.\<close>

lemma users_saved:
  assumes "load_edit_save edit w f = (f', None)" and "keeps_jwf edit" and "users_ok X f"
  obtains cfg cfg' where "edit cfg = Inr cfg'" "people cfg = file_people f" "users_in cfg = file_users f" "distinct (tags_of cfg)"
    "file_users f' = users_in cfg'" "clash_free X (file_people f') \<longleftrightarrow> clash_free X (people cfg')" "\<exists>us. cc_GetUsers f' = Inr us"
proof -
  obtain cfg cfg' where *: "loadConfigMap f = Inr cfg" "edit cfg = Inr cfg'" "f' = Some (MarshalIndent (JObj cfg'))"
    using assms(1) by (rule load_edit_save_ok)
  then have wf: "jwf (JObj cfg')"
    using assms(2,3) by (auto simp: file_ok_def users_ok_def keeps_jwf_def)
  have "file_people f' = map_prod id modelToMap ` people cfg'" "file_users f' = users_in cfg'"
    using *(3) people_modelToMap [OF wf] users_in_modelToMap [OF wf] by (simp_all add: file_people_def file_users_def)
  moreover have "\<exists>us. cc_GetUsers f' = Inr us"
    using *(3) by (simp add: cc_GetUsers_def loadRootConfig_def)
  ultimately show thesis
    using that [of cfg cfg'] * assms(3) clash_free_modelToMap [of "people cfg'"] people_mwf [OF wf]
    by (simp add: file_people_def file_users_def file_tags_def users_ok_def)
qed

lemma clash_free_insert: "user_fits X u \<Longrightarrow> clash_free X P \<Longrightarrow> clash_free X (insert (t, new_user u) P)"
  by (auto simp: clash_free_def new_user_id user_fits_def)

lemma clash_free_subset: "clash_free X Q \<Longrightarrow> P \<subseteq> Q \<Longrightarrow> clash_free X P"
  by (auto simp: clash_free_def)

lemma clash_free_id: "clash_free X P \<Longrightarrow> s \<in> X \<Longrightarrow> clash_free {s} P"
  by (auto simp: clash_free_def)

lemma cm_AddUser_users:
  assumes "users_ok X f" and "user_fits X u" and "cm_AddUser (InboundTag u) u w f = (f', None)"
  shows "users_ok X f' \<and> file_users f' = add_mset (shown u) (file_users f)"
proof -
  have ok: "file_ok f" "SubID u \<noteq> []"
    using assms(1,2) by (simp_all add: users_ok_def user_fits_def)
  show ?thesis
  proof (rule users_saved [OF assms(3) [unfolded cm_AddUser_def] keeps_jwf_edits(1) assms(1)])
    fix cfg cfg' assume *: "edit_AddUser (InboundTag u) u cfg = Inr cfg'" "people cfg = file_people f" "users_in cfg = file_users f"
      "distinct (tags_of cfg)" "file_users f' = users_in cfg'" "clash_free X (file_people f') \<longleftrightarrow> clash_free X (people cfg')"
      "\<exists>us. cc_GetUsers f' = Inr us"
    with people_AddUser [OF *(1,4)] users_AddUser [OF *(1,4) ok(2)] cm_tags(4) [OF ok(1) assms(3)] assms(1,2) show ?thesis
      by (simp add: users_ok_def clash_free_insert)
  qed
qed

lemma cm_UpdateUser_users:
  assumes "users_ok X f" and "user_fits X u" and "cm_UpdateUser (InboundTag u) u w f = (f', None)"
  shows "users_ok X f' \<and> (\<exists>v \<in># file_users f. InboundTag v = InboundTag u \<and> SubID v = SubID u \<and>
    file_users f' = add_mset (shown u) (file_users f - {#v#}))"
proof -
  have ok: "file_ok f" "SubID u \<noteq> []" "clash_free {SubID u} (file_people f)"
    using assms(1,2) by (auto simp: users_ok_def user_fits_def intro: clash_free_id)
  show ?thesis
  proof (rule users_saved [OF assms(3) [unfolded cm_UpdateUser_def] keeps_jwf_edits(2) assms(1)])
    fix cfg cfg' assume *: "edit_UpdateUser (InboundTag u) u cfg = Inr cfg'" "people cfg = file_people f" "users_in cfg = file_users f"
      "distinct (tags_of cfg)" "file_users f' = users_in cfg'" "clash_free X (file_people f') \<longleftrightarrow> clash_free X (people cfg')"
      "\<exists>us. cc_GetUsers f' = Inr us"
    have "people cfg' \<subseteq> insert (InboundTag u, new_user u) (file_people f)"
      by (rule people_UpdateUser [OF *(1,4)]) (simp add: *(2))
    then have "clash_free X (people cfg')"
      using clash_free_insert [OF assms(2)] assms(1) by (auto simp: users_ok_def intro: clash_free_subset)
    moreover have "\<exists>v \<in># file_users f. InboundTag v = InboundTag u \<and> SubID v = SubID u \<and>
        file_users f' = add_mset (shown u) (file_users f - {#v#})"
      by (rule users_UpdateUser [OF *(1,4) ok(2)]) (use * ok(3) in auto)
    ultimately show ?thesis
      using * assms(1) cm_tags(5) [OF ok(1) assms(3)] by (simp add: users_ok_def)
  qed
qed

lemma cm_DeleteUser_users:
  assumes "users_ok X f" and "s \<in> X" and "cm_DeleteUser tag s w f = (f', None)"
  shows "users_ok X f' \<and> file_users f' = {#v \<in># file_users f. \<not> (InboundTag v = tag \<and> SubID v = s)#}"
proof -
  have ok: "file_ok f" "clash_free {s} (file_people f)"
    using assms(1,2) by (auto simp: users_ok_def intro: clash_free_id)
  show ?thesis
  proof (rule users_saved [OF assms(3) [unfolded cm_DeleteUser_def] keeps_jwf_edits(3) assms(1)])
    fix cfg cfg' assume *: "edit_DeleteUser tag s cfg = Inr cfg'" "people cfg = file_people f" "users_in cfg = file_users f"
      "distinct (tags_of cfg)" "file_users f' = users_in cfg'" "clash_free X (file_people f') \<longleftrightarrow> clash_free X (people cfg')"
      "\<exists>us. cc_GetUsers f' = Inr us"
    have "people cfg' \<subseteq> file_people f"
      using people_DeleteUser [OF *(1,4)] *(2) by auto
    then have "clash_free X (people cfg')"
      using assms(1) by (auto simp: users_ok_def intro: clash_free_subset)
    with * users_DeleteUser [OF *(1,4)] ok assms(1) cm_tags(6) [OF ok(1) assms(3)] show ?thesis
      by (simp add: users_ok_def)
  qed
qed

lemma cm_AddInbound_users:
  assumes "users_ok X f" and "inbound_wf i" and "brings_no_users i" and "cm_AddInbound i w f = (f', None)"
  shows "users_ok X f' \<and> file_users f' = file_users f"
  by (rule users_saved [OF assms(4) [unfolded cm_AddInbound_def] keeps_jwf_edits(5) [OF assms(2)] assms(1)])
    (use assms(1) cm_tags(1) [OF _ assms(2,4)] users_AddInbound [OF _ assms(2,3)] in \<open>auto simp: users_ok_def\<close>)

lemma cm_UpdateInbound_users:
  assumes "users_ok X f" and "inbound_wf i" and "brings_no_users i" and "cm_UpdateInbound i w f = (f', None)"
  shows "users_ok X f' \<and> file_users f' = file_users f"
  by (rule users_saved [OF assms(4) [unfolded cm_UpdateInbound_def] keeps_jwf_edits(6) [OF assms(2)] assms(1)])
    (use assms(1) cm_tags(2) [OF _ assms(2,4)] users_UpdateInbound [OF _ assms(2,3)] in \<open>auto simp: users_ok_def\<close>)

lemma cm_DeleteInbound_users:
  assumes "users_ok X f" and "cm_DeleteInbound tag w f = (f', None)"
  shows "users_ok X f' \<and> file_users f' = {#v \<in># file_users f. InboundTag v \<noteq> tag#}"
proof (rule users_saved [OF assms(2) [unfolded cm_DeleteInbound_def] keeps_jwf_edits(4) assms(1)])
  fix cfg cfg' assume *: "edit_DeleteInbound tag cfg = Inr cfg'" "people cfg = file_people f" "users_in cfg = file_users f"
    "distinct (tags_of cfg)" "file_users f' = users_in cfg'" "clash_free X (file_people f') \<longleftrightarrow> clash_free X (people cfg')"
    "\<exists>us. cc_GetUsers f' = Inr us"
  with users_DeleteInbound [OF *(1)] have "clash_free X (people cfg')"
    using assms(1) by (auto simp: users_ok_def intro: clash_free_subset)
  with * users_DeleteInbound [OF *(1)] assms(1) cm_tags(3) [OF _ assms(2)] show ?thesis
    by (auto simp: users_ok_def)
qed

section \<open>A plan\<close>

text \<open>The user changes of a step, as the tag of the inbound and the id.\<close>

abbreviation user_pair :: "User \<Rightarrow> string \<times> string" where
  "user_pair u \<equiv> (InboundTag u, SubID u)"

text \<open>What a successful step makes of the users, on top of what it makes of the tags.\<close>

locale user_steps = tag_steps exec tags ok wf
  for exec :: "step \<Rightarrow> 's \<Rightarrow> 's \<times> 'e option" and tags :: "'s \<Rightarrow> string set" and ok :: "'s \<Rightarrow> bool" and wf :: "step \<Rightarrow> bool" +
  fixes users :: "'s \<Rightarrow> User multiset"
  assumes inbound_users: "ok s \<Longrightarrow> wf (InboundStep c) \<Longrightarrow> exec (InboundStep c) s = (s', None) \<Longrightarrow>
      users s' = (if ch_Type c = ChangeDelete then {#v \<in># users s. InboundTag v \<noteq> Tag (ch_Item c)#} else users s)"
    and user_users: "ok s \<Longrightarrow> wf (UserStep u) \<Longrightarrow> exec (UserStep u) s = (s', None) \<Longrightarrow>
      (case ch_Type u of
         ChangeCreate \<Rightarrow> users s' = add_mset (shown (ch_Item u)) (users s)
       | ChangeUpdate \<Rightarrow> (\<exists>v \<in># users s. user_pair v = user_pair (ch_Item u) \<and>
           users s' = add_mset (shown (ch_Item u)) (users s - {#v#}))
       | ChangeDelete \<Rightarrow> users s' = {#v \<in># users s. user_pair v \<noteq> user_pair (ch_Item u)#})"
begin

text \<open>The users with one id, and the steps that change them.\<close>

definition with_id :: "string \<Rightarrow> 's \<Rightarrow> User multiset" where
  "with_id k s = {#v \<in># users s. SubID v = k#}"

definition changes_id :: "string \<Rightarrow> step \<Rightarrow> bool" where
  "changes_id k x \<longleftrightarrow> (\<exists>c. x = UserStep c \<and> SubID (ch_Item c) = k)"

lemma filter_with_id: "{#v \<in># {#v \<in># M. P v#}. Q v#} = {#v \<in># {#v \<in># M. Q v#}. P v#}"
  by (simp add: filter_filter_mset conj_commute)

lemma user_step_other:
  assumes "ok s" and "wf (UserStep u)" and "exec (UserStep u) s = (s', None)" and "SubID (ch_Item u) \<noteq> k"
  shows "with_id k s' = with_id k s"
proof -
  have "{#v \<in># {#v \<in># M. user_pair v \<noteq> user_pair (ch_Item u)#}. SubID v = k#} = {#v \<in># M. SubID v = k#}" for M
    using assms(4) by (auto simp: filter_filter_mset intro: filter_mset_cong)
  with user_users [OF assms(1-3)] assms(4) show ?thesis
    by (cases "ch_Type u") (auto simp: with_id_def)
qed

text \<open>Users whose id no step changes go only with their inbound.\<close>

lemma exec_all_other:
  assumes "ok s" and "\<forall>x \<in> set xs. wf x" and "exec_all xs s = Some s'" and "\<forall>x \<in> set xs. \<not> changes_id k x"
  shows "ok s' \<and> with_id k s' = {#v \<in># with_id k s. InboundTag v \<notin> deleted xs#}"
  using assms
proof (induction xs arbitrary: s)
  case (Cons x xs)
  from Cons.prems(3) obtain s1 where step: "exec x s = (s1, None)" and rest: "exec_all xs s1 = Some s'"
    by (auto split: prod.splits option.splits)
  have wf: "wf x" "\<forall>x \<in> set xs. wf x" and keep: "\<not> changes_id k x" "\<forall>x \<in> set xs. \<not> changes_id k x"
    using Cons.prems(2,4) by simp_all
  show ?case
  proof (cases x)
    case (InboundStep c)
    with wf(1) step Cons.prems(1) have s1: "ok s1"
      "users s1 = (if ch_Type c = ChangeDelete then {#v \<in># users s. InboundTag v \<noteq> Tag (ch_Item c)#} else users s)"
      using exec_inbound inbound_users by blast+
    from Cons.IH [OF s1(1) wf(2) rest keep(2)] s1(2) InboundStep show ?thesis
      by (auto simp: with_id_def filter_filter_mset conj_ac intro!: filter_mset_cong)
  next
    case (UserStep u)
    with wf(1) step Cons.prems(1) have "ok s1"
      using exec_user by blast
    moreover have "with_id k s1 = with_id k s"
      using user_step_other [OF Cons.prems(1)] wf(1) step keep(1) UserStep by (auto simp: changes_id_def)
    ultimately show ?thesis
      using Cons.IH [OF _ wf(2) rest keep(2)] UserStep by simp
  qed
qed simp

lemma exec_all_Cons: "exec_all (x # xs) s = Some s' \<longleftrightarrow> (\<exists>s1. exec x s = (s1, None) \<and> exec_all xs s1 = Some s')"
  by (auto split: prod.split option.split)

lemma exec_all_ok: "ok s \<Longrightarrow> \<forall>x \<in> set xs. wf x \<Longrightarrow> exec_all xs s = Some s' \<Longrightarrow> ok s'"
proof (induction xs arbitrary: s)
  case (Cons x xs)
  then obtain s1 where s1: "exec x s = (s1, None)" "exec_all xs s1 = Some s'"
    unfolding exec_all_Cons by blast
  then have "ok s1"
    using Cons.prems(1,2) exec_inbound [of s _ s1] exec_user [of s _ s1] by (cases x) auto
  with Cons s1(2) show ?case
    by simp
qed simp

lemma exec_all_append: "exec_all (a @ b) s = Some s' \<longleftrightarrow> (\<exists>s1. exec_all a s = Some s1 \<and> exec_all b s1 = Some s')"
  by (induction a arbitrary: s) (auto split: prod.split option.split)

lemma deleted_append: "deleted (a @ b) = deleted a \<union> deleted b"
  by (auto simp: deleted_def)

text \<open>A user whose id exactly one step changes, when there is at most one such user.\<close>

lemma exec_all_once:
  assumes "ok s" and "\<forall>x \<in> set xs. wf x" and "exec_all xs s = Some s'" and xs: "xs = a @ UserStep c # b"
    and "\<forall>x \<in> set a \<union> set b. \<not> changes_id (SubID (ch_Item c)) x"
  shows "ch_Type c = ChangeCreate \<Longrightarrow> with_id (SubID (ch_Item c)) s = {#} \<Longrightarrow> InboundTag (ch_Item c) \<notin> deleted xs \<Longrightarrow>
      with_id (SubID (ch_Item c)) s' = {#shown (ch_Item c)#}"
    and "ch_Type c = ChangeUpdate \<Longrightarrow> with_id (SubID (ch_Item c)) s = {#v#} \<Longrightarrow> InboundTag (ch_Item c) \<notin> deleted xs \<Longrightarrow>
      with_id (SubID (ch_Item c)) s' = {#shown (ch_Item c)#} \<and> InboundTag v = InboundTag (ch_Item c)"
    and "ch_Type c = ChangeDelete \<Longrightarrow> with_id (SubID (ch_Item c)) s = {#ch_Item c#} \<Longrightarrow> with_id (SubID (ch_Item c)) s' = {#}"
proof -
  let ?k = "SubID (ch_Item c)"
  obtain s1 s2 where run: "exec_all a s = Some s1" "exec (UserStep c) s1 = (s2, None)" "exec_all b s2 = Some s'"
    using assms(3) unfolding xs exec_all_append exec_all_Cons by blast
  have wf: "\<forall>x \<in> set a. wf x" "wf (UserStep c)" "\<forall>x \<in> set b. wf x" and other: "\<forall>x \<in> set a. \<not> changes_id ?k x" "\<forall>x \<in> set b. \<not> changes_id ?k x"
    using assms(2,5) by (auto simp: xs)
  have s1: "ok s1" "with_id ?k s1 = {#v \<in># with_id ?k s. InboundTag v \<notin> deleted a#}"
    using exec_all_other [OF assms(1) wf(1) run(1) other(1)] by simp_all
  have "ok s2"
    using exec_user [OF s1(1) wf(2) run(2)] by simp
  then have s': "with_id ?k s' = {#v \<in># with_id ?k s2. InboundTag v \<notin> deleted b#}"
    using exec_all_other [OF _ wf(3) run(3) other(2)] by simp
  note step = user_users [OF s1(1) wf(2) run(2)]
  show "with_id ?k s' = {#shown (ch_Item c)#}"
    if "ch_Type c = ChangeCreate" "with_id ?k s = {#}" "InboundTag (ch_Item c) \<notin> deleted xs"
    using that step s1(2) s' by (auto simp: with_id_def xs deleted_append)
  show "with_id ?k s' = {#shown (ch_Item c)#} \<and> InboundTag v = InboundTag (ch_Item c)"
    if upd: "ch_Type c = ChangeUpdate" "with_id ?k s = {#v#}" "InboundTag (ch_Item c) \<notin> deleted xs"
  proof -
    obtain u where u: "u \<in># users s1" "user_pair u = user_pair (ch_Item c)" "users s2 = add_mset (shown (ch_Item c)) (users s1 - {#u#})"
      using step upd(1) by auto
    then have "u \<in># with_id ?k s1"
      by (simp add: with_id_def)
    with s1(2) upd(2) have uv: "u = v" "with_id ?k s1 = {#u#}"
      by (auto split: if_splits)
    have "with_id ?k s2 = add_mset (shown (ch_Item c)) (with_id ?k s1 - {#u#})"
      using u by (simp add: with_id_def)
    with uv u(2) s' upd(3) show ?thesis
      by (simp add: xs deleted_append)
  qed
  show "with_id ?k s' = {#}" if "ch_Type c = ChangeDelete" "with_id ?k s = {#ch_Item c#}"
  proof -
    have "with_id ?k s2 = {#v \<in># with_id ?k s1. user_pair v \<noteq> user_pair (ch_Item c)#}"
      using step that(1) by (simp add: with_id_def filter_filter_mset conj_commute)
    with s1(2) that(2) have "with_id ?k s2 = {#}"
      by simp
    with s' show ?thesis
      by simp
  qed
qed

end

fun step_fits :: "string set \<Rightarrow> step \<Rightarrow> bool" where
  "step_fits X (InboundStep c) \<longleftrightarrow> inbound_wf (ch_Item c) \<and> (ch_Type c \<noteq> ChangeDelete \<longrightarrow> brings_no_users (ch_Item c))"
| "step_fits X (UserStep c) \<longleftrightarrow> (if ch_Type c = ChangeDelete then SubID (ch_Item c) \<in> X else user_fits X (ch_Item c))"

lemma step_execute_inbound:
  assumes "users_ok X (ev_file e)" and "step_fits X (InboundStep c)" and "step_execute (InboundStep c) e = (e', None)"
  shows "users_ok X (ev_file e') \<and> file_users (ev_file e') =
    (if ch_Type c = ChangeDelete then {#v \<in># file_users (ev_file e). InboundTag v \<noteq> Tag (ch_Item c)#}
     else file_users (ev_file e))"
  using assms(2,3)
  by (cases "ch_Type c")
    (auto dest!: run_op_None cm_AddInbound_users [OF assms(1), rotated 2] cm_UpdateInbound_users [OF assms(1), rotated 2]
      cm_DeleteInbound_users [OF assms(1)])

lemma step_execute_user:
  assumes "users_ok X (ev_file e)" and "step_fits X (UserStep u)" and "step_execute (UserStep u) e = (e', None)"
  shows "users_ok X (ev_file e') \<and> (case ch_Type u of
      ChangeCreate \<Rightarrow> file_users (ev_file e') = add_mset (shown (ch_Item u)) (file_users (ev_file e))
    | ChangeUpdate \<Rightarrow> (\<exists>v \<in># file_users (ev_file e). user_pair v = user_pair (ch_Item u) \<and>
        file_users (ev_file e') = add_mset (shown (ch_Item u)) (file_users (ev_file e) - {#v#}))
    | ChangeDelete \<Rightarrow> file_users (ev_file e') = {#v \<in># file_users (ev_file e). user_pair v \<noteq> user_pair (ch_Item u)#})"
  using assms(2,3)
  by (cases "ch_Type u")
    (auto dest!: run_op_None cm_AddUser_users [OF assms(1), rotated] cm_UpdateUser_users [OF assms(1), rotated]
      cm_DeleteUser_users [OF assms(1), rotated])

interpretation plan_users: user_steps step_execute "\<lambda>e. set (file_tags (ev_file e))" "\<lambda>e. users_ok X (ev_file e)" "step_fits X"
    "\<lambda>e. file_users (ev_file e)" for X
proof (unfold_locales, goal_cases)
  case (1 s c s')
  then show ?case
    using step_execute_inbound [OF 1] plan_tags.exec_inbound [of s c s'] by (simp add: users_ok_def)
next
  case (2 s u s')
  then show ?case
    using step_execute_user [OF 2] plan_tags.exec_user [of s u s'] by (simp add: users_ok_def)
next
  case (3 s c s')
  then show ?case
    using step_execute_inbound [OF 3] by blast
next
  case (4 s u s')
  then show ?case
    using step_execute_user [OF 4] by blast
qed

section \<open>A synchronisation\<close>

lemma mget_index_None: "mget (index_by key xs) k = None \<longleftrightarrow> k \<notin> key ` set xs"
  by (metis mkeys_index_by mkeys_mget)

lemma mget_index_distinct:
  assumes "distinct (map key xs)"
  shows "mget (index_by key xs) k = Some x \<longleftrightarrow> x \<in> set xs \<and> key x = k"
proof
  assume x: "x \<in> set xs \<and> key x = k"
  then obtain y where y: "mget (index_by key xs) k = Some y"
    using mget_index_None [of key xs k] by (cases "mget (index_by key xs) k") auto
  with index_by_key [OF y] x assms show "mget (index_by key xs) k = Some x"
    by (auto simp: distinct_map inj_on_def)
qed (drule index_by_key, simp)

text \<open>The changes of users, when the ids are unique on both sides.\<close>

lemma DiffUsers_changes:
  assumes "is_order r1" and "is_order r2" and "distinct (map SubID desired)" and "distinct (map SubID current)"
  shows "c \<in> set (DiffUsers r1 r2 desired current) \<longleftrightarrow> (case ch_Type c of
      ChangeCreate \<Rightarrow> ch_Item c \<in> set desired \<and> SubID (ch_Item c) \<notin> SubID ` set current \<and> ch_Previous c = None
    | ChangeUpdate \<Rightarrow> ch_Item c \<in> set desired \<and>
        (\<exists>v \<in> set current. SubID v = SubID (ch_Item c) \<and> usersDiffer (ch_Item c) v \<and> ch_Previous c = Some v)
    | ChangeDelete \<Rightarrow> ch_Item c \<in> set current \<and> SubID (ch_Item c) \<notin> SubID ` set desired \<and> ch_Previous c = Some (ch_Item c))"
proof -
  note idx = mget_index_distinct [OF assms(3)] mget_index_distinct [OF assms(4)] mget_index_None
  have "c \<in> set (DiffUsers r1 r2 desired current) \<longleftrightarrow> change_for usersDiffer (mget (index_by SubID desired) (SubID (ch_Item c)))
      (mget (index_by SubID current) (SubID (ch_Item c))) = Some c"
    unfolding DiffUsers_def by (rule set_diff_by [OF assms(1,2)])
  also have "\<dots> \<longleftrightarrow> (\<exists>d. mget (index_by SubID desired) (SubID (ch_Item c)) = Some d \<and>
        mget (index_by SubID current) (SubID (ch_Item c)) = None \<and> c = \<lparr>ch_Type = ChangeCreate, ch_Item = d, ch_Previous = None\<rparr>) \<or>
      (\<exists>d v. mget (index_by SubID desired) (SubID (ch_Item c)) = Some d \<and> mget (index_by SubID current) (SubID (ch_Item c)) = Some v \<and>
        usersDiffer d v \<and> c = \<lparr>ch_Type = ChangeUpdate, ch_Item = d, ch_Previous = Some v\<rparr>) \<or>
      (\<exists>v. mget (index_by SubID desired) (SubID (ch_Item c)) = None \<and> mget (index_by SubID current) (SubID (ch_Item c)) = Some v \<and>
        c = \<lparr>ch_Type = ChangeDelete, ch_Item = v, ch_Previous = Some v\<rparr>)"
    by (auto simp: change_for_def split: option.splits if_splits)
  also have "\<dots> \<longleftrightarrow> (case ch_Type c of
      ChangeCreate \<Rightarrow> ch_Item c \<in> set desired \<and> SubID (ch_Item c) \<notin> SubID ` set current \<and> ch_Previous c = None
    | ChangeUpdate \<Rightarrow> ch_Item c \<in> set desired \<and>
        (\<exists>v \<in> set current. SubID v = SubID (ch_Item c) \<and> usersDiffer (ch_Item c) v \<and> ch_Previous c = Some v)
    | ChangeDelete \<Rightarrow> ch_Item c \<in> set current \<and> SubID (ch_Item c) \<notin> SubID ` set desired \<and> ch_Previous c = Some (ch_Item c))"
    unfolding idx by (cases c; cases "ch_Type c") auto
  finally show ?thesis .
qed

text \<open>At most one change has an id, and it is one step of the plan.\<close>

lemma planned_once:
  assumes "distinct (map (SubID \<circ> ch_Item) ucs)" and "c \<in> set ucs"
  obtains a b where "buildSteps ics ucs = a @ UserStep c # b" "\<forall>x \<in> set a \<union> set b. \<not> plan_users.changes_id (SubID (ch_Item c)) x"
proof -
  let ?user = "\<lambda>x. \<exists>c. x = UserStep c"
  obtain a b where ab: "buildSteps ics ucs = a @ UserStep c # b"
    using assms(2) by (metis UnI2 imageI set_buildSteps split_list)
  have "mset (filter ?user (buildSteps ics ucs)) = mset (map UserStep ucs)"
  proof -
    have "{#x \<in># image_mset InboundStep M. ?user x#} = {#}" "{#x \<in># image_mset UserStep N. ?user x#} = image_mset UserStep N" for M N
      by (auto simp: filter_mset_image_mset)
    then show ?thesis
      by (auto simp: mset_buildSteps)
  qed
  moreover have "distinct (map UserStep ucs)"
    using assms(1) by (auto simp: distinct_map inj_on_def)
  ultimately have "distinct (filter ?user (a @ UserStep c # b))"
    unfolding ab by (metis mset_eq_imp_distinct_iff)
  then have c: "UserStep c \<notin> set a \<union> set b"
    by auto
  have "d = c" if "UserStep d \<in> set a \<union> set b" "SubID (ch_Item d) = SubID (ch_Item c)" for d
  proof -
    have "UserStep d \<in> set (buildSteps ics ucs)"
      using that(1) by (auto simp: ab)
    with that(2) assms show ?thesis
      by (auto simp: set_buildSteps distinct_map inj_on_def)
  qed
  with c ab show ?thesis
    using that by (auto simp: plan_users.changes_id_def)
qed

lemma changes_id_planned:
  "(\<forall>x \<in> set (buildSteps ics ucs). \<not> plan_users.changes_id k x) \<longleftrightarrow> k \<notin> (SubID \<circ> ch_Item) ` set ucs"
  by (auto simp: set_buildSteps plan_users.changes_id_def)

lemma no_id_mset: "k \<notin> f ` set xs \<Longrightarrow> {#v \<in># mset xs. f v = k#} = {#}"
  by auto

lemma unique_id_mset: "distinct (map f xs) \<Longrightarrow> x \<in> set xs \<Longrightarrow> {#v \<in># mset xs. f v = f x#} = {#x#}"
proof (induction xs)
  case (Cons y xs)
  show ?case
  proof (cases "f y = f x")
    case True
    with Cons.prems have "y = x" "f x \<notin> f ` set xs"
      by (auto simp: image_iff)
    with no_id_mset [of "f x" f xs] show ?thesis
      by simp
  next
    case False
    with Cons show ?thesis
      by auto
  qed
qed simp

lemma same_by_id: "(\<And>k. {#v \<in># M. f v = k#} = {#v \<in># N. f v = k#}) \<Longrightarrow> M = N"
  by (rule multiset_eqI) (metis (mono_tags, lifting) count_filter_mset)

text \<open>The steps of the plan fit, and what they change.\<close>

lemma planned_steps_fit:
  assumes "is_order r1" "is_order r2" "is_order r3" "is_order r4" and "distinct (map SubID current)" "SubID ` set current \<subseteq> X"
    and "\<forall>i \<in> set current_ib. inbound_wf i" "\<forall>i \<in> set ib. inbound_wf i \<and> brings_no_users i"
    and "distinct (map SubID us)" "\<forall>u \<in> set us. user_fits X u"
    and "x \<in> set (buildSteps (DiffInbounds r1 r2 ib current_ib) (DiffUsers r3 r4 us current))"
  shows "step_fits X x"
proof (cases x)
  case (InboundStep c)
  with assms(11) have "change_for inboundsDiffer (mget (index_by Tag ib) (Tag (ch_Item c)))
      (mget (index_by Tag current_ib) (Tag (ch_Item c))) = Some c"
    using set_diff_by [OF assms(1,2)] by (auto simp: set_buildSteps DiffInbounds_def)
  with assms(7,8) InboundStep show ?thesis
    by (auto simp: change_for_def split: option.splits if_splits) (metis index_by_key)+
next
  case (UserStep c)
  with assms(11) have "c \<in> set (DiffUsers r3 r4 us current)"
    by (auto simp: set_buildSteps)
  with assms(6,10) UserStep show ?thesis
    by (auto simp: DiffUsers_changes [OF assms(3,4,9,5)] split: ChangeType.splits)
qed

lemma desired_user_shown: "\<not> usersDiffer u v \<Longrightarrow> shown v = v \<Longrightarrow> v = shown u"
  by (cases u; cases v) (auto simp: usersDiffer_def shown_def split: option.splits if_splits)

text \<open>
  A plan that has run: every id is in at most one change, and in at most one user that was listed.  An update of a user succeeds
  only when the user is in the desired inbound already.
\<close>

definition plan_run :: "string set \<Rightarrow> User list \<Rightarrow> InboundChange list \<Rightarrow> UserChange list \<Rightarrow> env \<Rightarrow> env \<Rightarrow> bool" where
  "plan_run X current ics ucs e e' \<longleftrightarrow>
     users_ok X (ev_file e) \<and> plan_tags.exec_all (buildSteps ics ucs) e = Some e' \<and> (\<forall>x \<in> set (buildSteps ics ucs). step_fits X x) \<and>
     file_users (ev_file e) = mset current \<and> distinct (map SubID current) \<and> distinct (map (SubID \<circ> ch_Item) ucs)"

lemma plan_run_other:
  assumes "plan_run X current ics ucs e e'" and "k \<notin> (SubID \<circ> ch_Item) ` set ucs"
  shows "{#v \<in># file_users (ev_file e'). SubID v = k#} =
    {#v \<in># {#v \<in># mset current. SubID v = k#}. InboundTag v \<notin> plan_tags.deleted (buildSteps ics ucs)#}"
  using plan_users.exec_all_other [of X e "buildSteps ics ucs" e' k] assms changes_id_planned [of ics ucs k]
  by (simp add: plan_users.with_id_def plan_run_def)

lemma plan_run_once:
  assumes "plan_run X current ics ucs e e'" and "c \<in> set ucs"
  shows "ch_Type c = ChangeCreate \<Longrightarrow> SubID (ch_Item c) \<notin> SubID ` set current \<Longrightarrow>
      InboundTag (ch_Item c) \<notin> plan_tags.deleted (buildSteps ics ucs) \<Longrightarrow>
      {#v \<in># file_users (ev_file e'). SubID v = SubID (ch_Item c)#} = {#shown (ch_Item c)#}"
    and "ch_Type c = ChangeUpdate \<Longrightarrow> v \<in> set current \<Longrightarrow> SubID v = SubID (ch_Item c) \<Longrightarrow>
      InboundTag (ch_Item c) \<notin> plan_tags.deleted (buildSteps ics ucs) \<Longrightarrow>
      {#v \<in># file_users (ev_file e'). SubID v = SubID (ch_Item c)#} = {#shown (ch_Item c)#} \<and> InboundTag v = InboundTag (ch_Item c)"
    and "ch_Type c = ChangeDelete \<Longrightarrow> ch_Item c \<in> set current \<Longrightarrow> {#v \<in># file_users (ev_file e'). SubID v = SubID (ch_Item c)#} = {#}"
proof -
  note run = assms(1) [unfolded plan_run_def]
  have run': "users_ok X (ev_file e)" "\<forall>x \<in> set (buildSteps ics ucs). step_fits X x" "plan_tags.exec_all (buildSteps ics ucs) e = Some e'"
    "file_users (ev_file e) = mset current" "distinct (map SubID current)"
    using run by simp_all
  obtain a b where ab: "buildSteps ics ucs = a @ UserStep c # b" "\<forall>x \<in> set a \<union> set b. \<not> plan_users.changes_id (SubID (ch_Item c)) x"
    using run planned_once [OF _ assms(2)] by blast
  note once = plan_users.exec_all_once [OF run'(1-3) ab, unfolded plan_users.with_id_def run'(4)]
  show "{#v \<in># file_users (ev_file e'). SubID v = SubID (ch_Item c)#} = {#shown (ch_Item c)#}"
    if "ch_Type c = ChangeCreate" "SubID (ch_Item c) \<notin> SubID ` set current" "InboundTag (ch_Item c) \<notin> plan_tags.deleted (buildSteps ics ucs)"
    by (rule once(1) [OF that(1) no_id_mset [OF that(2)] that(3)])
  show "{#v \<in># file_users (ev_file e'). SubID v = SubID (ch_Item c)#} = {#shown (ch_Item c)#} \<and> InboundTag v = InboundTag (ch_Item c)"
    if "ch_Type c = ChangeUpdate" "v \<in> set current" "SubID v = SubID (ch_Item c)" "InboundTag (ch_Item c) \<notin> plan_tags.deleted (buildSteps ics ucs)"
    by (rule once(2) [OF that(1) unique_id_mset [OF run'(5) that(2), unfolded that(3)] that(4)])
  show "{#v \<in># file_users (ev_file e'). SubID v = SubID (ch_Item c)#} = {#}" if "ch_Type c = ChangeDelete" "ch_Item c \<in> set current"
    by (rule once(3) [OF that(1) unique_id_mset [OF run'(5) that(2)]])
qed

text \<open>The users with one id after the plan that leads to the desired users \<open>us\<close>, by whether the id is desired and whether it was listed.\<close>

lemma unchanged_user:
  assumes "is_order r3" "is_order r4" "distinct (map SubID us)" "distinct (map SubID current)"
    and "u \<in> set us" "v \<in> set current" "SubID v = SubID u" "\<not> usersDiffer u v"
  shows "SubID u \<notin> (SubID \<circ> ch_Item) ` set (DiffUsers r3 r4 us current)"
proof
  assume "SubID u \<in> (SubID \<circ> ch_Item) ` set (DiffUsers r3 r4 us current)"
  then obtain c where c: "c \<in> set (DiffUsers r3 r4 us current)" and id: "SubID (ch_Item c) = SubID u"
    by (metis comp_apply imageE)
  note change = DiffUsers_changes [OF assms(1-4), THEN iffD1, OF c]
  have only: "w = u" if "w \<in> set us" "SubID w = SubID u" for w
    using that assms(3,5) by (simp add: distinct_map inj_on_def)
  have only': "w = v" if "w \<in> set current" "SubID w = SubID u" for w
    using that assms(4,6,7) by (simp add: distinct_map inj_on_def)
  have "ch_Type c \<noteq> ChangeCreate"
    using change id assms(6) assms(7) [symmetric] by auto
  moreover have "ch_Type c \<noteq> ChangeDelete"
    using change id assms(5) by auto
  moreover have "ch_Type c \<noteq> ChangeUpdate"
    using change id only [OF _ id] only' assms(8) by auto
  ultimately show False
    by (cases "ch_Type c") auto
qed

lemma plan_desired_id:
  assumes "is_order r3" "is_order r4" "distinct (map SubID us)" and run: "plan_run X current ics (DiffUsers r3 r4 us current) e e'"
    and "u \<in> set us" "InboundTag u \<notin> plan_tags.deleted (buildSteps ics (DiffUsers r3 r4 us current))" "\<forall>v \<in> set current. shown v = v"
  shows "{#v \<in># file_users (ev_file e'). SubID v = SubID u#} = {#shown u#} \<and>
    (\<forall>v \<in> set current. SubID v = SubID u \<longrightarrow> InboundTag v = InboundTag u)"
proof -
  let ?ucs = "DiffUsers r3 r4 us current"
  have current: "distinct (map SubID current)"
    using run by (simp add: plan_run_def)
  note changes = DiffUsers_changes [OF assms(1-3) current]
  show ?thesis
  proof (cases "SubID u \<in> SubID ` set current")
    case False
    then have "\<lparr>ch_Type = ChangeCreate, ch_Item = u, ch_Previous = None\<rparr> \<in> set ?ucs"
      using assms(5) by (simp add: changes)
    from plan_run_once(1) [OF run this] False assms(6) show ?thesis
      by (auto simp: image_iff)
  next
    case True
    then obtain v where v: "v \<in> set current" "SubID v = SubID u"
      by (auto simp: image_iff)
    then have only: "w = v" if "w \<in> set current" "SubID w = SubID u" for w
      using that current by (auto simp: distinct_map inj_on_def)
    show ?thesis
    proof (cases "usersDiffer u v")
      case True
      then have "\<lparr>ch_Type = ChangeUpdate, ch_Item = u, ch_Previous = Some v\<rparr> \<in> set ?ucs"
        using assms(5) v by (simp add: changes)
      from plan_run_once(2) [OF run this _ v(1)] v(2) assms(6) only show ?thesis
        by auto
    next
      case False
      then have eq: "v = shown u"
        using desired_user_shown assms(7) v(1) by blast
      have "SubID u \<notin> (SubID \<circ> ch_Item) ` set ?ucs"
        by (rule unchanged_user [OF assms(1-3) current assms(5) v False])
      from plan_run_other [OF run this] unique_id_mset [OF current v(1)] v(2) eq assms(6)
      have "{#v \<in># file_users (ev_file e'). SubID v = SubID u#} = {#shown u#}"
        by simp
      moreover have "InboundTag v = InboundTag u"
        using eq by simp
      ultimately show ?thesis
        using only by blast
    qed
  qed
qed

lemma plan_undesired_id:
  assumes "is_order r3" "is_order r4" "distinct (map SubID us)" and run: "plan_run X current ics (DiffUsers r3 r4 us current) e e'"
    and "k \<notin> SubID ` set us"
  shows "{#v \<in># file_users (ev_file e'). SubID v = k#} = {#}"
proof -
  let ?ucs = "DiffUsers r3 r4 us current"
  have current: "distinct (map SubID current)"
    using run by (simp add: plan_run_def)
  note changes = DiffUsers_changes [OF assms(1-3) current]
  show ?thesis
  proof (cases "k \<in> SubID ` set current")
    case True
    then obtain v where v: "v \<in> set current" "k = SubID v"
      by blast
    then have "\<lparr>ch_Type = ChangeDelete, ch_Item = v, ch_Previous = Some v\<rparr> \<in> set ?ucs"
      using assms(5) by (simp add: changes)
    from plan_run_once(3) [OF run this] v show ?thesis
      by simp
  next
    case False
    have "SubID (ch_Item c) \<noteq> k" if "c \<in> set ?ucs" for c
      using that changes [of c] assms(5) False by (cases "ch_Type c") auto
    then have "k \<notin> (SubID \<circ> ch_Item) ` set ?ucs"
      by auto
    from plan_run_other [OF run this] no_id_mset [OF False] show ?thesis
      by simp
  qed
qed

lemma plan_users_converge:
  assumes orders: "is_order r1" "is_order r2" "is_order r3" "is_order r4"
    and ok: "users_ok X (ev_file e)" and exec: "Execute p e = (e', None)"
    and p: "p = NewPlanWithConfigManager (DiffInbounds r1 r2 ib current_ib) (DiffUsers r3 r4 us current) (Manager rl)"
    and current: "file_users (ev_file e) = mset current" "distinct (map SubID current)" "SubID ` set current \<subseteq> X"
      "\<forall>v \<in> set current. shown v = v"
    and inbounds: "\<forall>i \<in> set current_ib. inbound_wf i" "\<forall>i \<in> set ib. inbound_wf i \<and> brings_no_users i"
    and desired: "distinct (map SubID us)" "\<forall>u \<in> set us. user_fits X u" "InboundTag ` set us \<subseteq> Tag ` set ib"
  shows "users_ok X (ev_file e') \<and> file_users (ev_file e') = mset (map shown us) \<and>
    (\<forall>u \<in> set us. \<forall>v \<in> set current. SubID v = SubID u \<longrightarrow> InboundTag v = InboundTag u)"
proof -
  let ?ics = "DiffInbounds r1 r2 ib current_ib" and ?ucs = "DiffUsers r3 r4 us current"
  let ?steps = "buildSteps ?ics ?ucs"
  obtain e1 where e1: "plan_tags.exec_all ?steps e = Some e1" "ev_file e' = ev_file e1"
    using Execute_None [OF exec] p by (auto simp: NewPlanWithConfigManager_def)
  have ich: "c \<in> set ?ics \<longleftrightarrow> change_for inboundsDiffer (mget (index_by Tag ib) (Tag (ch_Item c)))
      (mget (index_by Tag current_ib) (Tag (ch_Item c))) = Some c" for c
    unfolding DiffInbounds_def by (rule set_diff_by [OF orders(1,2)])
  have "plan_tags.deleted ?steps = Tag ` set current_ib - Tag ` set ib"
    unfolding plan_tags.deleted_def set_buildSteps mkeys_index_by [symmetric] by (rule diff_deleted [OF ich])
  then have kept: "InboundTag u \<notin> plan_tags.deleted ?steps" if "u \<in> set us" for u
    using that desired(3) by auto
  have fits: "\<forall>x \<in> set ?steps. step_fits X x"
    using planned_steps_fit [OF orders current(2,3) inbounds desired(1,2)] by blast
  then have run: "plan_run X current ?ics ?ucs e e1"
    using ok e1(1) current(1,2) distinct_diff_by [OF orders(3,4)] by (simp add: plan_run_def DiffUsers_def)
  note one = plan_desired_id [OF orders(3,4) desired(1) run _ kept current(4)]
  have ids: "distinct (map SubID (map shown us))"
    using desired(1) by (simp add: comp_def)
  have "{#v \<in># file_users (ev_file e1). SubID v = k#} = {#v \<in># mset (map shown us). SubID v = k#}" for k
  proof (cases "k \<in> SubID ` set us")
    case True
    then obtain u where "u \<in> set us" "k = SubID u"
      by blast
    with one [of u] unique_id_mset [OF ids, of "shown u"] show ?thesis
      by simp
  next
    case False
    then have "k \<notin> SubID ` set (map shown us)"
      by auto
    from no_id_mset [OF this] plan_undesired_id [OF orders(3,4) desired(1) run False] show ?thesis
      by (simp only:)
  qed
  then have "file_users (ev_file e1) = mset (map shown us)"
    by (rule same_by_id)
  moreover have "users_ok X (ev_file e1)"
    by (rule plan_users.exec_all_ok [OF ok fits e1(1)])
  ultimately show ?thesis
    using one e1(2) by simp
qed

lemma Reconcile_plan:
  assumes "Reconcile ctx d e = (e1, Inr p)"
  obtains ib us where "cc_GetInbounds (ev_file (eg_env e)) = Inr ib" "cc_GetUsers (ev_file (eg_env e)) = Inr us"
    "p = NewPlanWithConfigManager
      (DiffInbounds (sc_inbound_order1 ctx) (sc_inbound_order2 ctx) (ds_Inbounds d) ib)
      (DiffUsers (sc_user_order1 ctx) (sc_user_order2 ctx) (ds_Users d) us) (eg_manager e)"
  using assms by (auto simp: Reconcile_def Let_def split: sum.splits)

text \<open>The desired users are well formed when they are in desired inbounds, the inbounds bring none, and no id is used twice.\<close>

definition desired_ok :: "string set \<Rightarrow> DesiredState \<Rightarrow> bool" where
  "desired_ok X d \<longleftrightarrow> distinct (map SubID (ds_Users d)) \<and> list_all (user_fits X) (ds_Users d) \<and>
     InboundTag ` set (ds_Users d) \<subseteq> Tag ` set (ds_Inbounds d) \<and> list_all brings_no_users (ds_Inbounds d)"

definition orders_ok :: "sync_ctx \<Rightarrow> bool" where
  "orders_ok ctx \<longleftrightarrow> is_order (sc_inbound_order1 ctx) \<and> is_order (sc_inbound_order2 ctx) \<and>
     is_order (sc_user_order1 ctx) \<and> is_order (sc_user_order2 ctx)"

lemma userFromMap_shown: "userFromMap u t = Some v \<Longrightarrow> shown v = v"
  unfolding userFromMap_def Let_def by (simp split: if_splits) (auto simp: shown_def)

lemma listed_users_shown:
  assumes "cc_GetUsers f = Inr us" and "v \<in> set us"
  shows "shown v = v"
proof -
  obtain u t where "userFromMap u t = Some v"
    using assms by (auto simp: cc_GetUsers_def bindE_eq_Inr_iff inbound_users_def List.map_filter_def)
  then show ?thesis
    by (rule userFromMap_shown)
qed

lemma sync_users:
  assumes "orders_ok ctx" and "users_ok X (ev_file (eg_env e))" and "eg_manager e = Manager rl"
    and "cc_GetUsers (ev_file (eg_env e)) = Inr current" and "distinct (map SubID current)" and "SubID ` set current \<subseteq> X"
    and "ApplyDesiredState je ctx zt r e = (ops, e')" and "status ops = 200"
    and "Decode_DesiredState je (r_body r) = Inr d" and "desired_ok X d"
  shows "users_ok X (ev_file (eg_env e')) \<and> file_users (ev_file (eg_env e')) = mset (map shown (ds_Users d)) \<and>
    (\<forall>u \<in> set (ds_Users d). \<forall>v \<in> set current. SubID v = SubID u \<longrightarrow> InboundTag v = InboundTag u)"
  using assms(7)
proof (cases rule: ApplyDesiredState_cases)
  case (applied d' e1 p)
  then have d: "d' = d"
    using assms(9) by simp
  from applied(5) obtain ib where plan: "cc_GetInbounds (ev_file (eg_env e)) = Inr ib" "p = NewPlanWithConfigManager
      (DiffInbounds (sc_inbound_order1 ctx) (sc_inbound_order2 ctx) (ds_Inbounds d) ib)
      (DiffUsers (sc_user_order1 ctx) (sc_user_order2 ctx) (ds_Users d) current) (Manager rl)"
    using assms(3,4) by (auto elim!: Reconcile_plan simp: d)
  have exec: "Execute p (eg_env e) = (eg_env e', None)"
    using Apply_None [OF applied(6)] Reconcile_Inr [OF applied(5)] by simp
  have ok: "file_ok (ev_file (eg_env e))"
    using assms(2) by (simp add: users_ok_def)
  note orders = assms(1) [unfolded orders_ok_def] and des = assms(10) [unfolded desired_ok_def list_all_iff]
  show ?thesis
    by (rule plan_users_converge [OF _ _ _ _ assms(2) exec plan(2) cc_GetUsers_file [OF assms(4)] assms(5,6) _
          cc_GetInbounds_wf [OF plan(1) ok]])
      (use orders des Decode_DesiredState_wf [OF assms(9)] listed_users_shown [OF assms(4)] in auto)
qed (use assms(8) in auto)

text \<open>
  C22.  A synchronisation that succeeds leaves exactly the desired users.  When the agent answers 200 to a desired state, \<open>GetUsers\<close>
  then lists the desired users and no others, each once, in its desired inbound and with the desired id, UUID, e-mail address, flow and
  enabled flag: the two lists are the same up to their order (\<^const>\<open>shown\<close> leaves out the limits and the date of the reset, which
  \<open>userFromMap\<close> does not read back).  It holds under these conditions.
  \<^item> The configuration is well formed, its tags are unique, and the ids that \<open>GetUsers\<close> lists before are unique (\<^const>\<open>users_ok\<close>).
  \<^item> No two desired users have one id, no desired id is empty, every desired user is in a desired inbound, and the options of the desired
    inbounds bring no users (\<^const>\<open>desired_ok\<close>).  Of two desired users with one id \<open>DiffUsers\<close> keeps the last
    (\<open>duplicate_id_dropped\<close> below): the agent answers 200 and the other one is missing.
  \<^item> No user can be found under the id of another one, among the ids \<open>X\<close> of the two sides: \<open>userMapMatchesSubID\<close> looks at four keys
    and \<open>userFromMap\<close> at four others (\<^const>\<open>clash_free\<close>, \<^const>\<open>user_fits\<close>).
  \<^item> The engine has a configuration manager, and the order in which Go ranges over a map is some permutation (\<^const>\<open>orders_ok\<close>).
\<close>

theorem users_converge:
  assumes "orders_ok ctx" and "users_ok X (ev_file (eg_env e))" and "eg_manager e = Manager rl"
    and "cc_GetUsers (ev_file (eg_env e)) = Inr current" and "distinct (map SubID current)" and "SubID ` set current \<subseteq> X"
    and "ApplyDesiredState je ctx zt r e = (ops, e')" and "status ops = 200"
    and "Decode_DesiredState je (r_body r) = Inr d" and "desired_ok X d"
  shows "\<exists>us. cc_GetUsers (ev_file (eg_env e')) = Inr us \<and> mset us = mset (map shown (ds_Users d))"
  using sync_users [OF assms] cc_GetUsers_file by (auto simp: users_ok_def)

text \<open>Two desired users with one id: the second one is kept.\<close>

lemma duplicate_id_dropped: "SubID u = SubID v \<Longrightarrow> DiffUsers r1 r2 [u, v] current = DiffUsers r1 r2 [v] current"
  by (simp add: DiffUsers_def diff_by_def index_by_def mput_def)

text \<open>A limit or a date of the reset is never read back: a user that has one differs from every listed user, and is updated by every plan.\<close>

lemma limits_force_update:
  assumes "cc_GetUsers f = Inr current" and "v \<in> set current" and "u \<noteq> shown u"
  shows "usersDiffer u v"
proof (rule ccontr)
  assume same: "\<not> usersDiffer u v"
  then have "v = shown u"
    using desired_user_shown listed_users_shown [OF assms(1,2)] by blast
  with same assms(3) show False
    by (cases u) (auto simp: usersDiffer_def shown_def split: option.splits if_splits)
qed

text \<open>
  A user cannot be moved: the plan updates the user in the new inbound, where it is not.  A desired state that has a listed user in
  another inbound is never answered with 200.
\<close>

lemma moved_user_fails:
  assumes "orders_ok ctx" and "users_ok X (ev_file (eg_env e))" and "eg_manager e = Manager rl"
    and "cc_GetUsers (ev_file (eg_env e)) = Inr current" and "distinct (map SubID current)" and "SubID ` set current \<subseteq> X"
    and "Decode_DesiredState je (r_body r) = Inr d" and "desired_ok X d"
    and "v \<in> set current" and "u \<in> set (ds_Users d)" and "SubID v = SubID u" and "InboundTag v \<noteq> InboundTag u"
  shows "status (fst (ApplyDesiredState je ctx zt r e)) \<noteq> 200"
  using sync_users [OF assms(1-6) surjective_pairing _ assms(7,8)] assms(9-12) by blast

text \<open>One user of an inbound is replaced by another one.\<close>

definition swap_body :: jv where
  "swap_body = JObj [(''version'', JInt 1), (''inbounds'', JArr [JObj [(''tag'', JStr ''b''), (''type'', JStr ''vless'')]]),
     (''users'', JArr [JObj [(''subId'', JStr ''s''), (''inboundTag'', JStr ''b'')]])]"

definition swap_json :: json_env where
  "swap_json = \<lparr>je_parse = (\<lambda>b. Inr swap_body), je_type_error = (\<lambda>v. ''type''), je_time = (\<lambda>s. Inl ''time'')\<rparr>"

definition swap_user :: "string \<Rightarrow> User" where
  "swap_user s = \<lparr>SubID = s, UUID = [], InboundTag = ''b'', Email = [], Enabled = False, Flow = [], LimitIP = 0,
     UploadLimit = 0, DownloadLimit = 0, ResetAt = None\<rparr>"

definition swap_state :: DesiredState where
  "swap_state = \<lparr>ds_Version = 1, ds_Inbounds = [demo_inbound], ds_Users = [swap_user ''s'']\<rparr>"

definition swap_config :: jobj where
  "swap_config = [(''inbounds'', JArr [JObj [(''tag'', JStr ''b''), (''type'', JStr ''vless''), (''users'', JArr [JObj [(''subId'', JStr ''x'')]])]])]"

definition swap_engine :: Engine where
  "swap_engine = NewEngine (demo_env swap_config []) (Manager True)
     \<lparr>m_syncStatus = None, m_syncTimestamp = None, m_changesApplied = 0, m_syncErrors = 0\<rparr> ''os''"

lemma swap_names: "\<not> names ''users'' ''version''" "\<not> names ''users'' ''inbounds''" "\<not> names ''inboundTag'' ''subId''" "\<not> names ''inboundTag'' ''uuid''"
  by (simp_all add: names_def lower_char_def char_of_def)

lemma swap_decode: "Decode_DesiredState swap_json b = Inr swap_state"
  by (simp add: Decode_DesiredState_def swap_json_def swap_body_def dec_DesiredState_def dec_struct_def
      dec_DesiredState_field_def demo_names swap_names dec_int_def dec_slice_def dec_Inbound_def dec_Inbound_field_def dec_string_def
      zero_DesiredState_def zero_Inbound_def demo_inbound_def dec_User_def dec_User_field_def zero_User_def swap_state_def swap_user_def)

lemma swap_listed:
  "cc_GetInbounds (written_file swap_config) =
     Inr [\<lparr>Tag = ''b'', Type = ''vless'', Listen = [], Port = 0, Options = [(''users'', JArr [JObj [(''subId'', JStr ''x'')]])]\<rparr>]"
  "cc_GetUsers (written_file swap_config) = Inr [(swap_user ''x'')\<lparr>Enabled := True\<rparr>]"
  by (simp_all add: written_file_def swap_config_def loadRootConfig_def cc_GetInbounds_def cc_GetUsers_def getInbounds_def arr_at_def
      inboundFromMap_def inbound_keys_def inbound_users_def getInboundUsers_def userFromMap_def getString_def swap_user_def
      List.map_filter_def)

definition swap_inbound :: Inbound where
  "swap_inbound = \<lparr>Tag = ''b'', Type = ''vless'', Listen = [], Port = 0, Options = [(''users'', JArr [JObj [(''subId'', JStr ''x'')]])]\<rparr>"

lemma swap_changes:
  "DiffInbounds id id [demo_inbound] [swap_inbound] = [\<lparr>ch_Type = ChangeUpdate, ch_Item = demo_inbound, ch_Previous = Some swap_inbound\<rparr>]"
  "DiffUsers id id [swap_user ''s''] [(swap_user ''x'')\<lparr>Enabled := True\<rparr>] =
     [\<lparr>ch_Type = ChangeCreate, ch_Item = swap_user ''s'', ch_Previous = None\<rparr>,
      \<lparr>ch_Type = ChangeDelete, ch_Item = (swap_user ''x'')\<lparr>Enabled := True\<rparr>, ch_Previous = Some ((swap_user ''x'')\<lparr>Enabled := True\<rparr>)\<rparr>]"
  by (simp_all add: DiffInbounds_def DiffUsers_def diff_by_def index_by_def swap_user_def swap_inbound_def demo_inbound_def inboundsDiffer_def mput_def)

lemma swap_run:
  "snd (Execute (NewPlanWithConfigManager
     [\<lparr>ch_Type = ChangeUpdate, ch_Item = demo_inbound, ch_Previous = Some swap_inbound\<rparr>]
     [\<lparr>ch_Type = ChangeCreate, ch_Item = swap_user ''s'', ch_Previous = None\<rparr>,
      \<lparr>ch_Type = ChangeDelete, ch_Item = (swap_user ''x'')\<lparr>Enabled := True\<rparr>, ch_Previous = Some ((swap_user ''x'')\<lparr>Enabled := True\<rparr>)\<rparr>] (Manager True))
     (demo_env swap_config [])) = None"
  by code_simp

lemma swap_request:
  obtains ops e' where "ApplyDesiredState swap_json demo_ctx [] r swap_engine = (ops, e')" "status ops = 200"
proof -
  let ?p = "NewPlanWithConfigManager (DiffInbounds id id [demo_inbound] [swap_inbound])
     (DiffUsers id id [swap_user ''s''] [(swap_user ''x'')\<lparr>Enabled := True\<rparr>]) (Manager True)"
  have rec: "Reconcile demo_ctx swap_state swap_engine = (UpdateSyncing swap_engine, Inr ?p)"
    by (simp add: Reconcile_def swap_engine_def NewEngine_def demo_env_def demo_ctx_def swap_listed swap_state_def flip: swap_inbound_def)
  obtain e1 where run: "Execute ?p (eg_env swap_engine) = (e1, None)"
    using swap_run by (cases "Execute ?p (eg_env swap_engine)") (simp add: swap_changes swap_engine_def NewEngine_def)
  have v: "CurrentVersion (eg_status swap_engine) = -1" "ds_Version swap_state = 1"
    by (simp_all add: swap_engine_def NewEngine_def NewSyncStatus_def swap_state_def)
  show ?thesis
    by (rule that [OF surjective_pairing]) (simp add: ApplyDesiredState_def swap_decode rec Apply_def run v Let_def)
qed

lemma swap_ok:
  "users_ok {''s'', ''x''} (written_file swap_config)" "desired_ok {''s'', ''x''} swap_state" "orders_ok demo_ctx"
proof -
  have "jwf (JObj swap_config)" "distinct (tags_of swap_config)" "inbound_objs swap_config \<noteq> []"
    by (simp_all add: swap_config_def jwf_JObj jwf_JArr mwf_def tags_of_def inbound_objs_def)
  moreover have "people swap_config = {(''b'', [(''subId'', JStr ''x'')])}"
    by (simp add: swap_config_def people_def people_of_def inbound_objs_def getInboundUsers_def arr_at_def)
  ultimately show "users_ok {''s'', ''x''} (written_file swap_config)"
    by (simp add: users_ok_def file_ok_def swap_listed file_tags_def clash_free_def file_people_def listed_id_def userMapMatchesSubID_def)
  show "desired_ok {''s'', ''x''} swap_state"
    by (simp add: desired_ok_def swap_state_def swap_user_def user_fits_def demo_inbound_def brings_no_users_def)
  show "orders_ok demo_ctx"
    by (simp add: orders_ok_def demo_ctx_def is_order_def)
qed

theorem users_converge_witness:
  "\<exists>ops e' v u. ApplyDesiredState swap_json demo_ctx [] demo_put swap_engine = (ops, e') \<and> status ops = 200 \<and>
     cc_GetUsers (ev_file (eg_env swap_engine)) = Inr [v] \<and> SubID v = ''x'' \<and> Enabled v \<and>
     cc_GetUsers (ev_file (eg_env e')) = Inr [u] \<and> SubID u = ''s'' \<and> InboundTag u = ''b'' \<and> \<not> Enabled u"
proof -
  obtain ops e' where run: "ApplyDesiredState swap_json demo_ctx [] demo_put swap_engine = (ops, e')" "status ops = 200"
    by (rule swap_request)
  have e: "ev_file (eg_env swap_engine) = written_file swap_config" "eg_manager swap_engine = Manager True"
    by (simp_all add: swap_engine_def NewEngine_def demo_env_def)
  have us: "cc_GetUsers (ev_file (eg_env swap_engine)) = Inr [(swap_user ''x'')\<lparr>Enabled := True\<rparr>]"
    by (simp add: e(1) swap_listed)
  obtain us' where "cc_GetUsers (ev_file (eg_env e')) = Inr us'" "mset us' = mset (map shown (ds_Users swap_state))"
    using users_converge [OF swap_ok(3) swap_ok(1) [folded e(1)] e(2) us _ _ run swap_decode swap_ok(2)]
    by (auto simp: swap_user_def)
  then have "cc_GetUsers (ev_file (eg_env e')) = Inr [swap_user ''s'']"
    by (simp add: swap_state_def swap_user_def shown_def)
  with run us show ?thesis
    by (simp add: swap_user_def)
qed

section \<open>The next synchronisation\<close>

text \<open>
  \<open>GetInbounds\<close> counts the list of users among the options of an inbound, and a desired inbound has none: an inbound that has users
  always differs, so every drift check updates it and makes sing-box reload.
\<close>

lemma inbound_with_users_differs:
  assumes "jwf (JObj m)" and "mget m ''users'' \<noteq> None" and "inbound_wf i" and "brings_no_users i"
  shows "inboundsDiffer i (inboundFromMap m)"
proof (rule ccontr)
  assume same: "\<not> inboundsDiffer i (inboundFromMap m)"
  let ?o = "Options (inboundFromMap m)"
  have "mwf (Options i)" "mwf ?o"
    using inboundFromMap_wf [OF assms(1)] assms(3) by (simp_all add: inbound_wf_def jwf_JObj)
  moreover have "jsort (JObj (Options i)) = jsort (JObj ?o)"
    using same inboundFromMap_wf [OF assms(1)] assms(3) by (simp add: inboundsDiffer_iff inbound_wf_def)
  ultimately have "mkeys (Options i) = mkeys ?o"
    using jsort_JObj_eq by blast
  moreover have "''users'' \<in> mkeys ?o"
  proof -
    obtain v where "(''users'', v) \<in> set m"
      using assms(2) by (auto simp: mget_def dest: map_of_SomeD)
    then show ?thesis
      by (auto simp: inboundFromMap_def mkeys_def inbound_keys_def image_iff intro!: bexI [of _ "(''users'', v)"])
  qed
  ultimately show False
    using assms(4) mkeys_mget [of "''users''" "Options i"] by (simp add: brings_no_users_def)
qed

lemma users_force_reload:
  assumes "is_order r1" and "is_order r2" and "cc_GetInbounds f = Inr current" and "loadConfigMap f = Inr cfg" and "jwf (JObj cfg)"
    and "distinct (tags_of cfg)" and "m \<in> set (inbound_objs cfg)" and "mget m ''users'' \<noteq> None"
    and "\<forall>i \<in> set ib. inbound_wf i \<and> brings_no_users i" and "getString m ''tag'' \<in> Tag ` set ib"
  shows "pl_steps (NewPlanWithConfigManager (DiffInbounds r1 r2 ib current) ucs mg) \<noteq> []"
proof -
  let ?t = "getString m ''tag''" and ?c = "inboundFromMap m"
  have cur: "current = map inboundFromMap (inbound_objs cfg)"
    using assms(3,4) by (auto simp: cc_GetInbounds_def bindE_eq_Inr_iff elim!: loadRootConfig_Inr)
  have "distinct (map Tag current)"
    using assms(6) by (simp add: cur tags_of_def inboundFromMap_def comp_def)
  then have c: "mget (index_by Tag current) ?t = Some ?c"
    using assms(7) by (simp add: mget_index_distinct cur inboundFromMap_def)
  obtain d where d: "mget (index_by Tag ib) ?t = Some d"
    using assms(10) mget_index_None [of Tag ib ?t] by (cases "mget (index_by Tag ib) ?t") auto
  have "jwf (JObj m)"
    using assms(5,7) by (auto simp: inbound_objs_getInbounds dest: jwf_getInbounds)
  with inbound_with_users_differs [OF this assms(8), of d] index_by_key [OF d] assms(9)
  have "\<lparr>ch_Type = ChangeUpdate, ch_Item = d, ch_Previous = Some ?c\<rparr> \<in> set (DiffInbounds r1 r2 ib current)"
    unfolding DiffInbounds_def set_diff_by [OF assms(1,2)] using c d by (auto simp: change_for_def)
  then show ?thesis
    using set_buildSteps [of "DiffInbounds r1 r2 ib current" ucs] by (auto simp: NewPlanWithConfigManager_def)
qed
end
