(* ===== verification/Lifecycle.thy ===== *)
theory Lifecycle
  imports Engine
begin

text \<open>
  The goroutines of \<open>internal/server/lifecycle.go\<close> as a step relation, together with the requests of
  \<open>internal/handlers/sync.go\<close> that use the same engine.  \<open>Start\<close> launches the first synchronisation, the heartbeat loop and the
  drift loop; each loop waits in a \<open>select\<close> for its ticker or for the end of its context.  A ticker keeps at most one tick for
  later.  When both are ready, \<open>select\<close> may take either.

  A synchronisation is the sequence of \<open>FetchConfig\<close>, \<open>Reconcile\<close>, \<open>Apply\<close> and \<open>reportStatus\<close>; any of these may be interleaved with
  those of another synchronisation, since nothing but the file is locked.  The network, the time and the iteration orders may be
  different in each step.  \<open>Reconcile\<close> and \<open>Apply\<close> are one step each: what another synchronisation does between the status
  update and the reads of a \<open>Reconcile\<close>, or between the file operations of an \<open>Apply\<close>, is not a separate interleaving here
  (the file operations themselves are interleaved in the theory \<open>Concurrency\<close>).
\<close>

section \<open>Model\<close>

datatype task = Fetching | Reconciling DesiredState | Applying Plan int | Reporting int | TaskDone

text \<open>\<open>fetchAndApplyDesiredState\<close> and, from \<open>Reconciling\<close> on, \<open>ApplyDesiredState\<close>, one call after the other.\<close>

fun task_step :: "json_env \<Rightarrow> 'w network \<Rightarrow> sync_ctx \<Rightarrow> string \<Rightarrow> Client \<Rightarrow> task \<Rightarrow> 'w \<times> Engine \<Rightarrow> task \<times> 'w \<times> Engine" where
  "task_step je net ctx now c Fetching (w, e) =
     (case FetchConfig je net c w of
        (w', Inl err) \<Rightarrow> (TaskDone, w', e)
      | (w', Inr cfg) \<Rightarrow> (Reconciling (configToDesiredState cfg), w', e))"
| "task_step je net ctx now c (Reconciling desired) (w, e) =
     (case Reconcile ctx desired e of
        (e', Inl err) \<Rightarrow> (TaskDone, w, e')
      | (e', Inr plan) \<Rightarrow> (Applying plan (ds_Version desired), w, e'))"
| "task_step je net ctx now c (Applying plan version) (w, e) =
     (case Apply ctx plan version e of
        (e', Some err) \<Rightarrow> (TaskDone, w, e')
      | (e', None) \<Rightarrow> (Reporting version, w, e'))"
| "task_step je net ctx now c (Reporting version) (w, e) =
     (TaskDone, reportStatus je net now c ''synced'' version ''initial sync completed'' w, e)"
| "task_step je net ctx now c TaskDone (w, e) = (TaskDone, w, e)"

text \<open>A request has no client and no report.\<close>

fun request_step :: "sync_ctx \<Rightarrow> task \<Rightarrow> Engine \<Rightarrow> task \<times> Engine" where
  "request_step ctx (Reconciling desired) e =
     (case Reconcile ctx desired e of
        (e', Inl err) \<Rightarrow> (TaskDone, e')
      | (e', Inr plan) \<Rightarrow> (Applying plan (ds_Version desired), e'))"
| "request_step ctx (Applying plan version) e = (TaskDone, fst (Apply ctx plan version e))"
| "request_step ctx t e = (t, e)"

datatype 'a loop = Absent | Selecting | Handling 'a | Returned

record 'w lifecycle =
  lc_fastify :: "Client option"
  lc_cancel :: bool
  lc_done :: bool
  lc_initial :: task
  lc_heartbeat :: "unit loop"
  lc_heartbeat_tick :: bool
  lc_drift :: "task loop"
  lc_drift_tick :: bool
  lc_requests :: "task list"
  lc_world :: 'w
  lc_engine :: Engine

text \<open>\<open>lc_cancel\<close>: the field \<open>cancel\<close> is set; \<open>lc_done\<close>: the context of the goroutines is done.\<close>

definition NewLifecycle :: "Client option \<Rightarrow> 'w \<Rightarrow> Engine \<Rightarrow> 'w lifecycle" where
  "NewLifecycle fastify w e =
     \<lparr>lc_fastify = fastify, lc_cancel = False, lc_done = False, lc_initial = TaskDone, lc_heartbeat = Absent,
      lc_heartbeat_tick = False, lc_drift = Absent, lc_drift_tick = False, lc_requests = [], lc_world = w, lc_engine = e\<rparr>"

text \<open>\<open>parent_done\<close>: the context given to \<open>Start\<close> is done already.  \<open>server.Start\<close> is the only caller, once.\<close>

definition Lifecycle_Start :: "bool \<Rightarrow> 'w lifecycle \<Rightarrow> 'w lifecycle" where
  "Lifecycle_Start parent_done l =
     (case lc_fastify l of
        None \<Rightarrow> l
      | Some c \<Rightarrow> l\<lparr>lc_cancel := True, lc_done := parent_done, lc_initial := Fetching, lc_heartbeat := Selecting, lc_drift := Selecting\<rparr>)"

definition Lifecycle_Stop :: "'w lifecycle \<Rightarrow> 'w lifecycle" where
  "Lifecycle_Stop l = (if lc_cancel l then l\<lparr>lc_done := True\<rparr> else l)"

text \<open>A request that passes the checks of \<open>ApplyDesiredState\<close>; others do not reach the engine.\<close>

definition request_begin :: "DesiredState \<Rightarrow> 'w lifecycle \<Rightarrow> 'w lifecycle" where
  "request_begin desired l =
     (if 0 < ds_Version desired \<and> CurrentVersion (eg_status (lc_engine l)) < ds_Version desired
      then l\<lparr>lc_requests := lc_requests l @ [Reconciling desired]\<rparr> else l)"

text \<open>The steps of the goroutines.\<close>

inductive goroutine_step :: "json_env \<Rightarrow> 'w lifecycle \<Rightarrow> 'w lifecycle \<Rightarrow> bool" for je where
  initial: "lc_fastify l = Some c \<Longrightarrow> lc_initial l \<noteq> TaskDone \<Longrightarrow>
    task_step je net ctx now c (lc_initial l) (lc_world l, lc_engine l) = (t, w, e) \<Longrightarrow>
    goroutine_step je l (l\<lparr>lc_initial := t, lc_world := w, lc_engine := e\<rparr>)"
| heartbeat_tick: "lc_heartbeat l = Selecting \<Longrightarrow> lc_heartbeat_tick l \<Longrightarrow>
    goroutine_step je l (l\<lparr>lc_heartbeat := Handling (), lc_heartbeat_tick := False\<rparr>)"
| heartbeat_done: "lc_heartbeat l = Selecting \<Longrightarrow> lc_done l \<Longrightarrow> goroutine_step je l (l\<lparr>lc_heartbeat := Returned\<rparr>)"
| heartbeat: "lc_fastify l = Some c \<Longrightarrow> lc_heartbeat l = Handling () \<Longrightarrow>
    goroutine_step je l (l\<lparr>lc_heartbeat := Selecting, lc_world := fst (Heartbeat je net now c (lc_world l))\<rparr>)"
| drift_tick: "lc_drift l = Selecting \<Longrightarrow> lc_drift_tick l \<Longrightarrow>
    goroutine_step je l (l\<lparr>lc_drift := Handling Fetching, lc_drift_tick := False\<rparr>)"
| drift_done: "lc_drift l = Selecting \<Longrightarrow> lc_done l \<Longrightarrow> goroutine_step je l (l\<lparr>lc_drift := Returned\<rparr>)"
| drift: "lc_fastify l = Some c \<Longrightarrow> lc_drift l = Handling s \<Longrightarrow>
    task_step je net ctx now c s (lc_world l, lc_engine l) = (t, w, e) \<Longrightarrow>
    goroutine_step je l (l\<lparr>lc_drift := (if t = TaskDone then Selecting else Handling t), lc_world := w, lc_engine := e\<rparr>)"

text \<open>Everything that happens to the lifecycle and to the engine.\<close>

inductive lifecycle_step :: "json_env \<Rightarrow> 'w lifecycle \<Rightarrow> 'w lifecycle \<Rightarrow> bool" for je where
  goroutine: "goroutine_step je l l' \<Longrightarrow> lifecycle_step je l l'"
| start: "\<not> lc_cancel l \<Longrightarrow> lifecycle_step je l (Lifecycle_Start parent_done l)"
| stop: "lifecycle_step je l (Lifecycle_Stop l)"
| signal: "lc_cancel l \<Longrightarrow> lifecycle_step je l (l\<lparr>lc_done := True\<rparr>)"
| tick_heartbeat: "lc_heartbeat l \<notin> {Absent, Returned} \<Longrightarrow> lifecycle_step je l (l\<lparr>lc_heartbeat_tick := True\<rparr>)"
| tick_drift: "lc_drift l \<notin> {Absent, Returned} \<Longrightarrow> lifecycle_step je l (l\<lparr>lc_drift_tick := True\<rparr>)"
| request: "lifecycle_step je l (request_begin desired l)"
| request_step: "i < length (lc_requests l) \<Longrightarrow> request_step ctx (lc_requests l ! i) (lc_engine l) = (t, e) \<Longrightarrow>
    lifecycle_step je l (l\<lparr>lc_requests := (lc_requests l)[i := t], lc_engine := e\<rparr>)"

inductive lifecycle_reachable :: "json_env \<Rightarrow> Client option \<Rightarrow> 'w lifecycle \<Rightarrow> bool" for je fastify where
  new: "lifecycle_reachable je fastify (NewLifecycle fastify w (NewEngine env m metrics oserr))"
| step: "lifecycle_reachable je fastify l \<Longrightarrow> lifecycle_step je l l' \<Longrightarrow> lifecycle_reachable je fastify l'"

inductive_cases goroutine_stepE: "goroutine_step je l l'"
inductive_cases lifecycle_stepE: "lifecycle_step je l l'"

section \<open>A synchronisation that is not disturbed\<close>

text \<open>Call by call, a synchronisation is \<open>fetchAndApplyDesiredState\<close>, and a request is \<open>ApplyDesiredState\<close>.\<close>

lemma task_steps_refine:
  "((\<lambda>(t, we). task_step je net ctx now c t we) ^^ 4) (Fetching, we) = (TaskDone, fetchAndApplyDesiredState je net ctx now c we)"
  by (cases we) (auto simp: numeral_eq_Suc fetchAndApplyDesiredState_def Let_def split: prod.split sum.split option.split)

lemma request_steps_refine:
  assumes "Decode_DesiredState je (r_body r) = Inr desired" and "0 < ds_Version desired"
    and "CurrentVersion (eg_status e) < ds_Version desired"
  shows "((\<lambda>(t, e). request_step ctx t e) ^^ 2) (Reconciling desired, e) = (TaskDone, snd (ApplyDesiredState je ctx zt r e))"
  using assms by (auto simp: numeral_eq_Suc ApplyDesiredState_def split: prod.split sum.split option.split)

section \<open>Settling\<close>

fun task_work :: "task \<Rightarrow> nat" where
  "task_work Fetching = 4"
| "task_work (Reconciling d) = 3"
| "task_work (Applying p v) = 2"
| "task_work (Reporting v) = 1"
| "task_work TaskDone = 0"

fun loop_work :: "('a \<Rightarrow> nat) \<Rightarrow> 'a loop \<Rightarrow> nat" where
  "loop_work f (Handling t) = 2 + f t"
| "loop_work f Selecting = 1"
| "loop_work f _ = 0"

text \<open>How many steps the goroutines can make without a further tick.\<close>

definition pending_work :: "'w lifecycle \<Rightarrow> nat" where
  "pending_work l =
     task_work (lc_initial l) +
     loop_work (\<lambda>_. 0) (lc_heartbeat l) + (if lc_heartbeat_tick l \<and> lc_heartbeat l \<noteq> Returned then 2 else 0) +
     loop_work task_work (lc_drift l) + (if lc_drift_tick l \<and> lc_drift l \<noteq> Returned then 6 else 0)"

lemma task_step_work: "t \<noteq> TaskDone \<Longrightarrow> task_step je net ctx now c t we = (t', w, e) \<Longrightarrow> task_work t' < task_work t"
  by (cases we; cases t) (auto split: prod.splits sum.splits option.splits)

lemma goroutine_step_work: "goroutine_step je l l' \<Longrightarrow> pending_work l' < pending_work l"
proof (induction rule: goroutine_step.induct)
  case (drift l c s net ctx now t w e)
  then show ?case
    using task_step_work [of s je net ctx now c "(lc_world l, lc_engine l)" t w e]
    by (cases "s = TaskDone") (auto simp: pending_work_def)
qed (auto simp: pending_work_def dest: task_step_work)

lemma goroutine_steps_bounded: "(goroutine_step je ^^ n) l l' \<Longrightarrow> n + pending_work l' \<le> pending_work l"
proof (induction n arbitrary: l')
  case (Suc n)
  then show ?case
    using goroutine_step_work by fastforce
qed simp

lemma task_work_bound: "task_work t \<le> 4"
  by (cases t) simp_all

lemma loop_work_bound: "(\<And>t. f t \<le> n) \<Longrightarrow> loop_work f lo \<le> 2 + n"
  by (cases lo) (simp_all add: le_SucI)

lemma pending_work_bound: "pending_work l \<le> 20"
  using task_work_bound [of "lc_initial l"] loop_work_bound [of "\<lambda>_. 0" 0 "lc_heartbeat l"]
    loop_work_bound [of task_work 4 "lc_drift l", OF task_work_bound]
  unfolding pending_work_def by simp

text \<open>The synchronisations that are on their way, in the background or for a request.\<close>

definition tasks :: "'w lifecycle \<Rightarrow> task set" where
  "tasks l = insert (lc_initial l) (set (lc_requests l) \<union> {t. lc_drift l = Handling t})"

fun is_applying :: "task \<Rightarrow> bool" where
  "is_applying (Applying p v) = True"
| "is_applying _ = False"

text \<open>
  The state is \<open>syncing\<close> only while some synchronisation is between \<open>Reconcile\<close> and the end of \<open>Apply\<close>; goroutines exist exactly
  after a start with a client.
\<close>

definition lifecycle_inv :: "Client option \<Rightarrow> 'w lifecycle \<Rightarrow> bool" where
  "lifecycle_inv fastify l \<longleftrightarrow>
     lc_fastify l = fastify \<and> (lc_cancel l \<longrightarrow> fastify \<noteq> None) \<and> (lc_done l \<longrightarrow> lc_cancel l) \<and>
     (lc_cancel l \<longleftrightarrow> lc_heartbeat l \<noteq> Absent) \<and> (lc_cancel l \<longleftrightarrow> lc_drift l \<noteq> Absent) \<and>
     (\<not> lc_cancel l \<longrightarrow> lc_initial l = TaskDone) \<and>
     (State (eg_status (lc_engine l)) = SyncStateSyncing \<longrightarrow> (\<exists>t \<in> tasks l. is_applying t))"

lemma Reconcile_state:
  "Reconcile ctx d e = (e', Inl err) \<Longrightarrow> State (eg_status e') = SyncStateError"
  by (simp add: Reconcile_Inl)

lemma Apply_state: "Apply ctx p v e = (e', r) \<Longrightarrow> State (eg_status e') \<noteq> SyncStateSyncing"
  using Apply_Some [of ctx p v e e'] Apply_None [of ctx p v e e'] by (cases r) auto

text \<open>One call of a synchronisation, or another one keeps the state \<open>syncing\<close>.\<close>

lemma task_step_syncing:
  assumes "task_step je net ctx now c t (w, e) = (t', w', e')" and "State (eg_status e') = SyncStateSyncing"
  shows "is_applying t' \<or> e' = e \<and> \<not> is_applying t"
  using assms by (cases t) (auto split: prod.splits sum.splits option.splits dest: Reconcile_state Apply_state)

lemma request_step_syncing:
  assumes "request_step ctx t e = (t', e')" and "State (eg_status e') = SyncStateSyncing"
  shows "is_applying t' \<or> e' = e \<and> \<not> is_applying t"
  using assms Apply_state [of ctx] by (cases t) (auto split: prod.splits sum.splits dest: Reconcile_state, metis prod.collapse)

lemma tasks_request:
  assumes "i < length (lc_requests l)"
  shows "tasks (l\<lparr>lc_requests := (lc_requests l)[i := t], lc_engine := e\<rparr>) \<supseteq> insert t (tasks l - {lc_requests l ! i})"
proof
  fix s
  assume s: "s \<in> insert t (tasks l - {lc_requests l ! i})"
  have "s \<in> set ((lc_requests l)[i := t])" if old: "s \<in> set (lc_requests l)" "s \<noteq> lc_requests l ! i"
  proof -
    obtain j where "j < length (lc_requests l)" "lc_requests l ! j = s"
      using old(1) by (auto simp: in_set_conv_nth)
    with old(2) show ?thesis
      by (cases "j = i") (auto simp: in_set_conv_nth intro!: exI [of _ j])
  qed
  with s assms show "s \<in> tasks (l\<lparr>lc_requests := (lc_requests l)[i := t], lc_engine := e\<rparr>)"
    by (auto simp: tasks_def set_update_memI)
qed

lemma goroutine_step_inv:
  assumes "goroutine_step je l l'" and "lifecycle_inv fastify l"
  shows "lifecycle_inv fastify l' \<and> lc_done l' = lc_done l"
  using assms
proof (induction rule: goroutine_step.induct)
  case (initial l c net ctx now t w e)
  with task_step_syncing [OF initial(3)] show ?case
    by (auto simp: lifecycle_inv_def tasks_def)
next
  case (drift l c s net ctx now t w e)
  with task_step_syncing [OF drift(3)] show ?case
    by (auto simp: lifecycle_inv_def tasks_def)
qed (auto simp: lifecycle_inv_def tasks_def)

lemma lifecycle_step_inv:
  assumes "lifecycle_step je l l'" and "lifecycle_inv fastify l"
  shows "lifecycle_inv fastify l'"
  using assms
proof (induction rule: lifecycle_step.induct)
  case (goroutine l l')
  then show ?case
    by (simp add: goroutine_step_inv)
next
  case (request_step i l ctx t e)
  have "\<exists>s \<in> tasks (l\<lparr>lc_requests := (lc_requests l)[i := t], lc_engine := e\<rparr>). is_applying s"
    if syncing: "State (eg_status e) = SyncStateSyncing"
  proof -
    consider "is_applying t" | s where "s \<in> tasks l - {lc_requests l ! i}" "is_applying s"
      using request_step_syncing [OF request_step(2) syncing] request_step(3) syncing by (auto simp: lifecycle_inv_def)
    then show ?thesis
      using tasks_request [OF request_step(1), of t e] by cases blast+
  qed
  with request_step(3) show ?case
    by (auto simp: lifecycle_inv_def)
qed (auto simp: lifecycle_inv_def tasks_def Lifecycle_Start_def Lifecycle_Stop_def request_begin_def split: option.splits)

lemma lifecycle_inv_new: "lifecycle_inv fastify (NewLifecycle fastify w (NewEngine env m metrics oserr))"
  by (simp add: lifecycle_inv_def NewLifecycle_def NewEngine_def NewSyncStatus_def)

lemma lifecycle_reachable_inv: "lifecycle_reachable je fastify l \<Longrightarrow> lifecycle_inv fastify l"
  by (induction rule: lifecycle_reachable.induct) (rule lifecycle_inv_new, rule lifecycle_step_inv)

lemma goroutine_steps_inv:
  "(goroutine_step je ^^ n) l l' \<Longrightarrow> lifecycle_inv fastify l \<Longrightarrow> lifecycle_inv fastify l' \<and> lc_done l' = lc_done l"
proof (induction n arbitrary: l')
  case (Suc n)
  then show ?case
    using goroutine_step_inv by fastforce
qed simp

text \<open>A goroutine whose context is done can always make a step until it has returned.\<close>

lemma goroutines_progress:
  assumes "lifecycle_inv fastify l" and "lc_done l" and "\<not> (\<exists>l'. goroutine_step je l l')"
  shows "lc_initial l = TaskDone \<and> lc_heartbeat l = Returned \<and> lc_drift l = Returned"
proof -
  obtain c where c: "lc_fastify l = Some c" "lc_heartbeat l \<noteq> Absent" "lc_drift l \<noteq> Absent"
    using assms(1,2) by (auto simp: lifecycle_inv_def)
  have "lc_initial l = TaskDone"
  proof (rule ccontr)
    assume "lc_initial l \<noteq> TaskDone"
    from goroutine_step.initial [OF c(1) this surjective_pairing [THEN trans, OF arg_cong2 [where f = Pair, OF refl surjective_pairing]]] assms(3)
    show False
      by blast
  qed
  moreover have "lc_heartbeat l = Returned"
    using c assms(2,3) goroutine_step.heartbeat_done [of l je] goroutine_step.heartbeat [OF c(1), of je] by (cases "lc_heartbeat l") auto
  moreover have "lc_drift l = Returned"
  proof (cases "lc_drift l")
    case (Handling s)
    from goroutine_step.drift [OF c(1) this surjective_pairing [THEN trans, OF arg_cong2 [where f = Pair, OF refl surjective_pairing]]] assms(3)
    show ?thesis
      by blast
  qed (use c assms(2,3) goroutine_step.drift_done [of l je] in auto)
  ultimately show ?thesis
    by blast
qed

text \<open>
  C37.  The background work stops and the status settles.  Once the context of the goroutines is done (\<open>Stop\<close>, or a signal), they
  make at most 20 more steps without a new tick, whatever the network answers and however the steps are interleaved; as long as
  one of them has not returned, a step is possible.  When they have returned and no request is being applied, the status is not
  \<open>syncing\<close>: every synchronisation has ended in \<open>synced\<close> or \<open>error\<close>.
\<close>

theorem lifecycle_settles:
  assumes "lifecycle_reachable je fastify l" and "lc_done l" and "(goroutine_step je ^^ n) l l'"
  shows "n \<le> 20 \<and>
    ((\<exists>l''. goroutine_step je l' l'') \<or>
     lc_initial l' = TaskDone \<and> lc_heartbeat l' = Returned \<and> lc_drift l' = Returned \<and>
     (list_all (\<lambda>t. \<not> is_applying t) (lc_requests l') \<longrightarrow> State (eg_status (lc_engine l')) \<noteq> SyncStateSyncing))"
proof -
  have inv: "lifecycle_inv fastify l'" "lc_done l'"
    using goroutine_steps_inv [OF assms(3) lifecycle_reachable_inv [OF assms(1)]] assms(2) by simp_all
  have "n \<le> 20"
    using goroutine_steps_bounded [OF assms(3)] pending_work_bound [of l] by simp
  moreover have "State (eg_status (lc_engine l')) \<noteq> SyncStateSyncing"
    if "lc_initial l' = TaskDone" "lc_drift l' = Returned" "list_all (\<lambda>t. \<not> is_applying t) (lc_requests l')"
    using inv(1) that by (auto simp: lifecycle_inv_def tasks_def list_all_iff)
  ultimately show ?thesis
    using goroutines_progress [OF inv, of je] by blast
qed

text \<open>Without a client of the control plane there are no goroutines.\<close>

lemma lifecycle_standalone:
  assumes "lifecycle_reachable je None l"
  shows "\<not> goroutine_step je l l'"
proof -
  have "lc_fastify l = None" "lc_heartbeat l = Absent" "lc_drift l = Absent"
    using lifecycle_reachable_inv [OF assms] by (auto simp: lifecycle_inv_def)
  then show ?thesis
    by (auto elim: goroutine_stepE)
qed

definition demo_lifecycle :: "Client option \<Rightarrow> unit lifecycle" where
  "demo_lifecycle fastify = NewLifecycle fastify () demo_engine"

lemma demo_lifecycle_reachable: "lifecycle_reachable je fastify (demo_lifecycle fastify)"
  unfolding demo_lifecycle_def demo_engine_def by (rule lifecycle_reachable.new)

definition demo_fastify :: Client where
  "demo_fastify = \<lparr>baseURL = ''https://x'', cl_token = ''t'', cl_secret = ''s'', httpClient = GivenClient,
     cl_retry = \<lparr>MaxRetries = 1, BaseDelay = 1, MaxDelay = 1\<rparr>\<rparr>"

text \<open>A start followed by a stop.\<close>

definition demo_stopped :: "unit lifecycle" where
  "demo_stopped = Lifecycle_Stop (Lifecycle_Start False (demo_lifecycle (Some demo_fastify)))"

theorem lifecycle_settles_witness:
  "\<exists>l. (goroutine_step demo_sync_json ^^ 1) demo_stopped l \<and> lc_heartbeat l = Returned \<and> (1::nat) \<le> 20 \<and>
     ((\<exists>l'. goroutine_step demo_sync_json l l') \<or> lc_drift l = Returned)"
proof -
  let ?je = demo_sync_json
  have "lifecycle_reachable ?je (Some demo_fastify) demo_stopped"
    unfolding demo_stopped_def
    by (rule lifecycle_reachable.step [OF lifecycle_reachable.step [OF demo_lifecycle_reachable lifecycle_step.start] lifecycle_step.stop])
      (simp add: demo_lifecycle_def NewLifecycle_def)
  moreover have stopped: "lc_done demo_stopped" "lc_heartbeat demo_stopped = Selecting"
    by (simp_all add: demo_stopped_def demo_lifecycle_def NewLifecycle_def Lifecycle_Start_def Lifecycle_Stop_def)
  moreover have step: "(goroutine_step ?je ^^ 1) demo_stopped (demo_stopped\<lparr>lc_heartbeat := Returned\<rparr>)"
    using goroutine_step.heartbeat_done [OF stopped(2,1)] by (simp only: relpowp_1)
  ultimately have "(1::nat) \<le> 20 \<and> ((\<exists>l'. goroutine_step ?je (demo_stopped\<lparr>lc_heartbeat := Returned\<rparr>) l') \<or>
      lc_drift (demo_stopped\<lparr>lc_heartbeat := Returned\<rparr>) = Returned)"
    using lifecycle_settles [of ?je "Some demo_fastify" demo_stopped 1 "demo_stopped\<lparr>lc_heartbeat := Returned\<rparr>"] by blast
  with step show ?thesis
    by (intro exI [of _ "demo_stopped\<lparr>lc_heartbeat := Returned\<rparr>"]) simp
qed

section \<open>An older version can win\<close>

definition empty_state :: "int \<Rightarrow> DesiredState" where
  "empty_state v = \<lparr>ds_Version = v, ds_Inbounds = [], ds_Users = []\<rparr>"

lemma empty_sync:
  assumes "eg_env e = demo_env [(''inbounds'', JArr [])] []" and "eg_manager e = Manager True"
  obtains p e1 e2 where "request_step demo_ctx (Reconciling (empty_state v)) e = (Applying p v, e1)"
    "request_step demo_ctx (Applying p v) e1 = (TaskDone, e2)" "eg_env e2 = eg_env e" "eg_manager e2 = eg_manager e"
    "CurrentVersion (eg_status e1) = CurrentVersion (eg_status e)" "CurrentVersion (eg_status e2) = v"
proof -
  let ?p = "NewPlanWithConfigManager [] [] (Manager True)"
  have "Reconcile demo_ctx (empty_state v) e = (UpdateSyncing e, Inr ?p)"
    using assms by (simp add: Reconcile_def demo_ctx_def demo_env_def sync_demo_listed empty_state_def DiffInbounds_def DiffUsers_def
        diff_by_def index_by_def)
  moreover have "Apply demo_ctx ?p v (UpdateSyncing e) = (UpdateSync 0 v 0 (UpdateSyncing (UpdateSyncing e)), None)"
    by (simp add: Apply_def Execute_def NewPlanWithConfigManager_def buildSteps_def StepsCount_def demo_ctx_def)
  moreover have "eg_manager (UpdateSync 0 v 0 (UpdateSyncing (UpdateSyncing e))) = eg_manager e"
    by (simp add: UpdateSync_def UpdateSyncing_def set_status_def)
  ultimately show ?thesis
    using that [of ?p "UpdateSyncing e" "UpdateSync 0 v 0 (UpdateSyncing (UpdateSyncing e))"] by (simp add: empty_state_def)
qed

text \<open>
  The check of the version is not repeated when the plan is applied: of two requests that are handled at the same time, the one
  with the older version can be applied last.
\<close>

lemma older_version_applied_last:
  "\<exists>l l'. lifecycle_reachable je None (l :: unit lifecycle) \<and> lifecycle_step je l l' \<and>
     CurrentVersion (eg_status (lc_engine l)) = 2 \<and> CurrentVersion (eg_status (lc_engine l')) = 1"
proof -
  define l where "l rs e = (demo_lifecycle None)\<lparr>lc_requests := rs, lc_engine := e\<rparr>" for rs e
  have start: "eg_env demo_engine = demo_env [(''inbounds'', JArr [])] []" "eg_manager demo_engine = Manager True"
    by (simp_all add: demo_engine_def NewEngine_def)
  obtain p e1 e2 where two: "request_step demo_ctx (Reconciling (empty_state 2)) demo_engine = (Applying p 2, e1)"
    "request_step demo_ctx (Applying p 2) e1 = (TaskDone, e2)" "eg_env e2 = eg_env demo_engine" "eg_manager e2 = eg_manager demo_engine"
    "CurrentVersion (eg_status e2) = 2"
    by (rule empty_sync [OF start])
  obtain q e3 e4 where one: "request_step demo_ctx (Reconciling (empty_state 1)) e2 = (Applying q 1, e3)"
    "request_step demo_ctx (Applying q 1) e3 = (TaskDone, e4)" "CurrentVersion (eg_status e3) = CurrentVersion (eg_status e2)"
    "CurrentVersion (eg_status e4) = 1"
    using empty_sync [of e2 1] two(3,4) start by metis
  have begin2: "lifecycle_reachable je None (l [Reconciling (empty_state 2), Reconciling (empty_state 1)] demo_engine)"
    using lifecycle_reachable.step [OF lifecycle_reachable.step [OF demo_lifecycle_reachable
        lifecycle_step.request [of je _ "empty_state 2"]] lifecycle_step.request [of je _ "empty_state 1"]]
    by (simp add: l_def request_begin_def demo_lifecycle_def NewLifecycle_def empty_state_def demo_engine_def NewEngine_def NewSyncStatus_def)
  have move: "lifecycle_step je (l rs e) (l (rs[i := t]) e')" if "i < length rs" "request_step demo_ctx (rs ! i) e = (t, e')" for rs i t e e'
    using lifecycle_step.request_step [of i "l rs e" demo_ctx t e' je] that by (simp add: l_def)
  let ?l = "l [TaskDone, Applying q 1] e3"
  have "lifecycle_reachable je None ?l"
    using lifecycle_reachable.step [OF lifecycle_reachable.step [OF lifecycle_reachable.step [OF begin2
        move [of 0 _ _ "Applying p 2" e1]] move [of 0 _ _ TaskDone e2]] move [of 1 _ _ "Applying q 1" e3]] two one by simp
  moreover have "lifecycle_step je ?l (l [TaskDone, TaskDone] e4)"
    using move [of 1 "[TaskDone, Applying q 1]" e3 TaskDone e4] one by simp
  ultimately show ?thesis
    using two one by (intro exI [of _ ?l] exI [of _ "l [TaskDone, TaskDone] e4"]) (simp add: l_def)
qed

end
