(* ===== verification/Sha256.thy ===== *)
theory Sha256
  imports GoStrings
begin

text \<open>
  The cryptographic functions of the Go standard library that the agent calls: SHA-256
  (FIPS 180-4), HMAC (RFC 2104) and hexadecimal encoding.  They are written out on 32-bit
  words so that the requests the agent signs and accepts are the real ones.
\<close>

section \<open>SHA-256\<close>

definition rotr32 :: "nat \<Rightarrow> uint32 \<Rightarrow> uint32" where
  "rotr32 n x = drop_bit n x OR push_bit (32 - n) x"

definition sha_Ch :: "uint32 \<Rightarrow> uint32 \<Rightarrow> uint32 \<Rightarrow> uint32" where
  "sha_Ch x y z = (x AND y) XOR (NOT x AND z)"

definition sha_Maj :: "uint32 \<Rightarrow> uint32 \<Rightarrow> uint32 \<Rightarrow> uint32" where
  "sha_Maj x y z = (x AND y) XOR (x AND z) XOR (y AND z)"

definition sha_S0 :: "uint32 \<Rightarrow> uint32" where
  "sha_S0 x = rotr32 2 x XOR rotr32 13 x XOR rotr32 22 x"

definition sha_S1 :: "uint32 \<Rightarrow> uint32" where
  "sha_S1 x = rotr32 6 x XOR rotr32 11 x XOR rotr32 25 x"

definition sha_s0 :: "uint32 \<Rightarrow> uint32" where
  "sha_s0 x = rotr32 7 x XOR rotr32 18 x XOR drop_bit 3 x"

definition sha_s1 :: "uint32 \<Rightarrow> uint32" where
  "sha_s1 x = rotr32 17 x XOR rotr32 19 x XOR drop_bit 10 x"

definition sha_K :: "uint32 list" where
  "sha_K =
    [1116352408, 1899447441, 3049323471, 3921009573, 961987163, 1508970993, 2453635748,
     2870763221, 3624381080, 310598401, 607225278, 1426881987, 1925078388, 2162078206,
     2614888103, 3248222580, 3835390401, 4022224774, 264347078, 604807628, 770255983,
     1249150122, 1555081692, 1996064986, 2554220882, 2821834349, 2952996808, 3210313671,
     3336571891, 3584528711, 113926993, 338241895, 666307205, 773529912, 1294757372,
     1396182291, 1695183700, 1986661051, 2177026350, 2456956037, 2730485921, 2820302411,
     3259730800, 3345764771, 3516065817, 3600352804, 4094571909, 275423344, 430227734,
     506948616, 659060556, 883997877, 958139571, 1322822218, 1537002063, 1747873779,
     1955562222, 2024104815, 2227730452, 2361852424, 2428436474, 2756734187, 3204031479,
     3329325298]"

definition sha_H0 :: "uint32 list" where
  "sha_H0 =
    [1779033703, 3144134277, 1013904242, 2773480762, 1359893119, 2600822924, 528734635,
     1541459225]"

text \<open>The message schedule, from a window of the last sixteen words.\<close>

primrec sha_schedule :: "nat \<Rightarrow> uint32 list \<Rightarrow> uint32 list" where
  "sha_schedule 0 w = []"
| "sha_schedule (Suc n) w =
     hd w # sha_schedule n (tl w @ [sha_s1 (w ! 14) + w ! 9 + sha_s0 (w ! 1) + w ! 0])"

fun sha_round :: "uint32 \<times> uint32 \<Rightarrow> uint32 list \<Rightarrow> uint32 list" where
  "sha_round (k, w) [a, b, c, d, e, f, g, h] =
     (let t1 = h + sha_S1 e + sha_Ch e f g + k + w;
          t2 = sha_S0 a + sha_Maj a b c
      in [t1 + t2, a, b, c, d + t1, e, f, g])"
| "sha_round _ s = s"

definition be_word :: "byte list \<Rightarrow> uint32" where
  "be_word bs = foldl (\<lambda>acc b. push_bit 8 acc OR ucast b) 0 bs"

fun be_words :: "byte list \<Rightarrow> uint32 list" where
  "be_words (a # b # c # d # bs) = be_word [a, b, c, d] # be_words bs"
| "be_words _ = []"

definition be_bytes :: "uint32 \<Rightarrow> byte list" where
  "be_bytes w = map (\<lambda>i. ucast (drop_bit i w)) [24, 16, 8, 0]"

definition sha_block :: "uint32 list \<Rightarrow> byte list \<Rightarrow> uint32 list" where
  "sha_block h block =
     map2 (+) h (fold sha_round (zip sha_K (sha_schedule 64 (be_words block))) h)"

definition sha_pad :: "byte list \<Rightarrow> byte list" where
  "sha_pad m =
     (let n = length m; z = (119 - n mod 64) mod 64
      in m @ [0x80] @ replicate z 0 @ map (\<lambda>i. ucast (drop_bit i (word_of_nat (8 * n) :: uint64)))
           [56, 48, 40, 32, 24, 16, 8, 0])"

fun sha_blocks :: "uint32 list \<Rightarrow> byte list \<Rightarrow> uint32 list" where
  "sha_blocks h m = (if m = [] then h else sha_blocks (sha_block h (take 64 m)) (drop 64 m))"

declare sha_blocks.simps [simp del]

text \<open>\<open>h := sha256.New(); h.Write(m); h.Sum(nil)\<close>\<close>

definition sha256 :: "byte list \<Rightarrow> byte list" where
  "sha256 m = concat (map be_bytes (sha_blocks sha_H0 (sha_pad m)))"

section \<open>HMAC\<close>

definition hmac_key :: "byte list \<Rightarrow> byte list" where
  "hmac_key key =
     (let k = (if 64 < length key then sha256 key else key) in k @ replicate (64 - length k) 0)"

definition hmac_sha256 :: "byte list \<Rightarrow> byte list \<Rightarrow> byte list" where
  "hmac_sha256 key m =
     (let k = hmac_key key
      in sha256 (map (\<lambda>b. b XOR 0x5c) k @ sha256 (map (\<lambda>b. b XOR 0x36) k @ m)))"

section \<open>Hexadecimal encoding\<close>

definition hextable :: string where
  "hextable = ''0123456789abcdef''"

definition hex_EncodeToString :: "byte list \<Rightarrow> string" where
  "hex_EncodeToString bs =
     concat (map (\<lambda>b. [hextable ! unat (drop_bit 4 b), hextable ! unat (b AND 0x0f)]) bs)"

section \<open>Shape of the results\<close>

lemma length_sha_round [simp]: "length (sha_round kw s) = length s"
  by (cases "(kw, s)" rule: sha_round.cases) (simp_all add: Let_def)

lemma length_sha_rounds: "length (fold sha_round kws s) = length s"
  by (induction kws arbitrary: s) simp_all

lemma length_sha_block: "length (sha_block h b) = length h"
  by (simp add: sha_block_def length_sha_rounds)

lemma length_sha_blocks: "length (sha_blocks h m) = length h"
proof (induction h m rule: sha_blocks.induct)
  case (1 h m)
  then show ?case
    by (subst sha_blocks.simps) (simp add: length_sha_block)
qed

lemma length_concat_be_bytes: "length (concat (map be_bytes ws)) = 4 * length ws"
  by (induction ws) (simp_all add: be_bytes_def)

lemma length_sha256 [simp]: "length (sha256 m) = 32"
  by (simp add: sha256_def length_concat_be_bytes length_sha_blocks sha_H0_def)

lemma length_hmac_sha256 [simp]: "length (hmac_sha256 k m) = 32"
  by (simp add: hmac_sha256_def Let_def)

lemma pad_arith: "(n + 9 + (119 - n mod 64) mod 64) mod 64 = (0 :: nat)"
proof -
  have "n mod 64 < 64"
    by simp
  then have "(n mod 64 + 9 + (119 - n mod 64)) mod 64 = 0"
    by simp
  then show ?thesis
    by (metis mod_add_left_eq mod_add_right_eq)
qed

lemma sha_pad_blocks: "length (sha_pad m) mod 64 = 0"
  using pad_arith [of "length m"] by (simp add: sha_pad_def Let_def ac_simps)

lemma length_hex [simp]: "length (hex_EncodeToString bs) = 2 * length bs"
  by (induction bs) (simp_all add: hex_EncodeToString_def)

lemma unat_high_nibble: "unat (drop_bit 4 (b :: byte)) < 16"
proof -
  have "unat b < 256"
    using unsigned_less [of b, where ?'a = nat] by simp
  then show ?thesis
    by (simp add: unsigned_drop_bit_eq drop_bit_eq_div del: drop_bit_word_numeral) (simp add: unat_div)
qed

lemma unat_low_nibble: "unat ((b :: byte) AND 0x0f) < 16"
proof -
  have "b AND 0x0f = take_bit 4 b"
    by (simp add: take_bit_eq_mask mask_eq_exp_minus_1)
  then show ?thesis
    by (simp add: take_bit_eq_mod unat_mod)
qed

lemma set_hex: "set (hex_EncodeToString bs) \<subseteq> set hextable"
proof (induction bs)
  case (Cons b bs)
  have "length hextable = 16"
    by (simp add: hextable_def)
  with Cons unat_high_nibble [of b] unat_low_nibble [of b] show ?case
    by (simp add: hex_EncodeToString_def)
qed (simp add: hex_EncodeToString_def)

lemma hex_no_newline: "CHR 0x0A \<notin> set (hex_EncodeToString bs)"
  using set_hex [of bs] by (auto simp: hextable_def)

end
