(* ===== verification/Replay.thy ===== *)
theory Replay
  imports Prelude
begin

text \<open>
  Replay protection, \<open>internal/auth/replay.go\<close>: the timestamp check and the nonce cache, a map
  from nonces to the time they were stored together with a queue of the nonces in the order of
  storing.  \<open>time.Now()\<close> is an argument of each operation; \<open>nc.mu\<close> makes each of them atomic.
  An index out of range (\<open>nc.queue[0]\<close> on an empty queue) would panic: that is the result
  \<^term>\<open>None\<close>, and the invariant \<open>nc_inv\<close> shows that it never happens.
\<close>

section \<open>Model\<close>

definition MaxTimestampSkew :: duration where
  "MaxTimestampSkew = 300 * Second"

definition MaxNonceCacheSize :: nat where
  "MaxNonceCacheSize = 10000"

definition NonceCacheTTL :: duration where
  "NonceCacheTTL = 24 * 3600 * Second"

record NonceCache =
  nc_cache :: "(string, time) gomap"
  nc_queue :: "string list"

definition NewNonceCache :: NonceCache where
  "NewNonceCache = \<lparr>nc_cache = [], nc_queue = []\<rparr>"

datatype replay_error = ErrTimestampSkew | ErrReplayDetected

definition CheckTimestampSkew :: "time \<Rightarrow> time \<Rightarrow> replay_error option" where
  "CheckTimestampSkew now timestamp =
     (let skew = time_Sub now timestamp;
          skew = (if skew < 0 then wrap64 (- skew) else skew)
      in if MaxTimestampSkew < skew then Some ErrTimestampSkew else None)"

fun cleanup_loop :: "time \<Rightarrow> (string, time) gomap \<Rightarrow> string list \<Rightarrow> NonceCache" where
  "cleanup_loop now cache [] = \<lparr>nc_cache = cache, nc_queue = []\<rparr>"
| "cleanup_loop now cache (oldestNonce # queue) =
     (case mget cache oldestNonce of
        Some storedTime \<Rightarrow>
          if NonceCacheTTL < time_Sub now storedTime
          then cleanup_loop now (mdel oldestNonce cache) queue
          else \<lparr>nc_cache = cache, nc_queue = oldestNonce # queue\<rparr>
      | None \<Rightarrow> \<lparr>nc_cache = cache, nc_queue = oldestNonce # queue\<rparr>)"

definition cleanup :: "time \<Rightarrow> NonceCache \<Rightarrow> NonceCache" where
  "cleanup now nc = cleanup_loop now (nc_cache nc) (nc_queue nc)"

fun evict_loop :: "(string, time) gomap \<Rightarrow> string list \<Rightarrow> NonceCache option" where
  "evict_loop cache queue =
     (if MaxNonceCacheSize \<le> length cache
      then (case queue of
              [] \<Rightarrow> None
            | oldestNonce # queue \<Rightarrow> evict_loop (mdel oldestNonce cache) queue)
      else Some \<lparr>nc_cache = cache, nc_queue = queue\<rparr>)"

definition CheckAndStoreNonce ::
  "string \<Rightarrow> time \<Rightarrow> NonceCache \<Rightarrow> (NonceCache \<times> replay_error option) option" where
  "CheckAndStoreNonce nonce now nc =
     (if mget (nc_cache nc) nonce \<noteq> None then Some (nc, Some ErrReplayDetected)
      else let nc = cleanup now nc
           in case evict_loop (nc_cache nc) (nc_queue nc) of
                None \<Rightarrow> None
              | Some nc \<Rightarrow>
                  Some (nc\<lparr>nc_cache := mput nonce now (nc_cache nc),
                           nc_queue := nc_queue nc @ [nonce]\<rparr>, None))"

definition Size :: "NonceCache \<Rightarrow> nat" where
  "Size nc = length (nc_cache nc)"

definition Clear :: "NonceCache \<Rightarrow> NonceCache" where
  "Clear nc = \<lparr>nc_cache = [], nc_queue = []\<rparr>"

definition HasNonce :: "NonceCache \<Rightarrow> string \<Rightarrow> bool" where
  "HasNonce nc nonce \<longleftrightarrow> mget (nc_cache nc) nonce \<noteq> None"

definition ParseTimestamp :: "int \<Rightarrow> time" where
  "ParseTimestamp timestamp = time_Unix timestamp"

text \<open>A sequence of calls, each with the nonce and the clock it sees, and their results.\<close>

fun check_all ::
  "(string \<times> time) list \<Rightarrow> NonceCache \<Rightarrow> (NonceCache \<times> replay_error option list) option" where
  "check_all [] nc = Some (nc, [])"
| "check_all ((nonce, now) # calls) nc =
     (case CheckAndStoreNonce nonce now nc of
        None \<Rightarrow> None
      | Some (nc, r) \<Rightarrow> map_option (\<lambda>(nc, rs). (nc, r # rs)) (check_all calls nc))"

section \<open>The invariant\<close>

text \<open>The queue lists exactly the cached nonces, each once, and there is never one too many.\<close>

definition nc_inv :: "NonceCache \<Rightarrow> bool" where
  "nc_inv nc \<longleftrightarrow> mwf (nc_cache nc) \<and> distinct (nc_queue nc) \<and>
     set (nc_queue nc) = mkeys (nc_cache nc) \<and> length (nc_cache nc) \<le> MaxNonceCacheSize"

declare evict_loop.simps [simp del]

lemma nc_inv_length: "nc_inv nc \<Longrightarrow> length (nc_queue nc) = length (nc_cache nc)"
  by (metis card_mkeys distinct_card nc_inv_def)

lemma nc_inv_New: "nc_inv NewNonceCache"
  by (simp add: nc_inv_def NewNonceCache_def)

lemma nc_inv_Clear: "nc_inv (Clear nc)"
  by (simp add: nc_inv_def Clear_def)

lemma nc_inv_head:
  assumes "nc_inv \<lparr>nc_cache = c, nc_queue = n # q\<rparr>"
  obtains t where "mget c n = Some t"
proof -
  have "n \<in> mkeys c"
    using assms by (auto simp: nc_inv_def)
  with that show thesis
    by (auto simp: mkeys_mget)
qed

lemma nc_inv_drop_head:
  assumes "nc_inv \<lparr>nc_cache = c, nc_queue = n # q\<rparr>"
  shows "nc_inv \<lparr>nc_cache = mdel n c, nc_queue = q\<rparr>" and "length (mdel n c) = length c - 1"
proof -
  obtain t where t: "mget c n = Some t"
    using assms by (rule nc_inv_head)
  with assms show len: "length (mdel n c) = length c - 1"
    by (simp add: nc_inv_def length_mdel mkeys_mget)
  with assms show "nc_inv \<lparr>nc_cache = mdel n c, nc_queue = q\<rparr>"
    by (auto simp: nc_inv_def)
qed

section \<open>The abstract view: a log of nonces\<close>

text \<open>
  Abstractly the cache is the log of accepted nonces with their times, oldest first.  Cleaning
  up drops the expired entries at the front, evicting drops the oldest one, storing appends.
\<close>

definition nc_log :: "NonceCache \<Rightarrow> (string \<times> time) list" where
  "nc_log nc = map (\<lambda>n. (n, the (mget (nc_cache nc) n))) (nc_queue nc)"

definition expired :: "time \<Rightarrow> string \<times> time \<Rightarrow> bool" where
  "expired now e \<longleftrightarrow> NonceCacheTTL < time_Sub now (snd e)"

definition log_store ::
  "string \<Rightarrow> time \<Rightarrow> (string \<times> time) list \<Rightarrow> (string \<times> time) list \<times> replay_error option" where
  "log_store nonce now l =
     (if nonce \<in> fst ` set l then (l, Some ErrReplayDetected)
      else let l = dropWhile (expired now) l;
               l = (if MaxNonceCacheSize \<le> length l then tl l else l)
           in (l @ [(nonce, now)], None))"

lemma nc_log_keys: "fst ` set (nc_log nc) = set (nc_queue nc)"
  by (force simp: nc_log_def)

lemma length_nc_log: "nc_inv nc \<Longrightarrow> length (nc_log nc) = length (nc_cache nc)"
  by (simp add: nc_log_def nc_inv_length)

lemma nc_log_head:
  assumes "nc_inv \<lparr>nc_cache = c, nc_queue = n # q\<rparr>" and "mget c n = Some t"
  shows "nc_log \<lparr>nc_cache = c, nc_queue = n # q\<rparr> = (n, t) # nc_log \<lparr>nc_cache = mdel n c, nc_queue = q\<rparr>"
  using assms by (auto simp: nc_log_def nc_inv_def)

lemma cleanup_loop_log:
  "nc_inv \<lparr>nc_cache = c, nc_queue = q\<rparr> \<Longrightarrow> nc_inv (cleanup_loop now c q) \<and>
    nc_log (cleanup_loop now c q) = dropWhile (expired now) (nc_log \<lparr>nc_cache = c, nc_queue = q\<rparr>)"
proof (induction q arbitrary: c)
  case Nil
  then show ?case by (simp add: nc_log_def)
next
  case (Cons n q)
  obtain t where t: "mget c n = Some t"
    using Cons.prems by (rule nc_inv_head)
  moreover have "expired now (n, t) \<longleftrightarrow> NonceCacheTTL < time_Sub now t"
    by (simp add: expired_def)
  ultimately show ?case
    using Cons.IH [OF nc_inv_drop_head(1) [OF Cons.prems]] Cons.prems
    by (simp add: nc_log_head)
qed

lemma cleanup_log:
  "nc_inv nc \<Longrightarrow> nc_inv (cleanup now nc) \<and> nc_log (cleanup now nc) = dropWhile (expired now) (nc_log nc)"
  using cleanup_loop_log [of "nc_cache nc" "nc_queue nc" now]
  by (simp add: cleanup_def nc_inv_def nc_log_def)

lemma evict_loop_log:
  assumes inv: "nc_inv nc"
  obtains e where "evict_loop (nc_cache nc) (nc_queue nc) = Some e" and "nc_inv e"
    and "length (nc_cache e) < MaxNonceCacheSize"
    and "nc_log e = (if MaxNonceCacheSize \<le> length (nc_log nc) then tl (nc_log nc) else nc_log nc)"
proof (cases "MaxNonceCacheSize \<le> length (nc_cache nc)")
  case False
  with inv that [of nc] show thesis
    by (simp add: evict_loop.simps [of "nc_cache nc"] length_nc_log)
next
  case True
  obtain c q where nc: "nc = \<lparr>nc_cache = c, nc_queue = q\<rparr>"
    by (cases nc)
  with True nc_inv_length [OF inv] obtain n q' where q: "q = n # q'"
    by (cases q) (simp_all add: MaxNonceCacheSize_def)
  from inv nc q have h: "nc_inv \<lparr>nc_cache = c, nc_queue = n # q'\<rparr>"
    by simp
  note drop = nc_inv_drop_head [OF h]
  obtain t where "mget c n = Some t"
    using h by (rule nc_inv_head)
  moreover have "length (mdel n c) < MaxNonceCacheSize"
    using drop(2) h by (auto simp: nc_inv_def MaxNonceCacheSize_def)
  ultimately show thesis
    using that [of "\<lparr>nc_cache = mdel n c, nc_queue = q'\<rparr>"] True inv nc q drop
    by (simp add: evict_loop.simps [of c] evict_loop.simps [of "mdel n c"] nc_log_head length_nc_log)
qed

lemma store_log:
  assumes "nc_inv nc" and "nonce \<notin> set (nc_queue nc)" and "length (nc_cache nc) < MaxNonceCacheSize"
  shows "nc_inv (nc\<lparr>nc_cache := mput nonce now (nc_cache nc), nc_queue := nc_queue nc @ [nonce]\<rparr>)"
    and "nc_log (nc\<lparr>nc_cache := mput nonce now (nc_cache nc), nc_queue := nc_queue nc @ [nonce]\<rparr>) =
      nc_log nc @ [(nonce, now)]"
  using assms by (auto simp: nc_inv_def nc_log_def length_mput)

lemma CheckAndStoreNonce_log:
  assumes "nc_inv nc"
  shows "\<exists>nc' r. CheckAndStoreNonce nonce now nc = Some (nc', r) \<and> nc_inv nc' \<and>
    log_store nonce now (nc_log nc) = (nc_log nc', r)"
proof (cases "mget (nc_cache nc) nonce = None")
  case False
  with assms show ?thesis
    by (simp add: CheckAndStoreNonce_def log_store_def nc_log_keys) (auto simp: nc_inv_def mkeys_mget)
next
  case True
  let ?c = "cleanup now nc"
  have c: "nc_inv ?c" "nc_log ?c = dropWhile (expired now) (nc_log nc)"
    using cleanup_log [OF assms] by simp_all
  from c(1) obtain e where e: "evict_loop (nc_cache ?c) (nc_queue ?c) = Some e" "nc_inv e"
    "length (nc_cache e) < MaxNonceCacheSize"
    "nc_log e = (if MaxNonceCacheSize \<le> length (nc_log ?c) then tl (nc_log ?c) else nc_log ?c)"
    by (rule evict_loop_log)
  have fresh: "nonce \<notin> set (nc_queue nc)"
    using True assms by (simp add: nc_inv_def mkeys_mget)
  have "set (tl l) \<subseteq> set l" for l :: "(string \<times> time) list"
    by (cases l) auto
  then have "set (nc_log e) \<subseteq> set (nc_log nc)"
    using e(4) c(2) by (fastforce dest: set_dropWhileD split: if_splits)
  then have "nonce \<notin> set (nc_queue e)"
    using fresh by (metis image_mono nc_log_keys subsetD)
  from store_log [OF e(2) this e(3), of now] True c e(1,4) fresh show ?thesis
    by (simp add: CheckAndStoreNonce_def log_store_def nc_log_keys Let_def)
qed

section \<open>The contract the authentication middleware relies on\<close>

locale replay_guard =
  fixes check :: "'n \<Rightarrow> time \<Rightarrow> 's \<Rightarrow> ('s \<times> 'e option) option"
    and seen :: "'s \<Rightarrow> 'n set"
    and inv :: "'s \<Rightarrow> bool"
  assumes check_total: "inv s \<Longrightarrow> \<exists>s' r. check n now s = Some (s', r) \<and> inv s'"
    and check_seen: "inv s \<Longrightarrow> n \<in> seen s \<Longrightarrow> \<exists>e. check n now s = Some (s, Some e)"
    and check_fresh: "inv s \<Longrightarrow> n \<notin> seen s \<Longrightarrow> check n now s = Some (s', r) \<Longrightarrow>
      r = None \<and> n \<in> seen s'"
begin

lemma accepted_iff: "inv s \<Longrightarrow> check n now s = Some (s', r) \<Longrightarrow> r = None \<longleftrightarrow> n \<notin> seen s"
  using check_seen [of s n now] check_fresh [of s n now s' r] by auto

lemma rejected_unchanged: "inv s \<Longrightarrow> check n now s = Some (s', Some e) \<Longrightarrow> s' = s"
  using check_seen [of s n now] check_fresh [of s n now s' "Some e"] by auto

lemma inv_check: "inv s \<Longrightarrow> check n now s = Some (s', r) \<Longrightarrow> inv s'"
  using check_total [of s n now] by auto

lemma immediate_replay:
  assumes "inv s" and "check n now s = Some (s', r)"
  shows "\<exists>e. check n now' s' = Some (s', Some e)"
proof -
  have "n \<in> seen s'"
    using assms check_fresh [of s n now s' r] check_seen [of s n now] by (cases "n \<in> seen s") auto
  moreover have "inv s'"
    using assms by (rule inv_check)
  ultimately show ?thesis
    by (intro check_seen)
qed

end

lemma log_store_facts:
  "n \<in> fst ` set l \<Longrightarrow> log_store n now l = (l, Some ErrReplayDetected)"
  "n \<notin> fst ` set l \<Longrightarrow> log_store n now l = (l', r) \<Longrightarrow> r = None \<and> n \<in> fst ` set l'"
  "log_store n now l = (l', None) \<Longrightarrow> \<exists>pre. l' = pre @ [(n, now)]"
  by (auto simp: log_store_def Let_def split: if_splits)

interpretation nonces: replay_guard CheckAndStoreNonce "\<lambda>nc. mkeys (nc_cache nc)" nc_inv
proof (unfold_locales, goal_cases)
  case (1 s n now)
  with CheckAndStoreNonce_log show ?case
    by blast
next
  case (2 s n now)
  then show ?case
    by (simp add: CheckAndStoreNonce_def mkeys_mget)
next
  case (3 s n now s' r)
  from CheckAndStoreNonce_log [OF 3(1), of n now] 3(3)
  have "nc_inv s'" "log_store n now (nc_log s) = (nc_log s', r)"
    by auto
  moreover from 3(1,2) have "n \<notin> fst ` set (nc_log s)"
    by (simp add: nc_log_keys nc_inv_def)
  ultimately show ?case
    using log_store_facts(2) [of n "nc_log s" now "nc_log s'" r]
    by (simp add: nc_log_keys nc_inv_def)
qed

section \<open>How long a nonce is remembered\<close>

text \<open>
  An unexpired entry keeps its place, and what is behind it grows by one with every accepted
  nonce; only when \<open>MaxNonceCacheSize\<close> entries stand behind it has it been evicted.
\<close>

lemma log_store_keeps:
  assumes "l = pre @ (n, t) # post" and "\<not> expired now (n, t)"
    and "log_store m now l = (l', r)"
    and "length post + (if r = None then 1 else 0) < MaxNonceCacheSize"
  shows "\<exists>pre' post'. l' = pre' @ (n, t) # post' \<and>
    length post' = length post + (if r = None then 1 else 0)"
proof (cases "m \<in> fst ` set l")
  case True
  with assms(1,3) show ?thesis
    by (auto simp: log_store_def)
next
  case False
  obtain pre1 where pre1: "dropWhile (expired now) l = pre1 @ (n, t) # post"
  proof (cases "list_all (expired now) pre")
    case True
    with assms(1,2) that [of "[]"] show thesis
      by (simp add: list_all_iff dropWhile_append2)
  next
    case False
    with assms(1) that [of "dropWhile (expired now) pre"] show thesis
      by (auto simp: list_all_iff dropWhile_append1)
  qed
  have r: "r = None" and l': "l' = (if MaxNonceCacheSize \<le> length (pre1 @ (n, t) # post)
      then tl (pre1 @ (n, t) # post) else pre1 @ (n, t) # post) @ [(m, now)]"
    using assms(3) False pre1 by (auto simp: log_store_def Let_def)
  show ?thesis
  proof (cases "MaxNonceCacheSize \<le> length (pre1 @ (n, t) # post)")
    case True
    with assms(4) r obtain e pre2 where "pre1 = e # pre2"
      by (cases pre1) auto
    with True l' r show ?thesis
      by (intro exI [of _ pre2] exI [of _ "post @ [(m, now)]"]) simp
  next
    case False
    with l' r show ?thesis
      by (intro exI [of _ pre1] exI [of _ "post @ [(m, now)]"]) simp
  qed
qed

lemma check_all_keeps:
  assumes "nc_inv nc" and "nc_log nc = pre @ (n, t) # post"
    and "check_all calls nc = Some (nc', rs)"
    and "\<forall>(m, now) \<in> set calls. \<not> expired now (n, t)"
    and "length post + length (filter (\<lambda>r. r = None) rs) < MaxNonceCacheSize"
  shows "nc_inv nc' \<and> n \<in> fst ` set (nc_log nc')"
  using assms
proof (induction calls arbitrary: nc pre post rs)
  case Nil
  then show ?case by auto
next
  case (Cons c calls)
  obtain m now where c: "c = (m, now)"
    by (cases c)
  from CheckAndStoreNonce_log [OF Cons.prems(1), of m now] obtain nc1 r where
    step: "CheckAndStoreNonce m now nc = Some (nc1, r)" "nc_inv nc1"
      "log_store m now (nc_log nc) = (nc_log nc1, r)"
    by blast
  from Cons.prems(3) step(1) c obtain rs1 where
    rest: "check_all calls nc1 = Some (nc', rs1)" "rs = r # rs1"
    by auto
  have "length post + (if r = None then 1 else 0) < MaxNonceCacheSize"
    using Cons.prems(5) rest(2) by (auto split: if_splits)
  with log_store_keeps [OF Cons.prems(2) _ step(3)] Cons.prems(4) c obtain pre' post' where
    log: "nc_log nc1 = pre' @ (n, t) # post'" "length post' = length post + (if r = None then 1 else 0)"
    by auto
  show ?case
    using Cons.prems(4,5) rest(2) log(2)
    by (intro Cons.IH [OF step(2) log(1) rest(1)]) (auto split: if_splits)
qed

lemma check_all_remembers:
  assumes "nc_inv nc" and "CheckAndStoreNonce nonce t nc = Some (nc1, None)"
    and "check_all calls nc1 = Some (nc2, rs)"
    and "\<forall>(m, now) \<in> set calls. time_Sub now t \<le> NonceCacheTTL"
    and "length (filter (\<lambda>r. r = None) rs) < MaxNonceCacheSize"
  shows "nonce \<in> mkeys (nc_cache nc2)"
proof -
  from CheckAndStoreNonce_log [OF assms(1), of nonce t] assms(2)
  have "nc_inv nc1" "log_store nonce t (nc_log nc) = (nc_log nc1, None)"
    by auto
  moreover from log_store_facts(3) [OF this(2)] obtain pre where "nc_log nc1 = pre @ (nonce, t) # []"
    by blast
  ultimately have "nc_inv nc2 \<and> nonce \<in> fst ` set (nc_log nc2)"
    using assms(3-5) by (intro check_all_keeps [of nc1 pre nonce t "[]" calls nc2 rs])
      (auto simp: expired_def not_less)
  then show ?thesis
    by (auto simp: nc_log_keys nc_inv_def)
qed

lemma CheckTimestampSkew_None:
  "CheckTimestampSkew now timestamp = None \<longleftrightarrow>
     \<bar>now - timestamp\<bar> \<le> MaxTimestampSkew \<or> 2 ^ 63 \<le> timestamp - now"
proof (cases "now - timestamp \<le> minDuration")
  case True
  then have "time_Sub now timestamp = minDuration"
    by (simp add: time_Sub_def minDuration_def maxDuration_def)
  with True show ?thesis
    by (auto simp: CheckTimestampSkew_def wrap64_neg_min)
      (simp_all add: minDuration_def MaxTimestampSkew_def Second_def)
next
  case False
  then show ?thesis
    by (auto simp: CheckTimestampSkew_def time_Sub_def wrap64_id Let_def minDuration_def
        maxDuration_def MaxTimestampSkew_def Second_def)
qed

section \<open>Properties\<close>

text \<open>
  C4.  The nonce cache refines a log of accepted nonces.  From every state that satisfies the
  invariant (queue and map agree, at most \<open>MaxNonceCacheSize\<close> entries), checking a nonce
  returns without panicking, keeps the invariant, and does exactly what the log does: reject a
  logged nonce without any change; otherwise drop the expired entries at the front, drop the
  oldest if the log is full, and append the nonce.
\<close>

theorem CheckAndStoreNonce_refines:
  assumes "nc_inv nc"
  shows "\<exists>nc' r. CheckAndStoreNonce nonce now nc = Some (nc', r) \<and> nc_inv nc' \<and>
    log_store nonce now (nc_log nc) = (nc_log nc', r)"
  using assms by (rule CheckAndStoreNonce_log)

theorem CheckAndStoreNonce_refines_witness:
  "\<exists>nc' r. CheckAndStoreNonce ''n1'' 7 NewNonceCache = Some (nc', r) \<and> nc_inv nc' \<and>
    log_store ''n1'' 7 (nc_log NewNonceCache) = (nc_log nc', r)"
  by (rule CheckAndStoreNonce_refines) (rule nc_inv_New)

text \<open>
  C5.  Replay protection: once a nonce is accepted, every further use of it is rejected for as
  long as the clock stays within \<open>NonceCacheTTL\<close> of the acceptance and fewer than
  \<open>MaxNonceCacheSize\<close> other nonces have been accepted in between, whatever calls come in between.
\<close>

theorem nonce_replay_rejected:
  assumes "nc_inv nc" and "CheckAndStoreNonce nonce t nc = Some (nc1, None)"
    and "check_all calls nc1 = Some (nc2, rs)"
    and "\<forall>(m, now) \<in> set calls. time_Sub now t \<le> NonceCacheTTL"
    and "length (filter (\<lambda>r. r = None) rs) < MaxNonceCacheSize"
  shows "CheckAndStoreNonce nonce now nc2 = Some (nc2, Some ErrReplayDetected)"
proof -
  have "mget (nc_cache nc2) nonce \<noteq> None"
    using check_all_remembers [OF assms] by (rule mkeys_mget [THEN iffD1])
  then show ?thesis
    by (simp add: CheckAndStoreNonce_def)
qed

theorem nonce_replay_rejected_witness:
  "\<exists>nc1 nc2. CheckAndStoreNonce ''a'' 0 NewNonceCache = Some (nc1, None) \<and>
     check_all [(''b'', 5)] nc1 = Some (nc2, [None]) \<and>
     CheckAndStoreNonce ''a'' 9 nc2 = Some (nc2, Some ErrReplayDetected)"
proof -
  let ?nc1 = "\<lparr>nc_cache = [(''a'', 0)], nc_queue = [''a'']\<rparr>"
  let ?nc2 = "\<lparr>nc_cache = [(''a'', 0), (''b'', 5)], nc_queue = [''a'', ''b'']\<rparr>"
  have 1: "CheckAndStoreNonce ''a'' 0 NewNonceCache = Some (?nc1, None)"
    by (simp add: CheckAndStoreNonce_def NewNonceCache_def cleanup_def evict_loop.simps
        MaxNonceCacheSize_def mput_def)
  have 2: "check_all [(''b'', 5)] ?nc1 = Some (?nc2, [None])"
    by (simp add: CheckAndStoreNonce_def cleanup_def evict_loop.simps MaxNonceCacheSize_def mput_def
        NonceCacheTTL_def Second_def time_Sub_def minDuration_def maxDuration_def)
  have "CheckAndStoreNonce ''a'' 9 ?nc2 = Some (?nc2, Some ErrReplayDetected)"
    by (rule nonce_replay_rejected [OF nc_inv_New 1 2])
      (simp_all add: MaxNonceCacheSize_def NonceCacheTTL_def Second_def time_Sub_def
        minDuration_def maxDuration_def)
  with 1 2 show ?thesis
    by blast
qed

text \<open>
  C6.  Exactly which timestamps pass the skew check: those within \<open>MaxTimestampSkew\<close> of the
  server clock, as documented, and also every timestamp at least \<open>2^63\<close> nanoseconds (about 292
  years) ahead, because the saturated difference \<open>minDuration\<close> is its own negation.
\<close>

theorem CheckTimestampSkew_accepts:
  "CheckTimestampSkew now timestamp = None \<longleftrightarrow>
     \<bar>now - timestamp\<bar> \<le> MaxTimestampSkew \<or> 2 ^ 63 \<le> timestamp - now"
  by (rule CheckTimestampSkew_None)

text \<open>
  A timestamp in milliseconds instead of seconds, a common client mistake, is such a timestamp.
\<close>

lemma millisecond_timestamp_accepted:
  "CheckTimestampSkew (time_Unix 1760000000) (ParseTimestamp 1760000000000) = None"
  by (simp add: CheckTimestampSkew_def ParseTimestamp_def time_Unix_def unixToInternal_def wrap64_id
      Second_def time_Sub_def minDuration_def maxDuration_def MaxTimestampSkew_def)
    (simp add: wrap64_def signed_take_bit_eq_take_bit_shift take_bit_eq_mod)

end
