(* ===== verification/Auth.thy ===== *)
theory Auth
  imports Sha256 Http Replay
begin

text \<open>
  Request authentication: \<open>internal/auth/auth.go\<close> (bearer token, canonical string, HMAC
  signature) and \<open>internal/middleware/auth.go\<close> (the middleware that applies them and the nonce
  cache of theory \<open>Replay\<close>).  The two readings of \<open>time.Now()\<close> during a request, by the skew
  check and by the nonce cache, are the arguments \<open>t1\<close> and \<open>t2\<close>.  Logging is left out.
\<close>

section \<open>auth.go\<close>

datatype auth_error = ErrInvalidToken | ErrInvalidSignature | ErrMissingAuthHeader | ErrMalformedAuthHeader

fun auth_error_text :: "auth_error \<Rightarrow> string" where
  "auth_error_text ErrInvalidToken = ''invalid bearer token''"
| "auth_error_text ErrInvalidSignature = ''invalid signature''"
| "auth_error_text ErrMissingAuthHeader = ''missing authorization header''"
| "auth_error_text ErrMalformedAuthHeader = ''malformed authorization header''"

definition ValidateBearerToken :: "string \<Rightarrow> string \<Rightarrow> auth_error option" where
  "ValidateBearerToken providedToken expectedToken =
     (if providedToken = '''' then Some ErrMissingAuthHeader
      else if bytes_of providedToken \<noteq> bytes_of expectedToken then Some ErrInvalidToken
      else None)"

definition ExtractBearerToken :: "string \<Rightarrow> auth_error + string" where
  "ExtractBearerToken authHeader =
     (if authHeader = '''' then Inl ErrMissingAuthHeader
      else case SplitN2 authHeader (CHR '' '') of
             [scheme, rest] \<Rightarrow>
               if scheme \<noteq> ''Bearer'' then Inl ErrMalformedAuthHeader
               else let token = TrimSpace rest
                    in if token = '''' then Inl ErrInvalidToken else Inr token
           | _ \<Rightarrow> Inl ErrMalformedAuthHeader)"

definition BuildCanonicalString :: "string \<Rightarrow> string \<Rightarrow> string \<Rightarrow> string \<Rightarrow> string \<Rightarrow> string" where
  "BuildCanonicalString nonce timestamp method path bodyHash =
     nonce @ CHR 0x0A # timestamp @ CHR 0x0A # method @ CHR 0x0A # path @ CHR 0x0A # bodyHash"

definition ComputeBodyHash :: "string \<Rightarrow> string" where
  "ComputeBodyHash body = (if body = [] then '''' else hex_EncodeToString (sha256 (bytes_of body)))"

definition VerifySignature :: "string \<Rightarrow> string \<Rightarrow> string \<Rightarrow> auth_error option" where
  "VerifySignature canonicalString signature secret =
     (if canonicalString = '''' \<or> signature = '''' \<or> secret = '''' then Some ErrInvalidSignature
      else let expectedSig = hex_EncodeToString (hmac_sha256 (bytes_of secret) (bytes_of canonicalString))
           in if bytes_of signature \<noteq> bytes_of expectedSig then Some ErrInvalidSignature else None)"

definition SignRequest :: "string \<Rightarrow> string \<Rightarrow> string" where
  "SignRequest canonicalString secret =
     hex_EncodeToString (hmac_sha256 (bytes_of secret) (bytes_of canonicalString))"

section \<open>middleware/auth.go\<close>

definition HeaderAuthorization :: string where "HeaderAuthorization = ''Authorization''"
definition HeaderXSignature :: string where "HeaderXSignature = ''X-Signature''"
definition HeaderXTimestamp :: string where "HeaderXTimestamp = ''X-Timestamp''"
definition HeaderXNonce :: string where "HeaderXNonce = ''X-Nonce''"

definition maxAuthBodySize :: nat where
  "maxAuthBodySize = 10 * 2 ^ 20"

datatype ErrorCode = CodeUnauthorized | CodeReplayDetected | CodeIdempotencyConflict

fun code_text :: "ErrorCode \<Rightarrow> string" where
  "code_text CodeUnauthorized = ''UNAUTHORIZED''"
| "code_text CodeReplayDetected = ''REPLAY_DETECTED''"
| "code_text CodeIdempotencyConflict = ''IDEMPOTENCY_CONFLICT''"

definition ErrorResponse :: "ErrorCode \<Rightarrow> string \<Rightarrow> jv" where
  "ErrorResponse code message =
     JObj [(''success'', JBool False),
           (''error'', JObj [(''code'', JStr (code_text code)), (''message'', JStr message)])]"

text \<open>The \<open>Err\<close> field of an \<open>AuthError\<close>, \<open>nil\<close> when the body is too large.\<close>

datatype cause = CAuth auth_error | CMissing string | CParse num_error | CRead | CReplay replay_error | CNil

record AuthError =
  ae_Code :: ErrorCode
  ae_Message :: string
  ae_Err :: cause

record AuthConfig =
  cfg_Token :: string
  cfg_Secret :: string

fun replay_error_text :: "replay_error \<Rightarrow> string" where
  "replay_error_text ErrTimestampSkew = ''timestamp skew exceeded''"
| "replay_error_text ErrReplayDetected = ''replay attack detected''"

definition unauthorized :: "string \<Rightarrow> cause \<Rightarrow> AuthError" where
  "unauthorized message err = \<lparr>ae_Code = CodeUnauthorized, ae_Message = message, ae_Err = err\<rparr>"

text \<open>
  Everything up to the nonce check, which is the last step and the only one that changes the
  nonce cache; the result is the request with its body restored.
\<close>

definition verifyRequest :: "AuthConfig \<Rightarrow> time \<Rightarrow> request \<Rightarrow> AuthError + request" where
  "verifyRequest config t1 r =
     (case ExtractBearerToken (Header_Get (r_header r) HeaderAuthorization) of
        Inl err \<Rightarrow> Inl (unauthorized (''Invalid authorization header: '' @ auth_error_text err) (CAuth err))
      | Inr token \<Rightarrow>
     (case ValidateBearerToken token (cfg_Token config) of
        Some err \<Rightarrow> Inl (unauthorized ''Invalid bearer token'' (CAuth err))
      | None \<Rightarrow>
      let signature = Header_Get (r_header r) HeaderXSignature;
          timestampStr = Header_Get (r_header r) HeaderXTimestamp;
          nonce = Header_Get (r_header r) HeaderXNonce
      in
      if signature = '''' then Inl (unauthorized ''Missing X-Signature header'' (CMissing ''missing signature header''))
      else if timestampStr = '''' then Inl (unauthorized ''Missing X-Timestamp header'' (CMissing ''missing timestamp header''))
      else if nonce = '''' then Inl (unauthorized ''Missing X-Nonce header'' (CMissing ''missing nonce header''))
      else
     (case ParseInt timestampStr of
        Inl err \<Rightarrow> Inl (unauthorized ''Invalid X-Timestamp format'' (CParse err))
      | Inr timestamp \<Rightarrow>
     (case CheckTimestampSkew t1 (ParseTimestamp timestamp) of
        Some err \<Rightarrow> Inl (unauthorized (''Timestamp skew exceeded: '' @ replay_error_text err) (CReplay err))
      | None \<Rightarrow>
     (case ReadAll_limited (maxAuthBodySize + 1) (r_body r) of
        None \<Rightarrow> Inl (unauthorized ''Failed to read request body'' CRead)
      | Some body \<Rightarrow>
      if maxAuthBodySize < length body then Inl (unauthorized ''Request body too large'' CNil)
      else
      let bodyHash = ComputeBodyHash body;
          canonicalString = BuildCanonicalString nonce timestampStr (r_method r) (r_path r) bodyHash
      in case VerifySignature canonicalString signature (cfg_Secret config) of
           Some err \<Rightarrow> Inl (unauthorized ''Invalid signature'' (CAuth err))
         | None \<Rightarrow> Inr (r\<lparr>r_body := NewReader body\<rparr>))))))"

definition authenticateRequest ::
  "AuthConfig \<Rightarrow> time \<Rightarrow> time \<Rightarrow> request \<Rightarrow> NonceCache \<Rightarrow> (NonceCache \<times> (AuthError + request)) option" where
  "authenticateRequest config t1 t2 r nc =
     (case verifyRequest config t1 r of
        Inl err \<Rightarrow> Some (nc, Inl err)
      | Inr r' \<Rightarrow>
     (case CheckAndStoreNonce (Header_Get (r_header r) HeaderXNonce) t2 nc of
        None \<Rightarrow> None
      | Some (nc, Some err) \<Rightarrow>
          Some (nc, Inl \<lparr>ae_Code = CodeReplayDetected,
            ae_Message = ''Replay attack detected: '' @ replay_error_text err, ae_Err = CReplay err\<rparr>)
      | Some (nc, None) \<Rightarrow> Some (nc, Inr r')))"

text \<open>An \<open>error\<close> value: one that \<open>errors.As\<close> finds to be an \<open>AuthError\<close>, or another one.\<close>

datatype err_value = AsAuthError AuthError | OtherError string

definition sendErrorResponse :: "err_value \<Rightarrow> wop list" where
  "sendErrorResponse err =
     (let authErr = (case err of AsAuthError ae \<Rightarrow> ae
                               | OtherError _ \<Rightarrow> unauthorized ''Authentication failed'' CNil)
      in json_reply 401 (ErrorResponse (ae_Code authErr) (ae_Message authErr)))"

definition IsUnauthorized :: "err_value \<Rightarrow> bool" where
  "IsUnauthorized err = (case err of AsAuthError _ \<Rightarrow> True | OtherError _ \<Rightarrow> False)"

definition GetErrorCode :: "err_value \<Rightarrow> ErrorCode" where
  "GetErrorCode err = (case err of AsAuthError ae \<Rightarrow> ae_Code ae | OtherError _ \<Rightarrow> CodeUnauthorized)"

definition AuthMiddleware ::
  "AuthConfig \<Rightarrow> 's handler \<Rightarrow> time \<Rightarrow> time \<Rightarrow> request \<Rightarrow> NonceCache \<times> 's
     \<Rightarrow> (wop list \<times> NonceCache \<times> 's) option" where
  "AuthMiddleware config nexth t1 t2 r st =
     (case authenticateRequest config t1 t2 r (fst st) of
        None \<Rightarrow> None
      | Some (nc, Inl authErr) \<Rightarrow> Some (sendErrorResponse (AsAuthError authErr), nc, snd st)
      | Some (nc, Inr r') \<Rightarrow> (case nexth r' (snd st) of (ops, s') \<Rightarrow> Some (ops, nc, s')))"

text \<open>A sequence of requests, with the two clock readings of each.\<close>

fun auth_all ::
  "AuthConfig \<Rightarrow> (time \<times> time \<times> request) list \<Rightarrow> NonceCache
     \<Rightarrow> (NonceCache \<times> (AuthError + request) list) option" where
  "auth_all config [] nc = Some (nc, [])"
| "auth_all config ((t1, t2, r) # rs) nc =
     (case authenticateRequest config t1 t2 r nc of
        None \<Rightarrow> None
      | Some (nc, a) \<Rightarrow> map_option (\<lambda>(nc, as). (nc, a # as)) (auth_all config rs nc))"

section \<open>What a request has to carry\<close>

definition nonce_of :: "request \<Rightarrow> string" where
  "nonce_of r = Header_Get (r_header r) HeaderXNonce"

definition timestamp_of :: "request \<Rightarrow> string" where
  "timestamp_of r = Header_Get (r_header r) HeaderXTimestamp"

definition canonical_of :: "request \<Rightarrow> string" where
  "canonical_of r = BuildCanonicalString (nonce_of r) (timestamp_of r) (r_method r) (r_path r)
     (ComputeBodyHash (body_data (r_body r)))"

text \<open>The specification of the middleware, as one condition without an order of checks.\<close>

definition authentic :: "AuthConfig \<Rightarrow> time \<Rightarrow> request \<Rightarrow> bool" where
  "authentic config t1 r \<longleftrightarrow>
     ExtractBearerToken (Header_Get (r_header r) HeaderAuthorization) = Inr (cfg_Token config) \<and>
     nonce_of r \<noteq> '''' \<and>
     (\<exists>ts. ParseInt (timestamp_of r) = Inr ts \<and> CheckTimestampSkew t1 (ParseTimestamp ts) = None) \<and>
     \<not> body_fails (r_body r) \<and> length (body_data (r_body r)) \<le> maxAuthBodySize \<and>
     cfg_Secret config \<noteq> '''' \<and>
     Header_Get (r_header r) HeaderXSignature = SignRequest (canonical_of r) (cfg_Secret config)"

lemma inj_bytes_of [simp]: "bytes_of s = bytes_of t \<longleftrightarrow> s = t"
  by (metis string_of_bytes_of)

lemma ValidateBearerToken_None:
  "ValidateBearerToken p e = None \<longleftrightarrow> p \<noteq> '''' \<and> p = e"
  by (auto simp: ValidateBearerToken_def)

lemma ExtractBearerToken_nonempty: "ExtractBearerToken h = Inr token \<Longrightarrow> token \<noteq> ''''"
  by (auto simp: ExtractBearerToken_def Let_def split: if_splits list.splits)

lemma SignRequest_nonempty [simp]: "SignRequest c s \<noteq> ''''"
proof -
  have "length (SignRequest c s) = 64"
    by (simp add: SignRequest_def)
  then show ?thesis
    by auto
qed

lemma BuildCanonicalString_nonempty [simp]: "BuildCanonicalString n t m p h \<noteq> ''''"
  by (simp add: BuildCanonicalString_def)

lemma VerifySignature_None:
  "VerifySignature c sig secret = None \<longleftrightarrow> c \<noteq> '''' \<and> secret \<noteq> '''' \<and> sig = SignRequest c secret"
  using SignRequest_nonempty [of c secret]
  by (auto simp: VerifySignature_def SignRequest_def Let_def)

lemma ReadAll_limited_ok:
  "(\<exists>b. ReadAll_limited (n + 1) body = Some b \<and> \<not> n < length b \<and> P b) \<longleftrightarrow>
     \<not> body_fails body \<and> length (body_data body) \<le> n \<and> P (body_data body)"
  by (auto simp: ReadAll_limited_def ReadAll_def)

text \<open>The checks up to the nonce, one after the other, decide exactly the specification.\<close>

lemma verifyRequest_Inr:
  "verifyRequest config t1 r = Inr r' \<longleftrightarrow>
     authentic config t1 r \<and> r' = r\<lparr>r_body := NewReader (body_data (r_body r))\<rparr>"
proof -
  let ?nonce = "nonce_of r" and ?ts = "timestamp_of r"
  let ?sig = "Header_Get (r_header r) HeaderXSignature"
  let ?ok = "\<lambda>body. VerifySignature (BuildCanonicalString ?nonce ?ts (r_method r) (r_path r)
      (ComputeBodyHash body)) ?sig (cfg_Secret config) = None \<and> r' = r\<lparr>r_body := NewReader body\<rparr>"
  have "verifyRequest config t1 r = Inr r' \<longleftrightarrow>
    (\<exists>token. ExtractBearerToken (Header_Get (r_header r) HeaderAuthorization) = Inr token \<and>
      ValidateBearerToken token (cfg_Token config) = None) \<and>
    ?sig \<noteq> '''' \<and> ?ts \<noteq> '''' \<and> ?nonce \<noteq> '''' \<and>
    (\<exists>ts. ParseInt ?ts = Inr ts \<and> CheckTimestampSkew t1 (ParseTimestamp ts) = None) \<and>
    (\<exists>body. ReadAll_limited (maxAuthBodySize + 1) (r_body r) = Some body \<and>
      \<not> maxAuthBodySize < length body \<and> ?ok body)"
    by (auto simp: verifyRequest_def Let_def nonce_of_def timestamp_of_def
        split: sum.splits option.splits if_splits)
  moreover have "ParseInt '''' = Inl ErrSyntax"
    by (simp add: ParseInt_def)
  ultimately show ?thesis
    using ExtractBearerToken_nonempty
    unfolding ReadAll_limited_ok authentic_def VerifySignature_None ValidateBearerToken_None canonical_of_def
    by (metis BuildCanonicalString_nonempty Inl_Inr_False SignRequest_nonempty)
qed

lemma authenticateRequest_cases:
  assumes "nc_inv nc"
  obtains
    (unauthorized) err where "\<not> authentic config t1 r" and "ae_Code err = CodeUnauthorized"
      and "authenticateRequest config t1 t2 r nc = Some (nc, Inl err)"
  | (replayed) err where "authentic config t1 r" and "nonce_of r \<in> mkeys (nc_cache nc)"
      and "ae_Code err = CodeReplayDetected"
      and "authenticateRequest config t1 t2 r nc = Some (nc, Inl err)"
      and "\<exists>e. CheckAndStoreNonce (nonce_of r) t2 nc = Some (nc, Some e)"
  | (accepted) nc' where "authentic config t1 r" and "nonce_of r \<notin> mkeys (nc_cache nc)"
      and "CheckAndStoreNonce (nonce_of r) t2 nc = Some (nc', None)"
      and "authenticateRequest config t1 t2 r nc =
        Some (nc', Inr (r\<lparr>r_body := NewReader (body_data (r_body r))\<rparr>))"
proof (cases "verifyRequest config t1 r")
  case (Inl err)
  then have "ae_Code err = CodeUnauthorized"
    by (auto simp: verifyRequest_def Let_def unauthorized_def split: sum.splits option.splits if_splits)
  moreover have "\<not> authentic config t1 r"
    using Inl verifyRequest_Inr [of config t1 r] by auto
  ultimately show thesis
    using Inl by (intro that(1)) (simp_all add: authenticateRequest_def)
next
  case (Inr r')
  then have ok: "authentic config t1 r" "r' = r\<lparr>r_body := NewReader (body_data (r_body r))\<rparr>"
    by (simp_all add: verifyRequest_Inr)
  obtain nc' res where res: "CheckAndStoreNonce (nonce_of r) t2 nc = Some (nc', res)"
    using nonces.check_total [OF assms] by blast
  show thesis
  proof (cases res)
    case None
    with res Inr ok nonces.accepted_iff [OF assms res] show thesis
      by (intro that(3)) (simp_all add: authenticateRequest_def nonce_of_def)
  next
    case (Some e)
    with nonces.rejected_unchanged [OF assms] res have "nc' = nc"
      by blast
    with Some res Inr ok nonces.accepted_iff [OF assms res] show thesis
      by (intro that(2)) (simp_all add: authenticateRequest_def nonce_of_def)
  qed
qed

lemma authenticateRequest_total:
  assumes "nc_inv nc"
  shows "\<exists>nc' a. authenticateRequest config t1 t2 r nc = Some (nc', a) \<and> nc_inv nc'"
  by (rule authenticateRequest_cases [OF assms, of config t1 r t2])
    (use assms in \<open>auto dest: nonces.inv_check\<close>)

section \<open>Sequences of requests\<close>

text \<open>
  What a sequence of requests does to the nonce cache is what the nonce checks of its authentic
  requests do, and the requests it accepts are the nonces those accept.
\<close>

definition nonce_calls :: "AuthConfig \<Rightarrow> (time \<times> time \<times> request) list \<Rightarrow> (string \<times> time) list" where
  "nonce_calls config rs =
     map (\<lambda>(t1, t2, r). (nonce_of r, t2)) (filter (\<lambda>(t1, t2, r). authentic config t1 r) rs)"

definition accepted :: "'e + 'a \<Rightarrow> bool" where
  "accepted x = (case x of Inl _ \<Rightarrow> False | Inr _ \<Rightarrow> True)"

lemma accepted_simps [simp]: "\<not> accepted (Inl e)" "accepted (Inr x)"
  by (simp_all add: accepted_def)

lemma auth_all_checks:
  assumes "nc_inv nc" and "auth_all config rs nc = Some (nc', as)"
  shows "nc_inv nc' \<and> (\<exists>outs. check_all (nonce_calls config rs) nc = Some (nc', outs) \<and>
    length (filter (\<lambda>x. x = None) outs) = length (filter accepted as))"
  using assms
proof (induction rs arbitrary: nc as)
  case Nil
  then show ?case by (simp add: nonce_calls_def)
next
  case (Cons x rs)
  obtain t1 t2 r where x: "x = (t1, t2, r)"
    by (cases x)
  show ?case
  proof (cases rule: authenticateRequest_cases [OF Cons.prems(1), where config = config and ?t1.0 = t1 and r = r and ?t2.0 = t2,
        case_names unauth replayed acc])
    case (unauth err)
    with Cons.prems x obtain as1 where "auth_all config rs nc = Some (nc', as1)" "as = Inl err # as1"
      by auto
    with Cons.IH [OF Cons.prems(1)] unauth(1) x show ?thesis
      by (auto simp: nonce_calls_def)
  next
    case (replayed err)
    with Cons.prems x obtain as1 where "auth_all config rs nc = Some (nc', as1)" "as = Inl err # as1"
      by auto
    moreover from this(1) Cons.IH [OF Cons.prems(1)] obtain outs where "nc_inv nc'"
      "check_all (nonce_calls config rs) nc = Some (nc', outs)"
      "length (filter (\<lambda>x. x = None) outs) = length (filter accepted as1)"
      by blast
    moreover from replayed(5) obtain e where "CheckAndStoreNonce (nonce_of r) t2 nc = Some (nc, Some e)"
      by blast
    ultimately show ?thesis
      using replayed(1) x by (simp add: nonce_calls_def)
  next
    case (acc nc1)
    with Cons.prems x obtain as1 a where "auth_all config rs nc1 = Some (nc', as1)" "as = Inr a # as1"
      by auto
    moreover have "nc_inv nc1"
      using Cons.prems(1) acc(3) by (rule nonces.inv_check)
    moreover from calculation(1,3) Cons.IH [of nc1 as1] obtain outs where "nc_inv nc'"
      "check_all (nonce_calls config rs) nc1 = Some (nc', outs)"
      "length (filter (\<lambda>x. x = None) outs) = length (filter accepted as1)"
      by blast
    ultimately show ?thesis
      using acc(1,3) x by (simp add: nonce_calls_def)
  qed
qed

text \<open>
  A timestamp that was current at \<open>t1\<close> is no longer accepted once a nonce stored after \<open>t1\<close>
  could have expired.
\<close>

lemma stale_after_TTL:
  assumes "\<bar>t1 - ts\<bar> \<le> MaxTimestampSkew" and "t1 + NonceCacheTTL \<le> t1'"
  shows "CheckTimestampSkew t1' ts \<noteq> None"
proof -
  have "CheckTimestampSkew t1' ts = None \<longleftrightarrow> \<bar>t1' - ts\<bar> \<le> MaxTimestampSkew \<or> 2 ^ 63 \<le> ts - t1'"
    by (rule CheckTimestampSkew_None)
  with assms show ?thesis
    by (auto simp: MaxTimestampSkew_def NonceCacheTTL_def Second_def abs_le_iff)
qed

lemma time_Sub_le: "0 \<le> d \<Longrightarrow> t - u \<le> d \<Longrightarrow> time_Sub t u \<le> d"
  by (simp add: time_Sub_def minDuration_def)

section \<open>Signed requests\<close>

text \<open>The request a client sends that signs with \<open>SignRequest\<close>.\<close>

definition signed_request ::
  "AuthConfig \<Rightarrow> string \<Rightarrow> int \<Rightarrow> string \<Rightarrow> string \<Rightarrow> string \<Rightarrow> request" where
  "signed_request config nonce ts method path body =
     \<lparr>r_method = method, r_path = path,
      r_header =
        [(''Authorization'', [''Bearer '' @ cfg_Token config]),
         (''X-Signature'', [SignRequest (BuildCanonicalString nonce (Itoa ts) method path
            (ComputeBodyHash body)) (cfg_Secret config)]),
         (''X-Timestamp'', [Itoa ts]),
         (''X-Nonce'', [nonce])],
      r_body = NewReader body\<rparr>"

lemma canonical_headers:
  "CanonicalHeaderKey HeaderAuthorization = ''Authorization''"
  "CanonicalHeaderKey HeaderXSignature = ''X-Signature''"
  "CanonicalHeaderKey HeaderXTimestamp = ''X-Timestamp''"
  "CanonicalHeaderKey HeaderXNonce = ''X-Nonce''"
  by (simp_all add: CanonicalHeaderKey_def HeaderAuthorization_def HeaderXSignature_def
      HeaderXTimestamp_def HeaderXNonce_def valid_header_byte_def header_marks_def lower_char_def
      upper_char_def Let_def)

lemma signed_request_fields [simp]:
  "nonce_of (signed_request config nonce ts m p b) = nonce"
  "timestamp_of (signed_request config nonce ts m p b) = Itoa ts"
  by (simp_all add: nonce_of_def timestamp_of_def signed_request_def Header_Get_def canonical_headers)

lemma ExtractBearerToken_Bearer:
  assumes "token \<noteq> ''''" and "TrimSpace token = token"
  shows "ExtractBearerToken (''Bearer '' @ token) = Inr token"
proof -
  have "SplitN2 (''Bearer'' @ CHR '' '' # token) (CHR '' '') = [''Bearer'', token]"
    by (rule SplitN2_append) simp
  with assms show ?thesis
    by (simp add: ExtractBearerToken_def)
qed

lemma signed_request_authentic:
  assumes "cfg_Token config \<noteq> ''''" and "TrimSpace (cfg_Token config) = cfg_Token config"
    and "cfg_Secret config \<noteq> ''''" and "nonce \<noteq> ''''" and "length b \<le> maxAuthBodySize"
    and "- (2 ^ 63) \<le> ts" "ts < 2 ^ 63" and "\<bar>t1 - ParseTimestamp ts\<bar> \<le> MaxTimestampSkew"
  shows "authentic config t1 (signed_request config nonce ts m p b)"
  using assms ExtractBearerToken_Bearer [of "cfg_Token config"] ParseInt_Itoa [of ts]
    CheckTimestampSkew_None [of t1 "ParseTimestamp ts"]
  by (simp add: authentic_def canonical_of_def)
    (simp add: signed_request_def Header_Get_def canonical_headers NewReader_def)

text \<open>A small instance for the witnesses: the clock and the timestamp are both 1000 seconds.\<close>

abbreviation demo_config :: AuthConfig where
  "demo_config \<equiv> \<lparr>cfg_Token = ''t'', cfg_Secret = ''s''\<rparr>"

abbreviation demo_request :: "string \<Rightarrow> request" where
  "demo_request nonce \<equiv> signed_request demo_config nonce 1000 ''GET'' ''/inbounds'' ''''"

lemma demo_time: "ParseTimestamp 1000 = time_Unix 1000"
  by (simp add: ParseTimestamp_def)

lemma demo_authentic: "nonce \<noteq> '''' \<Longrightarrow> authentic demo_config (time_Unix 1000) (demo_request nonce)"
proof (rule signed_request_authentic)
  show "TrimSpace (cfg_Token demo_config) = cfg_Token demo_config"
    by (simp add: TrimSpace_def strip_left.simps strip_one_def utf8_spaces_def upt_rec char_of_def)
qed (simp_all add: MaxTimestampSkew_def Second_def ParseTimestamp_def)

section \<open>Properties\<close>

text \<open>
  C7.  The middleware's verdict.  From a nonce cache that satisfies its invariant the checks
  return without panicking; the request is accepted exactly when it meets the specification
  \<open>authentic\<close> (right bearer token, all headers, a timestamp within the skew, a body of at most
  ten MiB, the HMAC of its canonical string) and its nonce is not in the cache; it is then handed
  on with its body restored and its nonce stored.  A rejected request, whatever it was rejected
  for, leaves the cache as it was, and the code is \<open>REPLAY_DETECTED\<close> exactly for an authentic
  request whose nonce is cached.
\<close>

theorem authenticateRequest_correct:
  assumes "nc_inv nc"
  shows "\<exists>nc' a. authenticateRequest config t1 t2 r nc = Some (nc', a) \<and> nc_inv nc' \<and>
    (accepted a \<longleftrightarrow> authentic config t1 r \<and> nonce_of r \<notin> mkeys (nc_cache nc)) \<and>
    (case a of
       Inr r' \<Rightarrow> r' = r\<lparr>r_body := NewReader (body_data (r_body r))\<rparr> \<and> nonce_of r \<in> mkeys (nc_cache nc')
     | Inl err \<Rightarrow> nc' = nc \<and>
         (ae_Code err = CodeReplayDetected \<longleftrightarrow>
            authentic config t1 r \<and> nonce_of r \<in> mkeys (nc_cache nc)))"
proof (cases rule: authenticateRequest_cases [OF assms, where config = config and ?t1.0 = t1 and r = r and ?t2.0 = t2,
    case_names unauth replayed acc])
  case (unauth err)
  with assms show ?thesis
    by (auto simp:)
next
  case (replayed err)
  with assms show ?thesis
    by (auto simp:)
next
  case (acc nc')
  with nonces.check_fresh [OF assms acc(2,3)] nonces.inv_check [OF assms acc(3)] show ?thesis
    by (auto simp:)
qed

theorem authenticateRequest_correct_witness:
  "\<exists>nc' a. authenticateRequest \<lparr>cfg_Token = ''t'', cfg_Secret = ''s''\<rparr> 5 6
      \<lparr>r_method = ''GET'', r_path = ''/inbounds'', r_header = [], r_body = NewReader ''''\<rparr> NewNonceCache
      = Some (nc', a) \<and> nc_inv nc' \<and> \<not> accepted a"
  using authenticateRequest_correct [OF nc_inv_New, of "\<lparr>cfg_Token = ''t'', cfg_Secret = ''s''\<rparr>" 5 6
      "\<lparr>r_method = ''GET'', r_path = ''/inbounds'', r_header = [], r_body = NewReader ''''\<rparr>"]
  by (auto simp: authentic_def Header_Get_def ExtractBearerToken_def)

lemma append_newline_inj:
  assumes "CHR 0x0A \<notin> set a" and "CHR 0x0A \<notin> set b"
  shows "a @ CHR 0x0A # x = b @ CHR 0x0A # y \<longleftrightarrow> a = b \<and> x = y"
  by (metis SplitN2_append assms list.inject)

lemma ComputeBodyHash_no_newline: "CHR 0x0A \<notin> set (ComputeBodyHash b)"
  by (simp add: ComputeBodyHash_def hex_no_newline)

lemma append_newline_inj_last:
  assumes "CHR 0x0A \<notin> set a" and "CHR 0x0A \<notin> set b" and "x @ CHR 0x0A # a = y @ CHR 0x0A # b"
  shows "x = y \<and> a = b"
proof -
  have "rev a @ CHR 0x0A # rev x = rev b @ CHR 0x0A # rev y"
    using arg_cong [OF assms(3), of rev] by simp
  with assms(1,2) show ?thesis
    by (simp add: append_newline_inj)
qed

text \<open>
  C8.  A signature binds the whole request: if two authentic requests have the same canonical
  string, they agree in nonce, timestamp, method, path and body hash, for any
  path, even one with line breaks in it (a decoded \<open>%0A\<close>).  Only nonce and method are assumed to
  be free of line breaks, which HTTP guarantees for header values and methods; for the
  timestamp and the hash it follows from the code.
\<close>

theorem canonical_string_binds_request:
  assumes "authentic config t r" and "authentic config' t' r'"
    and "canonical_of r = canonical_of r'"
    and "CHR 0x0A \<notin> set (nonce_of r) \<union> set (nonce_of r') \<union> set (r_method r) \<union> set (r_method r')"
  shows "nonce_of r = nonce_of r' \<and> timestamp_of r = timestamp_of r' \<and> r_method r = r_method r' \<and>
    r_path r = r_path r' \<and>
    ComputeBodyHash (body_data (r_body r)) = ComputeBodyHash (body_data (r_body r'))"
proof -
  have "CHR 0x0A \<notin> set (timestamp_of r)" "CHR 0x0A \<notin> set (timestamp_of r')"
    using assms(1,2) by (auto simp: authentic_def dest: ParseInt_no_newline)
  with assms(3,4) have 1: "nonce_of r = nonce_of r'" "timestamp_of r = timestamp_of r'"
    "r_method r = r_method r'"
    and 2: "r_path r @ CHR 0x0A # ComputeBodyHash (body_data (r_body r)) =
      r_path r' @ CHR 0x0A # ComputeBodyHash (body_data (r_body r'))"
    by (simp_all add: canonical_of_def BuildCanonicalString_def append_newline_inj)
  from append_newline_inj_last [OF _ _ 2] 1 show ?thesis
    by (simp add: ComputeBodyHash_no_newline)
qed

text \<open>A second request that differs in a header that is not signed.\<close>

definition keyed_request :: request where
  "keyed_request = (demo_request ''n'')\<lparr>r_header := r_header (demo_request ''n'') @ [(''Idempotency-Key'', [''k''])]\<rparr>"

lemma keyed_request_parts:
  "nonce_of keyed_request = ''n''" "timestamp_of keyed_request = timestamp_of (demo_request ''n'')"
  "canonical_of keyed_request = canonical_of (demo_request ''n'')"
  by (simp_all add: keyed_request_def nonce_of_def timestamp_of_def canonical_of_def signed_request_def Header_Get_def
      canonical_headers)

lemma keyed_authentic: "authentic demo_config (time_Unix 1000) keyed_request"
  using demo_authentic [of "''n''"]
  by (simp add: authentic_def keyed_request_parts)
    (simp add: keyed_request_def signed_request_def Header_Get_def canonical_headers)

lemma demo_token: "TrimSpace (cfg_Token demo_config) = cfg_Token demo_config"
  by (simp add: TrimSpace_def strip_left.simps strip_one_def utf8_spaces_def upt_rec char_of_def)

theorem canonical_string_binds_request_witness:
  "authentic demo_config (time_Unix 1000) (demo_request ''n'') \<and> authentic demo_config (time_Unix 1000) keyed_request \<and>
   demo_request ''n'' \<noteq> keyed_request \<and> canonical_of (demo_request ''n'') = canonical_of keyed_request \<and>
   ComputeBodyHash (body_data (r_body (demo_request ''n''))) = ComputeBodyHash (body_data (r_body keyed_request)) \<and>
   canonical_of (demo_request ''n'') \<noteq> canonical_of (signed_request demo_config ''n'' 1000 ''GET'' ''/users'' '''')"
proof -
  let ?other = "signed_request demo_config ''n'' 1000 ''GET'' ''/users'' ''''"
  have other: "authentic demo_config (time_Unix 1000) ?other"
    by (rule signed_request_authentic [OF _ demo_token])
      (simp_all add: MaxTimestampSkew_def Second_def ParseTimestamp_def)
  have parts: "r_method ?other = ''GET''" "r_path ?other = ''/users''" "r_method (demo_request ''n'') = ''GET''"
    "r_path (demo_request ''n'') = ''/inbounds''" "r_method keyed_request = ''GET''" "r_header keyed_request \<noteq> r_header (demo_request ''n'')"
    by (simp_all add: signed_request_def keyed_request_def)
  have "canonical_of (demo_request ''n'') \<noteq> canonical_of ?other"
    using canonical_string_binds_request [OF demo_authentic [of "''n''"] other] parts by auto
  moreover have "ComputeBodyHash (body_data (r_body (demo_request ''n''))) = ComputeBodyHash (body_data (r_body keyed_request))"
    using canonical_string_binds_request [OF demo_authentic [of "''n''"] keyed_authentic] parts keyed_request_parts by auto
  moreover have "demo_request ''n'' \<noteq> keyed_request"
    using parts(6) by metis
  moreover have "authentic demo_config (time_Unix 1000) (demo_request ''n'')"
    by (rule demo_authentic) simp
  ultimately show ?thesis
    by (intro conjI keyed_authentic keyed_request_parts(3) [symmetric])
qed

text \<open>
  C9.  Replay protection of the whole middleware.  A request with timestamp \<open>ts\<close> was accepted when the clock read \<open>t1\<close> at the skew
  check and \<open>t2\<close> at the nonce cache; clocks do not go back.  After any further requests, of which fewer than \<open>MaxNonceCacheSize\<close> were accepted, every
  request that carries the same nonce and timestamp is rejected when it comes up to \<open>NonceCacheTTL\<close> (24 h) after \<open>t2\<close>, because the nonce
  is still cached.  It is rejected at any later time too, because the timestamp is stale, unless the timestamp is \<open>2^63\<close> ns
  (292 years) or more ahead of \<open>t1\<close>: such timestamps pass the skew check by overflow (C6), also later.
\<close>

theorem replayed_request_rejected:
  assumes "nc_inv nc" and "authenticateRequest config t1 t2 r nc = Some (nc1, Inr r1)"
    and "ParseInt (timestamp_of r) = Inr ts" and "u1 \<le> t2 + NonceCacheTTL \<or> ParseTimestamp ts - t1 < 2 ^ 63"
    and "auth_all config rs nc1 = Some (nc2, as)" and "length (filter accepted as) < MaxNonceCacheSize"
    and "t1 \<le> t2" and "\<forall>(a, b, q) \<in> set rs. b \<le> u1"
    and "nonce_of r' = nonce_of r" and "timestamp_of r' = timestamp_of r"
  shows "\<exists>err. authenticateRequest config u1 u2 r' nc2 = Some (nc2, Inl err)"
proof -
  from assms(1,2) have stored: "CheckAndStoreNonce (nonce_of r) t2 nc = Some (nc1, None)"
    by (cases rule: authenticateRequest_cases [where config = config and ?t1.0 = t1 and r = r and ?t2.0 = t2])
      auto
  with assms(1) have "nc_inv nc1"
    by (rule nonces.inv_check)
  from auth_all_checks [OF this assms(5)] obtain outs where "nc_inv nc2" and
    calls: "check_all (nonce_calls config rs) nc1 = Some (nc2, outs)"
      "length (filter (\<lambda>x. x = None) outs) < MaxNonceCacheSize"
    using assms(6) by auto
  have "\<not> authentic config u1 r' \<or> nonce_of r' \<in> mkeys (nc_cache nc2)"
  proof (cases "u1 \<le> t2 + NonceCacheTTL")
    case True
    have "time_Sub b t2 \<le> NonceCacheTTL" if "b \<le> u1" for b
      using that True by (intro time_Sub_le) (simp_all add: NonceCacheTTL_def Second_def)
    with assms(8) have "\<forall>(m, now) \<in> set (nonce_calls config rs). time_Sub now t2 \<le> NonceCacheTTL"
      by (auto simp: nonce_calls_def)
    from check_all_remembers [OF assms(1) stored calls(1) this calls(2)] assms(9) show ?thesis
      by simp
  next
    case False
    have "authentic config t1 r"
      using assms(1,2) by (cases rule: authenticateRequest_cases [where config = config and ?t1.0 = t1 and r = r and ?t2.0 = t2]) auto
    then have "CheckTimestampSkew t1 (ParseTimestamp ts) = None"
      using assms(3) by (auto simp: authentic_def)
    with False assms(4) have "\<bar>t1 - ParseTimestamp ts\<bar> \<le> MaxTimestampSkew"
      by (auto simp: CheckTimestampSkew_None)
    with False assms(7) have "CheckTimestampSkew u1 (ParseTimestamp ts) \<noteq> None"
      by (intro stale_after_TTL [of t1]) simp_all
    with assms(3,10) show ?thesis
      by (auto simp: authentic_def)
  qed
  with \<open>nc_inv nc2\<close> show ?thesis
    by (cases rule: authenticateRequest_cases [where config = config and ?t1.0 = u1 and r = r' and ?t2.0 = u2])
      auto
qed

lemma demo_accepted:
  assumes "nc_inv nc" and "nonce \<noteq> ''''" and "nonce \<notin> mkeys (nc_cache nc)"
  shows "\<exists>nc' r'. authenticateRequest demo_config (time_Unix 1000) t2 (demo_request nonce) nc = Some (nc', Inr r') \<and>
    nc_inv nc'"
  using assms(1)
proof (cases rule: authenticateRequest_cases [where config = demo_config and ?t1.0 = "time_Unix 1000"
      and r = "demo_request nonce" and ?t2.0 = t2, case_names unauth replayed acc])
  case (acc nc')
  with nonces.inv_check [OF assms(1) acc(3)] show ?thesis
    by blast
qed (use assms demo_authentic in auto)

theorem replayed_request_rejected_witness:
  "\<exists>nc1 r1. authenticateRequest demo_config (time_Unix 1000) (time_Unix 1000) (demo_request ''n'') NewNonceCache
      = Some (nc1, Inr r1) \<and>
    (\<exists>err. authenticateRequest demo_config (time_Unix 1200) (time_Unix 1200) (demo_request ''n'') nc1
      = Some (nc1, Inl err)) \<and>
    (\<exists>err. authenticateRequest demo_config (time_Unix 1000000) (time_Unix 1000000) (demo_request ''n'') nc1
      = Some (nc1, Inl err))"
proof -
  obtain nc1 r1 where 1: "authenticateRequest demo_config (time_Unix 1000) (time_Unix 1000)
      (demo_request ''n'') NewNonceCache = Some (nc1, Inr r1)"
    using demo_accepted [OF nc_inv_New, of "''n''" "time_Unix 1000"] by (auto simp: NewNonceCache_def)
  have "\<exists>err. authenticateRequest demo_config (time_Unix u) (time_Unix u) (demo_request ''n'') nc1 = Some (nc1, Inl err)" for u
    by (rule replayed_request_rejected [OF nc_inv_New 1, of 1000 _ "[]" _ "[]"])
      (simp_all add: ParseInt_Itoa ParseTimestamp_def Second_def MaxNonceCacheSize_def)
  with 1 show ?thesis
    by blast
qed

text \<open>The exception: a timestamp that is accepted by overflow stays acceptable, so a replay passes once the nonce has expired.\<close>

lemma overflow_timestamp_stays_authentic:
  assumes "authentic config t1 r" and "ParseInt (timestamp_of r) = Inr ts" and "2 ^ 63 \<le> ParseTimestamp ts - u1"
  shows "authentic config u1 r"
  using assms by (auto simp: authentic_def CheckTimestampSkew_None)

text \<open>
  C10.  Correctly signed requests get through: a request built with the configured token (one that
  is not changed by \<open>TrimSpace\<close>) and secret, a non-empty fresh nonce, a timestamp within the
  skew of the clock and a body of at most ten MiB reaches the next handler, with method, path,
  headers and body as the client sent them.
\<close>

theorem signed_request_reaches_handler:
  assumes "nc_inv nc" and "cfg_Token config \<noteq> ''''" and "TrimSpace (cfg_Token config) = cfg_Token config"
    and "cfg_Secret config \<noteq> ''''" and "nonce \<noteq> ''''" and "nonce \<notin> mkeys (nc_cache nc)"
    and "length b \<le> maxAuthBodySize"
    and "- (2 ^ 63) \<le> ts" "ts < 2 ^ 63" and "\<bar>t1 - ParseTimestamp ts\<bar> \<le> MaxTimestampSkew"
    and "nexth (signed_request config nonce ts m p b) s = (ops, s')"
  shows "\<exists>nc'. AuthMiddleware config nexth t1 t2 (signed_request config nonce ts m p b) (nc, s) =
      Some (ops, nc', s') \<and> nonce \<in> mkeys (nc_cache nc')"
proof -
  let ?r = "signed_request config nonce ts m p b"
  have auth: "authentic config t1 ?r"
    using assms by (intro signed_request_authentic)
  have body: "?r\<lparr>r_body := NewReader (body_data (r_body ?r))\<rparr> = ?r"
    by (simp add: signed_request_def NewReader_def)
  from assms(1) show ?thesis
  proof (cases rule: authenticateRequest_cases [where config = config and ?t1.0 = t1 and r = ?r and ?t2.0 = t2,
        case_names unauth replayed acc])
    case (acc nc')
    with assms(11) nonces.check_fresh [OF assms(1) acc(2,3)] body show ?thesis
      by (simp add: AuthMiddleware_def)
  qed (use auth assms(6) in auto)
qed

theorem signed_request_reaches_handler_witness:
  "\<exists>nc'. AuthMiddleware demo_config (\<lambda>r s. (http_NotFound, s + 1)) (time_Unix 1000) (time_Unix 1000)
      (demo_request ''n'') (NewNonceCache, 0 :: nat) = Some (http_NotFound, nc', 1) \<and> ''n'' \<in> mkeys (nc_cache nc')"
proof (rule signed_request_reaches_handler [OF nc_inv_New])
  show "TrimSpace (cfg_Token demo_config) = cfg_Token demo_config"
    by (simp add: TrimSpace_def strip_left.simps strip_one_def utf8_spaces_def upt_rec char_of_def)
qed (simp_all add: NewNonceCache_def MaxTimestampSkew_def Second_def ParseTimestamp_def)

end
