(* ===== verification/Idempotency.thy ===== *)
theory Idempotency
  imports Auth
begin

text \<open>
  Idempotency keys: \<open>internal/store/idempotency.go\<close> (a bounded map from keys to responses that
  expire) and \<open>internal/middleware/idempotency.go\<close> (the middleware that answers a retry from the
  store).  Every reading of the store's clock is an argument.  The middleware is not one atomic
  step: it locks the store once to look the key up and once to store the response.  The two
  halves are \<open>idem_begin\<close> and \<open>idem_finish\<close>, with the next handler running in between.
\<close>

section \<open>The store\<close>

definition DefaultIdempotencyTTL :: duration where
  "DefaultIdempotencyTTL = 24 * 3600 * Second"

definition DefaultIdempotencyMaxKeys :: int where
  "DefaultIdempotencyMaxKeys = 10000"

datatype store_error = ErrIdempotencyConflict | ErrIdempotencyStoreFull

record StoredResponse =
  sr_StatusCode :: int
  sr_Headers :: header
  sr_Body :: "chunk list"

record idempotencyEntry =
  ie_requestHash :: string
  ie_response :: StoredResponse
  ie_expiresAt :: time

record IdempotencyStore =
  is_entries :: "(string, idempotencyEntry) gomap"
  is_ttl :: duration
  is_maxKeys :: int

definition NewIdempotencyStoreWithConfig :: "duration \<Rightarrow> int \<Rightarrow> IdempotencyStore" where
  "NewIdempotencyStoreWithConfig ttl maxKeys =
     (let ttl = (if ttl \<le> 0 then DefaultIdempotencyTTL else ttl);
          maxKeys = (if maxKeys \<le> 0 then DefaultIdempotencyMaxKeys else maxKeys)
      in \<lparr>is_entries = [], is_ttl = ttl, is_maxKeys = maxKeys\<rparr>)"

definition NewIdempotencyStore :: IdempotencyStore where
  "NewIdempotencyStore = NewIdempotencyStoreWithConfig DefaultIdempotencyTTL DefaultIdempotencyMaxKeys"

definition cloneHeaders :: "header \<Rightarrow> header" where
  "cloneHeaders headers = map (\<lambda>(key, values). (key, values)) headers"

definition cloneStoredResponse :: "StoredResponse \<Rightarrow> StoredResponse" where
  "cloneStoredResponse response =
     \<lparr>sr_StatusCode = sr_StatusCode response, sr_Headers = cloneHeaders (sr_Headers response),
      sr_Body = [] @ sr_Body response\<rparr>"

definition cleanupLocked :: "time \<Rightarrow> IdempotencyStore \<Rightarrow> IdempotencyStore" where
  "cleanupLocked now s =
     s\<lparr>is_entries := filter (\<lambda>(key, entry). \<not> ie_expiresAt entry < now) (is_entries s)\<rparr>"

definition Cleanup :: "time \<Rightarrow> IdempotencyStore \<Rightarrow> IdempotencyStore" where
  "Cleanup now s = cleanupLocked now s"

text \<open>\<open>now\<close> is the clock of \<open>cleanupLocked\<close>, \<open>now'\<close> the one the expiry is computed from.\<close>

definition Store ::
  "string \<Rightarrow> string \<Rightarrow> StoredResponse \<Rightarrow> time \<Rightarrow> time \<Rightarrow> IdempotencyStore
     \<Rightarrow> IdempotencyStore \<times> store_error option" where
  "Store key requestHash response now now' s =
     (let s = cleanupLocked now s
      in case mget (is_entries s) key of
           Some entry \<Rightarrow>
             if ie_requestHash entry \<noteq> requestHash then (s, Some ErrIdempotencyConflict) else (s, None)
         | None \<Rightarrow>
             if is_maxKeys s \<le> int (length (is_entries s)) then (s, Some ErrIdempotencyStoreFull)
             else (s\<lparr>is_entries := mput key \<lparr>ie_requestHash = requestHash,
                       ie_response = cloneStoredResponse response,
                       ie_expiresAt = now' + is_ttl s\<rparr> (is_entries s)\<rparr>, None))"

definition Get ::
  "string \<Rightarrow> time \<Rightarrow> IdempotencyStore \<Rightarrow> IdempotencyStore \<times> (string \<times> StoredResponse) option" where
  "Get key now s =
     (case mget (is_entries s) key of
        None \<Rightarrow> (s, None)
      | Some entry \<Rightarrow>
          if ie_expiresAt entry < now then (s\<lparr>is_entries := mdel key (is_entries s)\<rparr>, None)
          else (s, Some (ie_requestHash entry, cloneStoredResponse (ie_response entry))))"

section \<open>The middleware\<close>

definition HeaderIdempotencyKey :: string where
  "HeaderIdempotencyKey = ''Idempotency-Key''"

definition isMutatingMethod :: "string \<Rightarrow> bool" where
  "isMutatingMethod method \<longleftrightarrow> method = ''POST'' \<or> method = ''PUT'' \<or> method = ''PATCH'' \<or> method = ''DELETE''"

definition computeRequestHash :: "string \<Rightarrow> string \<Rightarrow> string \<Rightarrow> string" where
  "computeRequestHash method path body =
     hex_EncodeToString (sha256 (bytes_of method @ bytes_of [CHR 0x0A] @ bytes_of path @ bytes_of [CHR 0x0A]
       @ bytes_of body))"

definition writeStoredResponse :: "StoredResponse \<Rightarrow> wop list" where
  "writeStoredResponse response =
     concat (map (\<lambda>(key, values). map (HAdd key) values) (sr_Headers response))
     @ [WriteHeader (if sr_StatusCode response = 0 then 200 else sr_StatusCode response)]
     @ map Write (sr_Body response)"

definition writeIdempotencyConflict :: "string \<Rightarrow> wop list" where
  "writeIdempotencyConflict message = json_reply 409 (ErrorResponse CodeIdempotencyConflict message)"

record responseRecorder =
  rr_header :: header
  rr_body :: "chunk list"
  rr_statusCode :: int
  rr_wroteHead :: bool

definition newResponseRecorder :: responseRecorder where
  "newResponseRecorder = \<lparr>rr_header = [], rr_body = [], rr_statusCode = 200, rr_wroteHead = False\<rparr>"

definition rr_WriteHeader :: "int \<Rightarrow> responseRecorder \<Rightarrow> responseRecorder" where
  "rr_WriteHeader statusCode r =
     (if rr_wroteHead r then r else r\<lparr>rr_wroteHead := True, rr_statusCode := statusCode\<rparr>)"

definition rr_Write :: "chunk \<Rightarrow> responseRecorder \<Rightarrow> responseRecorder" where
  "rr_Write data r =
     (let r = (if \<not> rr_wroteHead r then rr_WriteHeader 200 r else r)
      in r\<lparr>rr_body := rr_body r @ [data]\<rparr>)"

fun rr_op :: "wop \<Rightarrow> responseRecorder \<Rightarrow> responseRecorder" where
  "rr_op (HSet k v) r = r\<lparr>rr_header := Header_Set k v (rr_header r)\<rparr>"
| "rr_op (HAdd k v) r = r\<lparr>rr_header := Header_Add k v (rr_header r)\<rparr>"
| "rr_op (WriteHeader code) r = rr_WriteHeader code r"
| "rr_op (Write d) r = rr_Write d r"

definition recorded :: "wop list \<Rightarrow> StoredResponse" where
  "recorded ops =
     (let recorder = fold rr_op ops newResponseRecorder
      in \<lparr>sr_StatusCode = rr_statusCode recorder, sr_Headers = rr_header recorder, sr_Body = rr_body recorder\<rparr>)"

text \<open>What the first half decides: pass the request on unrecorded, answer it, or run and record it.\<close>

datatype idem_decision = Pass | Reply "wop list" | Record string string request

definition idem_begin :: "request \<Rightarrow> time \<Rightarrow> IdempotencyStore option \<Rightarrow> IdempotencyStore option \<times> idem_decision" where
  "idem_begin r now st =
     (case st of
        None \<Rightarrow> (st, Pass)
      | Some s \<Rightarrow>
          if \<not> isMutatingMethod (r_method r) then (st, Pass)
          else let key = TrimSpace (Header_Get (r_header r) HeaderIdempotencyKey)
               in if key = '''' then (st, Pass)
                  else case ReadAll (r_body r) of
                         None \<Rightarrow> (st, Reply (writeIdempotencyConflict ''failed to read request body''))
                       | Some body \<Rightarrow>
                           let r' = r\<lparr>r_body := NewReader body\<rparr>;
                               hash = computeRequestHash (r_method r) (r_path r) body
                           in case Get key now s of
                                (s, Some (storedHash, storedResponse)) \<Rightarrow>
                                  if storedHash \<noteq> hash
                                  then (Some s, Reply (writeIdempotencyConflict
                                          ''idempotency key was reused with a different payload''))
                                  else (Some s, Reply (writeStoredResponse storedResponse))
                              | (s, None) \<Rightarrow> (Some s, Record key hash r'))"

definition idem_finish ::
  "string \<Rightarrow> string \<Rightarrow> wop list \<Rightarrow> time \<Rightarrow> time \<Rightarrow> IdempotencyStore \<Rightarrow> wop list \<times> IdempotencyStore" where
  "idem_finish key hash ops now now' s =
     (case Store key hash (recorded ops) now now' s of
        (s, Some ErrIdempotencyConflict) \<Rightarrow>
          (writeIdempotencyConflict ''idempotency key was reused with a different payload'', s)
      | (s, _) \<Rightarrow> (writeStoredResponse (recorded ops), s))"

text \<open>The clocks of the lookup and of the two readings in \<open>Store\<close>.\<close>

record clocks =
  clk_get :: time
  clk_cleanup :: time
  clk_store :: time

definition IdempotencyMiddleware ::
  "'s handler \<Rightarrow> clocks \<Rightarrow> request \<Rightarrow> IdempotencyStore option \<times> 's
     \<Rightarrow> wop list \<times> IdempotencyStore option \<times> 's" where
  "IdempotencyMiddleware nexth clk r st =
     (case idem_begin r (clk_get clk) (fst st) of
        (is, Pass) \<Rightarrow> (case nexth r (snd st) of (ops, s') \<Rightarrow> (ops, is, s'))
      | (is, Reply ops) \<Rightarrow> (ops, is, snd st)
      | (is, Record key hash r') \<Rightarrow>
          (case nexth r' (snd st) of
             (ops, s') \<Rightarrow>
               (case is of
                  None \<Rightarrow> (ops, is, s')
                | Some s \<Rightarrow>
                    (case idem_finish key hash ops (clk_cleanup clk) (clk_store clk) s of
                       (ops', s2) \<Rightarrow> (ops', Some s2, s')))))"

fun idem_all ::
  "'s handler \<Rightarrow> (clocks \<times> request) list \<Rightarrow> IdempotencyStore option \<times> 's \<Rightarrow> IdempotencyStore option \<times> 's" where
  "idem_all nexth [] st = st"
| "idem_all nexth ((clk, r) # rs) st = idem_all nexth rs (snd (IdempotencyMiddleware nexth clk r st))"

section \<open>The store's invariant\<close>

definition is_inv :: "IdempotencyStore \<Rightarrow> bool" where
  "is_inv s \<longleftrightarrow> mwf (is_entries s) \<and> int (length (is_entries s)) \<le> is_maxKeys s \<and> 0 < is_ttl s"

lemma cloneStoredResponse_id [simp]: "cloneStoredResponse r = r"
  by (simp add: cloneStoredResponse_def cloneHeaders_def)

lemma is_inv_New: "is_inv (NewIdempotencyStoreWithConfig ttl maxKeys)"
  by (simp add: is_inv_def NewIdempotencyStoreWithConfig_def Let_def DefaultIdempotencyTTL_def
      DefaultIdempotencyMaxKeys_def Second_def)

lemma mwf_filter: "mwf m \<Longrightarrow> mwf (filter P m)"
  by (simp add: mwf_def distinct_map_filter)

lemma mget_filter:
  "mwf m \<Longrightarrow> mget (filter (\<lambda>(k, v). P v) m) k = (case mget m k of Some v \<Rightarrow> if P v then Some v else None | None \<Rightarrow> None)"
proof (induction m)
  case (Cons a m)
  then have "mwf m" and "fst a \<notin> mkeys m"
    by (auto simp: mwf_def mkeys_def)
  then have "mget m (fst a) = None"
    by (simp add: mkeys_mget)
  with Cons.IH [OF \<open>mwf m\<close>] show ?case
    by (cases a) auto
qed simp

lemma mget_cleanup:
  "is_inv s \<Longrightarrow> mget (is_entries (cleanupLocked now s)) key =
     (case mget (is_entries s) key of
        Some e \<Rightarrow> if ie_expiresAt e < now then None else Some e
      | None \<Rightarrow> None)"
  by (simp add: cleanupLocked_def is_inv_def mget_filter split: option.split)

lemma is_inv_cleanup: "is_inv s \<Longrightarrow> is_inv (cleanupLocked now s)"
  by (auto simp: is_inv_def cleanupLocked_def mwf_filter intro: order_trans [OF length_filter_le [THEN zle_int [THEN iffD2]]])

lemma is_inv_Get: "is_inv s \<Longrightarrow> is_inv (fst (Get key now s))"
  by (auto simp: Get_def is_inv_def length_mdel split: option.split)

lemma is_inv_Store: "is_inv s \<Longrightarrow> is_inv (fst (Store key h rsp now now' s))"
  using is_inv_cleanup [of s now]
  by (auto simp: Store_def Let_def is_inv_def length_mput split: option.split)

text \<open>Both operations keep every other entry that has not expired, and the same limits.\<close>

lemma Get_keeps:
  assumes "mget (is_entries s) k = Some e" and "k \<noteq> key \<or> now \<le> ie_expiresAt e"
  shows "mget (is_entries (fst (Get key now s))) k = Some e"
  using assms by (auto simp: Get_def split: option.split)

lemma Store_keeps:
  assumes "is_inv s" and "mget (is_entries s) k = Some e" and "now \<le> ie_expiresAt e"
  shows "mget (is_entries (fst (Store key h rsp now now' s))) k = Some e"
  using assms by (auto simp: Store_def Let_def mget_cleanup split: option.split)

lemma Get_limits [simp]:
  "is_ttl (fst (Get key now s)) = is_ttl s" "is_maxKeys (fst (Get key now s)) = is_maxKeys s"
  by (auto simp: Get_def split: option.split)

section \<open>The contract the middleware relies on\<close>

text \<open>
  A store of responses that expire: a lookup and an insertion, each with the clock it reads, keep
  every response that is still valid, and a lookup returns a valid response.
\<close>

locale expiring_store =
  fixes get :: "'k \<Rightarrow> time \<Rightarrow> 's \<Rightarrow> 's \<times> ('h \<times> 'v) option"
    and put :: "'k \<Rightarrow> 'h \<Rightarrow> 'v \<Rightarrow> time \<Rightarrow> time \<Rightarrow> 's \<Rightarrow> 's \<times> 'e option"
    and view :: "'s \<Rightarrow> 'k \<Rightarrow> ('h \<times> 'v \<times> time) option"
    and ttl :: "'s \<Rightarrow> duration"
    and inv :: "'s \<Rightarrow> bool"
  assumes inv_get: "inv s \<Longrightarrow> inv (fst (get k now s))"
    and inv_put: "inv s \<Longrightarrow> inv (fst (put k h v now now' s))"
    and get_keeps: "inv s \<Longrightarrow> view s j = Some (h, v, x) \<Longrightarrow> now \<le> x \<Longrightarrow>
      view (fst (get k now s)) j = Some (h, v, x)"
    and put_keeps: "inv s \<Longrightarrow> view s j = Some (h, v, x) \<Longrightarrow> now \<le> x \<Longrightarrow>
      view (fst (put k h' v' now now' s)) j = Some (h, v, x)"
    and get_valid: "view s k = Some (h, v, x) \<Longrightarrow> now \<le> x \<Longrightarrow> snd (get k now s) = Some (h, v)"
    and put_new: "inv s \<Longrightarrow> view s k = None \<Longrightarrow> snd (put k h v now now' s) = None \<Longrightarrow>
      view (fst (put k h v now now' s)) k = Some (h, v, now' + ttl s)"
    and put_conflict: "inv s \<Longrightarrow> view s k = Some (h, v, x) \<Longrightarrow> now \<le> x \<Longrightarrow> h' \<noteq> h \<Longrightarrow>
      snd (put k h' v' now now' s) \<noteq> None"
begin

text \<open>The response \<open>v\<close> to a request with hash \<open>h\<close> is held under \<open>k\<close> at least until \<open>u\<close>.\<close>

definition holds :: "'s \<Rightarrow> 'k \<Rightarrow> 'h \<Rightarrow> 'v \<Rightarrow> time \<Rightarrow> bool" where
  "holds s k h v u \<longleftrightarrow> inv s \<and> (\<exists>x. view s k = Some (h, v, x) \<and> u \<le> x)"

lemma holds_get: "holds s j h v u \<Longrightarrow> now \<le> u \<Longrightarrow> holds (fst (get k now s)) j h v u"
  by (auto simp: holds_def inv_get dest: get_keeps [of s j h v _ now k])

lemma holds_put: "holds s j h v u \<Longrightarrow> now \<le> u \<Longrightarrow> holds (fst (put k h' v' now now' s)) j h v u"
  by (auto simp: holds_def inv_put dest: put_keeps [of s j h v _ now k h' v' now'])

lemma get_holds: "holds s k h v u \<Longrightarrow> now \<le> u \<Longrightarrow> snd (get k now s) = Some (h, v)"
  by (auto simp: holds_def intro: get_valid)

lemma put_holds:
  "inv s \<Longrightarrow> view s k = None \<Longrightarrow> snd (put k h v now now' s) = None \<Longrightarrow> u \<le> now' + ttl s \<Longrightarrow>
   holds (fst (put k h v now now' s)) k h v u"
  by (auto simp: holds_def inv_put put_new)

lemma get_unique: "holds s k h v u \<Longrightarrow> now \<le> u \<Longrightarrow> snd (get k now s) = Some (h', v') \<Longrightarrow> h' = h \<and> v' = v"
  using get_holds [of s k h v u now] by simp

end

definition store_view :: "IdempotencyStore \<Rightarrow> string \<Rightarrow> (string \<times> StoredResponse \<times> time) option" where
  "store_view s k =
     map_option (\<lambda>e. (ie_requestHash e, ie_response e, ie_expiresAt e)) (mget (is_entries s) k)"

interpretation idem: expiring_store Get Store store_view is_ttl is_inv
proof (unfold_locales, goal_cases)
  case (1 s k now)
  then show ?case by (rule is_inv_Get)
next
  case (2 s k h v now now')
  then show ?case by (rule is_inv_Store)
next
  case (3 s j h v x now k)
  then obtain e where "mget (is_entries s) j = Some e" "now \<le> ie_expiresAt e"
    "(ie_requestHash e, ie_response e, ie_expiresAt e) = (h, v, x)"
    by (auto simp: store_view_def)
  with Get_keeps show ?case
    by (simp add: store_view_def)
next
  case (4 s j h v x now k h' v' now')
  then obtain e where "mget (is_entries s) j = Some e" "now \<le> ie_expiresAt e"
    "(ie_requestHash e, ie_response e, ie_expiresAt e) = (h, v, x)"
    by (auto simp: store_view_def)
  with Store_keeps [OF 4(1)] show ?case
    by (simp add: store_view_def)
next
  case (5 s k h v x now)
  then show ?case
    by (auto simp: store_view_def Get_def)
next
  case (6 s k h v now now')
  then have "mget (is_entries (cleanupLocked now s)) k = None"
    by (simp add: mget_cleanup store_view_def)
  with 6 show ?case
    by (auto simp: Store_def Let_def store_view_def cleanupLocked_def split: if_splits)
next
  case (7 s k h v x now h' v' now')
  then show ?case
    by (auto simp: Store_def Let_def store_view_def mget_cleanup)
qed

section \<open>The middleware keeps what it promised\<close>

definition idem_key :: "request \<Rightarrow> string" where
  "idem_key r = TrimSpace (Header_Get (r_header r) HeaderIdempotencyKey)"

definition idem_hash :: "request \<Rightarrow> string" where
  "idem_hash r = computeRequestHash (r_method r) (r_path r) (body_data (r_body r))"

text \<open>The requests the middleware acts on.\<close>

definition keyed :: "request \<Rightarrow> bool" where
  "keyed r \<longleftrightarrow> isMutatingMethod (r_method r) \<and> idem_key r \<noteq> '''' \<and> \<not> body_fails (r_body r)"

lemma idem_begin_keyed:
  "keyed r \<Longrightarrow> idem_begin r now (Some s) =
     (case Get (idem_key r) now s of
        (s, Some (h, v)) \<Rightarrow>
          (Some s, Reply (if h \<noteq> idem_hash r
             then writeIdempotencyConflict ''idempotency key was reused with a different payload''
             else writeStoredResponse v))
      | (s, None) \<Rightarrow> (Some s, Record (idem_key r) (idem_hash r) (r\<lparr>r_body := NewReader (body_data (r_body r))\<rparr>)))"
  by (auto simp: idem_begin_def keyed_def idem_key_def idem_hash_def ReadAll_def Let_def
      split: prod.split option.split)

lemma idem_begin_store:
  "\<exists>s'. fst (idem_begin r now (Some s)) = Some s' \<and> (s' = s \<or> s' = fst (Get (idem_key r) now s))"
  by (auto simp: idem_begin_def idem_key_def Let_def split: prod.split option.split)

lemma idem_finish_store: "snd (idem_finish k h ops now now' s) = fst (Store k h (recorded ops) now now' s)"
  by (auto simp: idem_finish_def split: prod.split option.split store_error.split)

text \<open>After one request the store is the old one, or what a lookup and an insertion made of it.\<close>

lemma IdempotencyMiddleware_store:
  "\<exists>s1 s2. fst (snd (IdempotencyMiddleware nexth clk r (Some s, st))) = Some s2 \<and>
     (s1 = s \<or> s1 = fst (Get (idem_key r) (clk_get clk) s)) \<and>
     (s2 = s1 \<or> (\<exists>k h v. s2 = fst (Store k h v (clk_cleanup clk) (clk_store clk) s1)))"
proof -
  obtain s1 d where b: "idem_begin r (clk_get clk) (Some s) = (Some s1, d)"
    "s1 = s \<or> s1 = fst (Get (idem_key r) (clk_get clk) s)"
    using idem_begin_store [of r "clk_get clk" s] by (cases "idem_begin r (clk_get clk) (Some s)") auto
  show ?thesis
  proof (cases d)
    case (Record key hash r')
    obtain ops st' where "nexth r' st = (ops, st')"
      by (cases "nexth r' st")
    with b(1) Record have "fst (snd (IdempotencyMiddleware nexth clk r (Some s, st))) =
        Some (fst (Store key hash (recorded ops) (clk_cleanup clk) (clk_store clk) s1))"
      using idem_finish_store [of key hash ops "clk_cleanup clk" "clk_store clk" s1]
      by (auto simp: IdempotencyMiddleware_def split: prod.split)
    with b(2) show ?thesis
      by blast
  qed (use b in \<open>auto simp: IdempotencyMiddleware_def split: prod.split\<close>)
qed

lemma IdempotencyMiddleware_holds:
  assumes "idem.holds s k h v u" and "clk_get clk \<le> u" and "clk_cleanup clk \<le> u"
  shows "\<exists>s'. fst (snd (IdempotencyMiddleware nexth clk r (Some s, st))) = Some s' \<and> idem.holds s' k h v u"
  using IdempotencyMiddleware_store [of nexth clk r s st] idem.holds_get [OF assms(1,2)]
    idem.holds_put [OF _ assms(3)] assms(1) by metis

lemma idem_all_holds:
  assumes "idem.holds s k h v u" and "\<forall>(clk, r) \<in> set rs. clk_get clk \<le> u \<and> clk_cleanup clk \<le> u"
  shows "\<exists>s'. fst (idem_all nexth rs (Some s, st)) = Some s' \<and> idem.holds s' k h v u"
  using assms
proof (induction rs arbitrary: s st)
  case (Cons x rs)
  obtain clk r where x: "x = (clk, r)"
    by (cases x)
  with Cons.prems IdempotencyMiddleware_holds [OF Cons.prems(1), of clk nexth r st] obtain s1 where
    "fst (snd (IdempotencyMiddleware nexth clk r (Some s, st))) = Some s1" "idem.holds s1 k h v u"
    by auto
  with Cons.IH [of s1 "snd (snd (IdempotencyMiddleware nexth clk r (Some s, st)))"] Cons.prems(2) x
  show ?case
    by (cases "snd (IdempotencyMiddleware nexth clk r (Some s, st))") auto
qed auto

lemma held_request_answered:
  assumes "idem.holds s (idem_key r) h v u" and "keyed r" and "clk_get clk \<le> u"
  shows "\<exists>s'. IdempotencyMiddleware nexth clk r (Some s, st) =
    (if idem_hash r = h then writeStoredResponse v
     else writeIdempotencyConflict ''idempotency key was reused with a different payload'', Some s', st)"
  using idem.get_holds [OF assms(1,3)] idem_begin_keyed [OF assms(2), of "clk_get clk" s]
  by (cases "Get (idem_key r) (clk_get clk) s") (auto simp: IdempotencyMiddleware_def)

text \<open>The first request with a key runs the handler, and its response is held.\<close>

lemma first_request:
  assumes "is_inv s" and "keyed r" and "mget (is_entries s) (idem_key r) = None"
    and "int (length (is_entries s)) < is_maxKeys s"
    and "nexth (r\<lparr>r_body := NewReader (body_data (r_body r))\<rparr>) st = (ops, st1)"
  shows "\<exists>s1. IdempotencyMiddleware nexth clk r (Some s, st) =
      (writeStoredResponse (recorded ops), Some s1, st1) \<and>
    idem.holds s1 (idem_key r) (idem_hash r) (recorded ops) (clk_store clk + is_ttl s)"
proof -
  let ?S = "Store (idem_key r) (idem_hash r) (recorded ops) (clk_cleanup clk) (clk_store clk) s"
  have get: "Get (idem_key r) (clk_get clk) s = (s, None)"
    using assms(3) by (simp add: Get_def)
  have "is_maxKeys (cleanupLocked (clk_cleanup clk) s) = is_maxKeys s"
    "length (is_entries (cleanupLocked (clk_cleanup clk) s)) \<le> length (is_entries s)"
    by (simp_all add: cleanupLocked_def)
  with assms(1,3,4) have ok: "snd ?S = None"
    by (simp add: Store_def Let_def mget_cleanup)
  have "idem.holds (fst ?S) (idem_key r) (idem_hash r) (recorded ops) (clk_store clk + is_ttl s)"
    using assms(1,3) ok by (intro idem.put_holds) (simp_all add: store_view_def)
  moreover have "IdempotencyMiddleware nexth clk r (Some s, st) =
      (writeStoredResponse (recorded ops), Some (fst ?S), st1)"
    using get ok assms(2,5) by (cases ?S) (simp add: IdempotencyMiddleware_def idem_begin_keyed idem_finish_def)
  ultimately show ?thesis
    by blast
qed

section \<open>The recorder\<close>

text \<open>Handlers that set no header once they have started to answer.\<close>

fun is_header_op :: "wop \<Rightarrow> bool" where
  "is_header_op (HSet _ _) = True"
| "is_header_op (HAdd _ _) = True"
| "is_header_op _ = False"

definition headers_first :: "wop list \<Rightarrow> bool" where
  "headers_first ops \<longleftrightarrow> list_all (\<lambda>x. \<not> is_header_op x) (dropWhile is_header_op ops)"

definition header_wf :: "header \<Rightarrow> bool" where
  "header_wf h \<longleftrightarrow> mwf h \<and> list_all (\<lambda>(k, vs). CanonicalHeaderKey k = k \<and> vs \<noteq> []) h"

definition header_op :: "wop \<Rightarrow> header \<Rightarrow> header" where
  "header_op x h = (case x of HSet k v \<Rightarrow> Header_Set k v h | HAdd k v \<Rightarrow> Header_Add k v h | _ \<Rightarrow> h)"

lemma set_mput: "set (mput k v m) \<subseteq> insert (k, v) (set m)"
  by (induction m) (auto simp: mput_def)

lemma header_wf_put: "header_wf h \<Longrightarrow> CanonicalHeaderKey k = k \<Longrightarrow> vs \<noteq> [] \<Longrightarrow> header_wf (mput k vs h)"
  using set_mput [of k vs h] by (fastforce simp: header_wf_def list_all_iff)

lemma header_wf_op: "header_wf h \<Longrightarrow> header_wf (header_op x h)"
  by (cases x) (simp_all add: header_op_def Header_Set_def Header_Add_def Let_def header_wf_put)

lemma header_wf_ops: "header_wf h \<Longrightarrow> header_wf (fold header_op ops h)"
  by (induction ops arbitrary: h) (simp_all add: header_wf_op)

lemma conn_header_ops:
  "list_all is_header_op ops \<Longrightarrow> fold conn_op ops c = c\<lparr>c_header := fold header_op ops (c_header c)\<rparr>"
proof (induction ops arbitrary: c)
  case (Cons x ops)
  then show ?case
    by (cases x) (simp_all add: header_op_def)
qed simp

lemma rr_header_ops:
  "list_all is_header_op ops \<Longrightarrow> fold rr_op ops r = r\<lparr>rr_header := fold header_op ops (rr_header r)\<rparr>"
proof (induction ops arbitrary: r)
  case (Cons x ops)
  then show ?case
    by (cases x) (simp_all add: header_op_def)
qed simp

text \<open>After the headers, connection and recorder keep the same status and the same body.\<close>

definition same_reply :: "conn \<Rightarrow> responseRecorder \<Rightarrow> bool" where
  "same_reply c r \<longleftrightarrow> rr_header r = c_header c \<and> rr_body r = c_body c \<and>
     c_sent c = (if rr_wroteHead r then Some (rr_statusCode r, c_header c) else None) \<and>
     (\<not> rr_wroteHead r \<longrightarrow> rr_statusCode r = 200)"

lemma same_reply_op: "same_reply c r \<Longrightarrow> \<not> is_header_op x \<Longrightarrow> same_reply (conn_op x c) (rr_op x r)"
  by (cases x; cases "rr_wroteHead r")
    (simp_all add: same_reply_def conn_WriteHeader_def rr_WriteHeader_def rr_Write_def)

lemma same_reply_ops:
  "same_reply c r \<Longrightarrow> list_all (\<lambda>x. \<not> is_header_op x) ops \<Longrightarrow> same_reply (fold conn_op ops c) (fold rr_op ops r)"
  by (induction ops arbitrary: c r) (simp_all add: same_reply_op)

lemma mput_new: "k \<notin> mkeys m \<Longrightarrow> mput k v m = m @ [(k, v)]"
  by (induction m) (auto simp: mput_def mkeys_def)

lemma mput_last: "k \<notin> mkeys m \<Longrightarrow> mput k v (m @ [(k, w)]) = m @ [(k, v)]"
  by (induction m) (auto simp: mput_def mkeys_def)

lemma mget_last: "k \<notin> mkeys m \<Longrightarrow> mget (m @ [(k, w)]) k = Some w"
  by (induction m) (auto simp: mkeys_def)

lemma mkeys_append [simp]: "mkeys (a @ b) = mkeys a \<union> mkeys b"
  by (simp add: mkeys_def image_Un)

lemma add_values:
  assumes "CanonicalHeaderKey k = k" and "k \<notin> mkeys h"
  shows "fold header_op (map (HAdd k) vs) (h @ [(k, ws)]) = h @ [(k, ws @ vs)]"
  using assms by (induction vs arbitrary: ws)
    (simp_all add: header_op_def Header_Add_def mget_last mput_last)

lemma add_key:
  assumes "CanonicalHeaderKey k = k" and "k \<notin> mkeys h" and "vs \<noteq> []"
  shows "fold header_op (map (HAdd k) vs) h = h @ [(k, vs)]"
proof -
  obtain w ws where vs: "vs = w # ws"
    using assms(3) by (cases vs) auto
  have "mget h k = None"
    using assms(2) by (simp add: mkeys_mget)
  with assms(1,2) vs add_values [OF assms(1,2), of ws "[w]"] show ?thesis
    by (simp add: header_op_def Header_Add_def mput_new)
qed

lemma add_all_headers:
  "header_wf (acc @ h) \<Longrightarrow>
   fold header_op (concat (map (\<lambda>(k, vs). map (HAdd k) vs) h)) acc = acc @ h"
proof (induction h arbitrary: acc)
  case (Cons p h)
  obtain k vs where p: "p = (k, vs)"
    by (cases p)
  with Cons.prems have "CanonicalHeaderKey k = k" "vs \<noteq> []" "k \<notin> mkeys acc"
    by (auto simp: header_wf_def mwf_def mkeys_def)
  then have "fold header_op (map (HAdd k) vs) acc = acc @ [(k, vs)]"
    by (intro add_key)
  with Cons.IH [of "acc @ [p]"] Cons.prems p show ?case
    by simp
qed simp

lemma fold_Write: "c_sent c \<noteq> None \<Longrightarrow> fold conn_op (map Write ds) c = c\<lparr>c_body := c_body c @ ds\<rparr>"
  by (induction ds arbitrary: c) (auto simp: conn_WriteHeader_def)

lemma serve_writeStoredResponse:
  assumes "header_wf (sr_Headers v)" and "sr_StatusCode v \<noteq> 0"
  shows "serve (writeStoredResponse v) =
    \<lparr>rsp_status = sr_StatusCode v, rsp_header = sr_Headers v, rsp_body = sr_Body v\<rparr>"
proof -
  let ?hs = "concat (map (\<lambda>(k, vs). map (HAdd k) vs) (sr_Headers v))"
  have "list_all is_header_op ?hs"
    by (auto simp: list_all_iff)
  then have "fold conn_op ?hs conn_new = conn_new\<lparr>c_header := sr_Headers v\<rparr>"
    using add_all_headers [of "[]" "sr_Headers v"] assms(1)
    by (simp add: conn_header_ops conn_new_def)
  with assms(2) have "fold conn_op (writeStoredResponse v) conn_new =
      \<lparr>c_header = sr_Headers v, c_sent = Some (sr_StatusCode v, sr_Headers v), c_body = sr_Body v\<rparr>"
    by (simp add: writeStoredResponse_def conn_WriteHeader_def conn_new_def fold_Write)
  then show ?thesis
    by (simp add: serve_def conn_WriteHeader_def)
qed

text \<open>What the client gets through the recorder is what the handler wrote.\<close>

lemma recorder_faithful:
  assumes "headers_first ops" and "WriteHeader 0 \<notin> set ops"
  shows "serve (writeStoredResponse (recorded ops)) = serve ops"
proof -
  define hs where "hs = takeWhile is_header_op ops"
  define ws where "ws = dropWhile is_header_op ops"
  have ops: "ops = hs @ ws" and hs: "list_all is_header_op hs" and ws: "list_all (\<lambda>x. \<not> is_header_op x) ws"
    using assms(1) by (auto simp: hs_def ws_def headers_first_def list_all_iff dest: set_takeWhileD)
  define c where "c = fold conn_op ops conn_new"
  define r where "r = fold rr_op ops newResponseRecorder"
  have "same_reply (fold conn_op hs conn_new) (fold rr_op hs newResponseRecorder)"
    using hs by (simp add: conn_header_ops rr_header_ops same_reply_def conn_new_def newResponseRecorder_def)
  then have same: "same_reply c r"
    unfolding c_def r_def ops fold_append comp_def using ws by (rule same_reply_ops)
  have "header_wf (fold header_op hs [])"
    by (rule header_wf_ops) (simp add: header_wf_def)
  moreover have "c_header (fold conn_op ws x) = c_header x" for x
    using ws by (induction ws arbitrary: x) (auto simp: conn_WriteHeader_def Let_def elim!: is_header_op.elims split: option.split)
  ultimately have hwf: "header_wf (c_header c)"
    using hs by (simp add: c_def ops conn_header_ops conn_new_def)
  have "rr_statusCode (fold rr_op ops x) \<noteq> 0" if "rr_statusCode x \<noteq> 0" for x
    using that assms(2)
  proof (induction ops arbitrary: x)
    case (Cons y ops)
    then show ?case
      by (cases y) (auto simp: rr_WriteHeader_def rr_Write_def Let_def)
  qed simp
  then have "rr_statusCode r \<noteq> 0"
    by (simp add: r_def newResponseRecorder_def)
  moreover have "serve ops =
      \<lparr>rsp_status = rr_statusCode r, rsp_header = c_header c, rsp_body = c_body c\<rparr>"
    using same by (cases "rr_wroteHead r")
      (simp_all add: serve_def c_def [symmetric] conn_WriteHeader_def same_reply_def)
  moreover have "header_wf (sr_Headers (recorded ops))" "sr_StatusCode (recorded ops) = rr_statusCode r"
    "sr_Headers (recorded ops) = c_header c" "sr_Body (recorded ops) = c_body c"
    using hwf same by (simp_all add: recorded_def same_reply_def r_def [symmetric])
  ultimately show ?thesis
    by (simp add: serve_writeStoredResponse)
qed

section \<open>Properties\<close>

text \<open>
  C11.  A retry is answered from the store.  The first request with an idempotency key runs the
  handler; after that, and after any further requests with any keys, a request with the same key,
  method, path and body gets the same response without the handler being run (the state \<open>st2\<close> of
  the agent does not change), until \<open>ttl\<close> after the response was stored.
\<close>

theorem idempotent_retry:
  assumes "is_inv s" and "keyed r" and "mget (is_entries s) (idem_key r) = None"
    and "int (length (is_entries s)) < is_maxKeys s"
    and "IdempotencyMiddleware nexth clk r (Some s, st) = (ops1, is1, st1)"
    and "idem_all nexth rs (is1, st1) = (is2, st2)"
    and "\<forall>(c, q) \<in> set rs. clk_get c \<le> clk_store clk + is_ttl s \<and> clk_cleanup c \<le> clk_store clk + is_ttl s"
    and "keyed r'" and "idem_key r' = idem_key r" and "idem_hash r' = idem_hash r"
    and "clk_get clk' \<le> clk_store clk + is_ttl s"
  shows "\<exists>is3. IdempotencyMiddleware nexth clk' r' (is2, st2) = (ops1, is3, st2)"
proof -
  let ?u = "clk_store clk + is_ttl s"
  obtain ops st' where "nexth (r\<lparr>r_body := NewReader (body_data (r_body r))\<rparr>) st = (ops, st')"
    by (cases "nexth (r\<lparr>r_body := NewReader (body_data (r_body r))\<rparr>) st")
  from first_request [of s r nexth st ops st' clk, OF assms(1-4) this] assms(5) obtain s1 where
    "is1 = Some s1" "ops1 = writeStoredResponse (recorded ops)"
    "idem.holds s1 (idem_key r) (idem_hash r) (recorded ops) ?u"
    by auto
  moreover from idem_all_holds [OF this(3) assms(7), of nexth st1] this(1) assms(6) obtain s2 where
    "is2 = Some s2" "idem.holds s2 (idem_key r) (idem_hash r) (recorded ops) ?u"
    by auto
  ultimately show ?thesis
    using held_request_answered [of s2 r' "idem_hash r" "recorded ops" ?u clk' nexth st2] assms(8-11)
    by auto
qed

definition demo_post :: "string \<Rightarrow> request" where
  "demo_post body = \<lparr>r_method = ''POST'', r_path = ''/inbounds'', r_header = [(''Idempotency-Key'', [''k''])],
     r_body = NewReader body\<rparr>"

abbreviation demo_clocks :: "time \<Rightarrow> clocks" where
  "demo_clocks t \<equiv> \<lparr>clk_get = t, clk_cleanup = t, clk_store = t\<rparr>"

lemma demo_post_keyed: "keyed (demo_post b)" "idem_key (demo_post b) = ''k''"
proof -
  have "CanonicalHeaderKey HeaderIdempotencyKey = ''Idempotency-Key''"
    by (simp add: CanonicalHeaderKey_def HeaderIdempotencyKey_def valid_header_byte_def header_marks_def
        lower_char_def upper_char_def Let_def)
  moreover have "TrimSpace ''k'' = ''k''"
    by (simp add: TrimSpace_def strip_left.simps strip_one_def utf8_spaces_def upt_rec char_of_def)
  ultimately show "idem_key (demo_post b) = ''k''"
    by (simp add: idem_key_def demo_post_def Header_Get_def)
  then show "keyed (demo_post b)"
    by (simp add: keyed_def) (simp add: demo_post_def isMutatingMethod_def NewReader_def)
qed

theorem idempotent_retry_witness:
  "\<exists>ops1 is1 st1 is3.
     IdempotencyMiddleware (\<lambda>r n. ([WriteHeader 201], n + 1)) (demo_clocks 0) (demo_post ''x'')
       (Some NewIdempotencyStore, 0 :: nat) = (ops1, is1, st1) \<and>
     IdempotencyMiddleware (\<lambda>r n. ([WriteHeader 201], n + 1)) (demo_clocks 9) (demo_post ''x'') (is1, st1)
       = (ops1, is3, st1)"
proof -
  obtain ops1 is1 st1 where 1: "IdempotencyMiddleware (\<lambda>r n. ([WriteHeader 201], n + 1)) (demo_clocks 0)
      (demo_post ''x'') (Some NewIdempotencyStore, 0 :: nat) = (ops1, is1, st1)"
    by (metis prod_cases3)
  have "is_inv NewIdempotencyStore"
    by (simp add: NewIdempotencyStore_def is_inv_New)
  from idempotent_retry [OF this demo_post_keyed(1) _ _ 1, of "[]" is1 st1 "demo_post ''x''" "demo_clocks 9"] 1
  show ?thesis
    by (simp add: demo_post_keyed NewIdempotencyStore_def NewIdempotencyStoreWithConfig_def
        DefaultIdempotencyTTL_def DefaultIdempotencyMaxKeys_def Second_def)
qed

text \<open>
  C12.  A key that is reused for another request is refused: while the response to a request is
  held, a request with the same key and a different hash gets status 409 with the code
  \<open>IDEMPOTENCY_CONFLICT\<close>, the handler does not run, and the stored response stays.
\<close>

theorem idempotency_conflict:
  assumes "is_inv s" and "mget (is_entries s) (idem_key r) = Some e" and "keyed r"
    and "idem_hash r \<noteq> ie_requestHash e" and "clk_get clk \<le> ie_expiresAt e"
  shows "\<exists>s' ops. IdempotencyMiddleware nexth clk r (Some s, st) = (ops, Some s', st) \<and>
    rsp_status (serve ops) = 409 \<and>
    rsp_body (serve ops) = [Json (ErrorResponse CodeIdempotencyConflict
      ''idempotency key was reused with a different payload'')] \<and>
    mget (is_entries s') (idem_key r) = Some e"
proof -
  have get: "Get (idem_key r) (clk_get clk) s = (s, Some (ie_requestHash e, ie_response e))"
    using assms(2,5) by (simp add: Get_def)
  with assms show ?thesis
    by (simp add: IdempotencyMiddleware_def idem_begin_keyed writeIdempotencyConflict_def serve_json_reply)
qed

theorem idempotency_conflict_witness:
  "\<exists>s' ops. IdempotencyMiddleware (\<lambda>r n. ([], n + 1)) (demo_clocks 5) (demo_post ''y'')
     (Some \<lparr>is_entries = [(''k'', \<lparr>ie_requestHash = '''', ie_response = recorded [], ie_expiresAt = 9\<rparr>)],
            is_ttl = 9, is_maxKeys = 2\<rparr>, 0 :: nat) = (ops, Some s', 0) \<and>
    rsp_status (serve ops) = 409"
proof -
  have "length (idem_hash (demo_post ''y'')) = 64"
    by (simp add: idem_hash_def computeRequestHash_def)
  then have "idem_hash (demo_post ''y'') \<noteq> ''''"
    by auto
  then show ?thesis
    using idempotency_conflict [of "\<lparr>is_entries = [(''k'', \<lparr>ie_requestHash = '''', ie_response = recorded [],
      ie_expiresAt = 9\<rparr>)], is_ttl = 9, is_maxKeys = 2\<rparr>" "demo_post ''y''" _ "demo_clocks 5"
      "\<lambda>r n. ([], n + 1)" "0 :: nat"]
    by (auto simp: demo_post_keyed is_inv_def mwf_def)
qed

text \<open>
  C13.  Recording is transparent: the client gets from the recorded and rewritten response exactly
  the status, headers and body that the handler would have sent to the connection itself, for
  every handler that sets its headers before it starts to answer and uses no status 0.
\<close>

theorem recorder_transparent:
  assumes "is_inv s" and "keyed r" and "mget (is_entries s) (idem_key r) = None"
    and "nexth (r\<lparr>r_body := NewReader (body_data (r_body r))\<rparr>) st = (ops, st1)"
    and "headers_first ops" and "WriteHeader 0 \<notin> set ops"
  shows "\<exists>ops' is'. IdempotencyMiddleware nexth clk r (Some s, st) = (ops', is', st1) \<and>
    serve ops' = serve ops"
proof -
  have "Get (idem_key r) (clk_get clk) s = (s, None)"
    using assms(3) by (simp add: Get_def)
  moreover have "snd (Store (idem_key r) h v now now' s) \<noteq> Some ErrIdempotencyConflict" for h v now now'
    using assms(1,3) by (simp add: Store_def Let_def mget_cleanup)
  ultimately show ?thesis
    using assms(2,4) recorder_faithful [OF assms(5,6)]
    by (auto simp: IdempotencyMiddleware_def idem_begin_keyed idem_finish_def split: prod.split option.split
        store_error.split) (metis snd_conv)
qed

theorem recorder_transparent_witness:
  "\<exists>ops' is'. IdempotencyMiddleware (\<lambda>r n. (http_NotFound, n + 1)) (demo_clocks 5) (demo_post ''y'')
     (Some NewIdempotencyStore, 0 :: nat) = (ops', is', 1) \<and> serve ops' = serve http_NotFound"
proof -
  have "is_inv NewIdempotencyStore" "mget (is_entries NewIdempotencyStore) k = None" for k
    by (simp_all add: NewIdempotencyStore_def is_inv_New)
      (simp add: NewIdempotencyStoreWithConfig_def)
  then show ?thesis
    by (intro recorder_transparent) (simp_all add: demo_post_keyed http_NotFound_def http_Error_def headers_first_def)
qed

lemma is_maxKeys_Store [simp]: "is_maxKeys (fst (Store k h v now now' s)) = is_maxKeys s"
  by (auto simp: Store_def Let_def cleanupLocked_def split: option.split)

lemma idem_all_inv:
  assumes "is_inv s"
  shows "\<exists>s'. fst (idem_all nexth rs (Some s, st)) = Some s' \<and> is_inv s' \<and> is_maxKeys s' = is_maxKeys s"
  using assms
proof (induction rs arbitrary: s st)
  case (Cons x rs)
  obtain clk r where x: "x = (clk, r)"
    by (cases x)
  obtain s1 s2 where step: "fst (snd (IdempotencyMiddleware nexth clk r (Some s, st))) = Some s2"
    "s1 = s \<or> s1 = fst (Get (idem_key r) (clk_get clk) s)"
    "s2 = s1 \<or> (\<exists>k h v. s2 = fst (Store k h v (clk_cleanup clk) (clk_store clk) s1))"
    using IdempotencyMiddleware_store [of nexth clk r s st] by blast
  have "is_inv s2" "is_maxKeys s2 = is_maxKeys s"
    using step(2,3) Cons.prems is_inv_Get is_inv_Store by auto
  with Cons.IH [of s2 "snd (snd (IdempotencyMiddleware nexth clk r (Some s, st)))"] step(1) x show ?case
    by (cases "snd (IdempotencyMiddleware nexth clk r (Some s, st))") auto
qed auto

text \<open>
  C14.  The store stays bounded: whatever requests come through the middleware, with whatever
  handler and clocks, a store created with \<open>ttl\<close> and \<open>maxKeys\<close> never holds more than \<open>maxKeys\<close>
  entries (the default for a non-positive \<open>maxKeys\<close>), and each key at most once.
\<close>

theorem idempotency_store_bounded:
  "\<exists>s'. fst (idem_all nexth rs (Some (NewIdempotencyStoreWithConfig ttl maxKeys), st)) = Some s' \<and>
     mwf (is_entries s') \<and>
     int (length (is_entries s')) \<le> (if maxKeys \<le> 0 then DefaultIdempotencyMaxKeys else maxKeys)"
  using idem_all_inv [OF is_inv_New, of nexth rs ttl maxKeys st]
  by (auto simp: is_inv_def NewIdempotencyStoreWithConfig_def Let_def split: if_splits)

text \<open>
  Two limits of the middleware.  The request hash does not delimit the path: a line break in the
  path (a decoded \<open>%0A\<close>) can be moved into the body without changing the hash.  And between the
  lookup and the insertion the key is not reserved: of two requests with one key that arrive
  together both run the handler.
\<close>

lemma computeRequestHash_ambiguous:
  "computeRequestHash m (p @ CHR 0x0A # q) b = computeRequestHash m p (q @ CHR 0x0A # b)"
  by (simp add: computeRequestHash_def bytes_of_def)

lemma concurrent_requests_both_run:
  assumes "keyed r" and "mget (is_entries s) (idem_key r) = None"
  shows "\<exists>s1 s2 r'. idem_begin r now (Some s) = (Some s1, Record (idem_key r) (idem_hash r) r') \<and>
    idem_begin r now' (Some s1) = (Some s2, Record (idem_key r) (idem_hash r) r')"
proof -
  have "Get (idem_key r) t s = (s, None)" for t
    using assms(2) by (simp add: Get_def)
  with assms(1) show ?thesis
    by (simp add: idem_begin_keyed)
qed

end
