(* ===== verification/InboundHandler.thy ===== *)
theory InboundHandler
  imports Api
begin

text \<open>
  The REST operations on inbounds, \<open>internal/handlers/inbounds.go\<close>, over any client that keeps the
  contract of the interface \<open>SingBoxClient\<close> (locale \<open>sing_box_client\<close>), and over \<open>ConfigClient\<close>.
\<close>

section \<open>Model\<close>

definition ValidInboundTypes :: "string list" where
  "ValidInboundTypes = [''trojan'', ''vless'', ''vmess'', ''shadowsocks'', ''shadowtls'', ''hysteria2'', ''tuic'']"

definition validateInbound :: "Inbound \<Rightarrow> string option" where
  "validateInbound i =
     (if Tag i = [] then Some ''tag is required''
      else if Type i = [] then Some ''type is required''
      else if Listen i = [] then Some ''listen is required''
      else if Type i \<notin> set ValidInboundTypes
      then Some (''invalid inbound type: '' @ Type i @ '' (must be one of: '' @ Join ValidInboundTypes '', '' @ '')'')
      else if Port i \<noteq> 0 \<and> (Port i < 1 \<or> 65535 < Port i)
      then Some (''invalid port: '' @ Itoa (Port i) @ '' (must be between 1 and 65535)'')
      else None)"

definition json_Inbound :: "Inbound \<Rightarrow> jv" where
  "json_Inbound i = JObj (inbound_fields i)"

definition invalid_body :: "string \<Rightarrow> wop list" where
  "invalid_body err = sendError 400 CodeInvalidRequest (''Invalid request body: '' @ err)"

definition get_failed :: "string \<Rightarrow> wop list" where
  "get_failed err = sendError 500 CodeInternalError (''Failed to get inbounds: '' @ err)"

definition inbound_not_found :: "string \<Rightarrow> wop list" where
  "inbound_not_found tag = sendError 404 CodeInboundNotFound (''Inbound not found: '' @ tag)"

definition ListInbounds :: "'s SingBoxClient \<Rightarrow> 's handler" where
  "ListInbounds C r s =
     (case GetInbounds C s of
        Inl err \<Rightarrow> (get_failed err, s)
      | Inr inbounds \<Rightarrow> (sendSuccess 200 (JArr (map json_Inbound inbounds)), s))"

text \<open>The tag of \<open>/inbounds/{tag}\<close>, \<^term>\<open>None\<close> when it is missing.\<close>

definition path_tag :: "request \<Rightarrow> string option" where
  "path_tag r =
     (let tag = TrimPrefix (r_path r) ''/inbounds/''
      in if tag = [] \<or> tag = r_path r then None else Some tag)"

definition missing_tag :: "wop list" where
  "missing_tag = sendError 400 CodeInvalidRequest ''Missing inbound tag''"

definition GetInbound :: "'s SingBoxClient \<Rightarrow> 's handler" where
  "GetInbound C r s =
     (case path_tag r of
        None \<Rightarrow> (missing_tag, s)
      | Some tag \<Rightarrow>
          (case GetInbounds C s of
             Inl err \<Rightarrow> (get_failed err, s)
           | Inr inbounds \<Rightarrow>
               (case List.find (\<lambda>i. Tag i = tag) inbounds of
                  Some inbound \<Rightarrow> (sendSuccess 200 (json_Inbound inbound), s)
                | None \<Rightarrow> (inbound_not_found tag, s))))"

definition h_CreateInbound :: "json_env \<Rightarrow> 's SingBoxClient \<Rightarrow> 's handler" where
  "h_CreateInbound je C r s =
     (case Decode_Inbound je (r_body r) of
        Inl err \<Rightarrow> (invalid_body err, s)
      | Inr inbound \<Rightarrow>
          (case validateInbound inbound of
             Some err \<Rightarrow> (sendError 400 CodeInvalidRequest err, s)
           | None \<Rightarrow>
               (case GetInbounds C s of
                  Inl err \<Rightarrow> (get_failed err, s)
                | Inr inbounds \<Rightarrow>
                    if list_ex (\<lambda>i. Tag i = Tag inbound) inbounds
                    then (sendError 409 CodeInboundExists (''Inbound already exists: '' @ Tag inbound), s)
                    else case CreateInbound C inbound s of
                           (s', Some err) \<Rightarrow> (sendError 500 CodeInternalError (''Failed to create inbound: '' @ err), s')
                         | (s', None) \<Rightarrow> (sendSuccess 201 (json_Inbound inbound), s'))))"

definition h_UpdateInbound :: "json_env \<Rightarrow> 's SingBoxClient \<Rightarrow> 's handler" where
  "h_UpdateInbound je C r s =
     (case path_tag r of
        None \<Rightarrow> (missing_tag, s)
      | Some tag \<Rightarrow>
          (case Decode_Inbound je (r_body r) of
             Inl err \<Rightarrow> (invalid_body err, s)
           | Inr inbound \<Rightarrow>
               if Tag inbound \<noteq> tag
               then (sendError 400 CodeInvalidRequest ''Tag in request body must match URL parameter'', s)
               else case validateInbound inbound of
                      Some err \<Rightarrow> (sendError 400 CodeInvalidRequest err, s)
                    | None \<Rightarrow>
                        (case GetInbounds C s of
                           Inl err \<Rightarrow> (get_failed err, s)
                         | Inr inbounds \<Rightarrow>
                             if list_ex (\<lambda>i. Tag i = tag) inbounds
                             then case UpdateInbound C inbound s of
                                    (s', Some err) \<Rightarrow>
                                      (sendError 500 CodeInternalError (''Failed to update inbound: '' @ err), s')
                                  | (s', None) \<Rightarrow> (sendSuccess 200 (json_Inbound inbound), s')
                             else (inbound_not_found tag, s))))"

definition h_DeleteInbound :: "'s SingBoxClient \<Rightarrow> 's handler" where
  "h_DeleteInbound C r s =
     (case path_tag r of
        None \<Rightarrow> (missing_tag, s)
      | Some tag \<Rightarrow>
          (case GetInbounds C s of
             Inl err \<Rightarrow> (get_failed err, s)
           | Inr inbounds \<Rightarrow>
               if list_ex (\<lambda>i. Tag i = tag) inbounds
               then case DeleteInbound C tag s of
                      (s', Some err) \<Rightarrow> (sendError 500 CodeInternalError (''Failed to delete inbound: '' @ err), s')
                    | (s', None) \<Rightarrow> ([WriteHeader 204], s')
               else (inbound_not_found tag, s)))"

section \<open>Validation\<close>

text \<open>What a valid inbound is; \<open>port 0\<close> stands for a port that was not given.\<close>

lemma validateInbound_None:
  "validateInbound i = None \<longleftrightarrow>
     Tag i \<noteq> [] \<and> Listen i \<noteq> [] \<and> Type i \<in> set ValidInboundTypes \<and> 0 \<le> Port i \<and> Port i \<le> 65535"
  by (auto simp: validateInbound_def ValidInboundTypes_def)

section \<open>The abstract resource\<close>

text \<open>
  Seen from outside, the inbounds are a list of tags, and each request has a status and an effect
  on the list.
\<close>

definition spec_GetInbound :: "request \<Rightarrow> string list \<Rightarrow> int \<times> string list" where
  "spec_GetInbound r tags =
     (case path_tag r of
        None \<Rightarrow> (400, tags)
      | Some tag \<Rightarrow> (if tag \<in> set tags then 200 else 404, tags))"

definition spec_CreateInbound :: "json_env \<Rightarrow> request \<Rightarrow> string list \<Rightarrow> int \<times> string list" where
  "spec_CreateInbound je r tags =
     (case Decode_Inbound je (r_body r) of
        Inl err \<Rightarrow> (400, tags)
      | Inr i \<Rightarrow>
          if validateInbound i \<noteq> None then (400, tags)
          else if Tag i \<in> set tags then (409, tags)
          else (201, tags @ [Tag i]))"

definition spec_UpdateInbound :: "json_env \<Rightarrow> request \<Rightarrow> string list \<Rightarrow> int \<times> string list" where
  "spec_UpdateInbound je r tags =
     (case (path_tag r, Decode_Inbound je (r_body r)) of
        (Some tag, Inr i) \<Rightarrow>
          if Tag i \<noteq> tag \<or> validateInbound i \<noteq> None then (400, tags)
          else (if tag \<in> set tags then 200 else 404, tags)
      | _ \<Rightarrow> (400, tags))"

definition spec_DeleteInbound :: "request \<Rightarrow> string list \<Rightarrow> int \<times> string list" where
  "spec_DeleteInbound r tags =
     (case path_tag r of
        None \<Rightarrow> (400, tags)
      | Some tag \<Rightarrow> if tag \<in> set tags then (204, remove1 tag tags) else (404, tags))"

text \<open>The handlers over a lawful client implement the resource.\<close>

definition implements ::
  "'s SingBoxClient \<Rightarrow> ('s \<Rightarrow> bool) \<Rightarrow> (wop list \<times> 's) \<Rightarrow> (int \<times> string list) \<Rightarrow> bool" where
  "implements C ok result spec \<longleftrightarrow>
     status (fst result) = fst spec \<and> ok (snd result) \<and>
     (\<exists>is. GetInbounds C (snd result) = Inr is \<and> map Tag is = snd spec)"

lemma implementsI:
  "status ops = code \<Longrightarrow> ok s \<Longrightarrow> GetInbounds C s = Inr is \<Longrightarrow> map Tag is = tags \<Longrightarrow> implements C ok (ops, s) (code, tags)"
  by (simp add: implements_def)

lemmas reply_defs = missing_tag_def get_failed_def inbound_not_found_def invalid_body_def

lemma ex_tag: "list_ex (\<lambda>i. Tag i = tag) is \<longleftrightarrow> tag \<in> set (map Tag is)"
  by (auto simp: list_ex_iff)

lemma map_Tag_remove1: "tag \<notin> Tag ` set a \<Longrightarrow> Tag x = tag \<Longrightarrow> map Tag (a @ b) = remove1 tag (map Tag (a @ x # b))"
  by (simp add: remove1_append)

context sing_box_client
begin

lemma GetInbound_implements:
  assumes "ok s" and "GetInbounds C s = Inr is"
  shows "implements C ok (GetInbound C r s) (spec_GetInbound r (map Tag is))"
proof (cases "path_tag r")
  case None
  with assms show ?thesis
    by (simp add: GetInbound_def spec_GetInbound_def implementsI reply_defs)
next
  case (Some tag)
  show ?thesis
  proof (cases "List.find (\<lambda>i. Tag i = tag) is")
    case None
    then have "tag \<notin> Tag ` set is"
      by (auto simp: find_None_iff)
    with Some None assms show ?thesis
      by (simp add: GetInbound_def spec_GetInbound_def implementsI reply_defs)
  next
    case (Some i)
    then have "tag \<in> Tag ` set is"
      by (auto simp: find_Some_iff)
    with Some \<open>path_tag r = Some tag\<close> assms show ?thesis
      by (simp add: GetInbound_def spec_GetInbound_def implementsI)
  qed
qed

lemma CreateInbound_implements:
  assumes "ok s" and "GetInbounds C s = Inr is" 
    and "\<And>i. Decode_Inbound je (r_body r) = Inr i \<Longrightarrow> validateInbound i = None \<Longrightarrow> fits i"
  shows "implements C ok (h_CreateInbound je C r s) (spec_CreateInbound je r (map Tag is))"
proof (cases "Decode_Inbound je (r_body r)")
  case (Inl err)
  with assms show ?thesis
    by (simp add: h_CreateInbound_def spec_CreateInbound_def implementsI reply_defs)
next
  case (Inr i)
  show ?thesis
  proof (cases "validateInbound i = None \<and> Tag i \<notin> Tag ` set is")
    case True
    obtain s' i' where "CreateInbound C i s = (s', None)" "ok s'" "GetInbounds C s' = Inr (is @ [i'])" "same_inbound i' i"
      using create_inbound [OF assms(1,2) assms(3) [OF Inr]] True by auto
    with True Inr assms(1,2) show ?thesis
      by (auto simp: h_CreateInbound_def spec_CreateInbound_def ex_tag same_inbound_def intro!: implementsI)
  next
    case False
    with Inr assms(1,2) show ?thesis
      by (auto simp: h_CreateInbound_def spec_CreateInbound_def ex_tag intro!: implementsI split: option.split)
  qed
qed

lemma UpdateInbound_implements:
  assumes "ok s" and "GetInbounds C s = Inr is" 
    and "\<And>i. Decode_Inbound je (r_body r) = Inr i \<Longrightarrow> validateInbound i = None \<Longrightarrow> fits i"
  shows "implements C ok (h_UpdateInbound je C r s) (spec_UpdateInbound je r (map Tag is))"
proof (cases "\<exists>tag i. path_tag r = Some tag \<and> Decode_Inbound je (r_body r) = Inr i \<and> Tag i = tag \<and>
    validateInbound i = None \<and> tag \<in> Tag ` set is")
  case True
  then obtain i where i: "path_tag r = Some (Tag i)" "Decode_Inbound je (r_body r) = Inr i" "validateInbound i = None"
    "Tag i \<in> Tag ` set is"
    by blast
  obtain s' a x x' b where "UpdateInbound C i s = (s', None)" "ok s'" "is = a @ x # b" "Tag x = Tag i"
    "GetInbounds C s' = Inr (a @ x' # b)" "updated_inbound i x x'"
    using update_inbound [OF assms(1,2) assms(3) [OF i(2,3)] i(4)] by blast
  with i assms(1,2) show ?thesis
    by (auto simp: h_UpdateInbound_def spec_UpdateInbound_def ex_tag updated_inbound_def intro!: implementsI)
next
  case False
  with assms(1,2) show ?thesis
    by (auto simp: h_UpdateInbound_def spec_UpdateInbound_def ex_tag reply_defs intro!: implementsI
        split: option.split sum.split)
qed

lemma DeleteInbound_implements:
  assumes "ok s" and "GetInbounds C s = Inr is"
  shows "implements C ok (h_DeleteInbound C r s) (spec_DeleteInbound r (map Tag is))"
proof (cases "\<exists>tag. path_tag r = Some tag \<and> tag \<in> Tag ` set is")
  case True
  then obtain tag where tag: "path_tag r = Some tag" "tag \<in> Tag ` set is"
    by blast
  obtain s' a x b where *: "DeleteInbound C tag s = (s', None)" "ok s'" "is = a @ x # b" "Tag x = tag"
    "tag \<notin> Tag ` set a" "GetInbounds C s' = Inr (a @ b)"
    using delete_inbound [OF assms tag(2)] by blast
  then have "map Tag (a @ b) = remove1 tag (map Tag is)"
    by (metis map_Tag_remove1)
  with tag * assms show ?thesis
    by (auto simp: h_DeleteInbound_def spec_DeleteInbound_def ex_tag intro!: implementsI)
next
  case False
  with assms show ?thesis
    by (auto simp: h_DeleteInbound_def spec_DeleteInbound_def ex_tag reply_defs intro!: implementsI split: option.split)
qed

end

section \<open>The handlers over the configuration file\<close>

lemma decoded_fits:
  assumes "Decode_Inbound je b = Inr i" and "validateInbound i = None" and "mkeys (Options i) \<inter> set inbound_keys = {}"
  shows "inbound_fits i"
  using assms Decode_Inbound_wf [OF assms(1)] by (simp add: inbound_fits_def validateInbound_None)


definition demo_client :: client where
  "demo_client = \<lparr>configPath = ''config.json'', disk = demo_fs, c_io = demo_io, c_oserr = [], c_uuid = ''x''\<rparr>"

lemma loaded_demo: "loaded demo_client = Inr demo_cfg"
  by (simp add: loaded_def demo_client_def load_demo)

lemma canonical_demo: "canonical (JObj demo_cfg)"
  by code_simp

lemma client_ok_demo: "client_ok demo_client"
  using loaded_demo jwf_demo canonical_demo
  by (simp add: client_ok_def) (simp add: demo_client_def io_ok_demo, simp add: demo_io_def demo_fs_def)

lemma demo_listed: "GetInbounds config_client demo_client = Inr [inboundFromMap [(''tag'', JStr ''a''), (''users'', JArr [])]]"
  using get_simps(1) [OF loaded_demo] by (simp add: demo_inbounds)


end
