(* ===== verification/UserHandler.thy ===== *)
theory UserHandler
  imports InboundHandler
begin

text \<open>
  The REST operations on users, \<open>internal/handlers/users.go\<close>.  The client is optional
  (\<open>h.singbox == nil\<close>); \<open>fresh\<close> is the value of \<open>uuid.New().String()\<close>.
\<close>

section \<open>Requests\<close>

record UserRequest =
  ur_SubID :: string
  ur_UUID :: string
  ur_Email :: string
  ur_Enabled :: "bool option"
  ur_Flow :: string
  ur_LimitIP :: "int option"
  ur_UploadLimit :: uint64
  ur_DownloadLimit :: uint64

definition zero_UserRequest :: UserRequest where
  "zero_UserRequest = \<lparr>ur_SubID = [], ur_UUID = [], ur_Email = [], ur_Enabled = None, ur_Flow = [], ur_LimitIP = None,
     ur_UploadLimit = 0, ur_DownloadLimit = 0\<rparr>"

definition dec_UserRequest_field :: "json_env \<Rightarrow> string \<Rightarrow> jv \<Rightarrow> UserRequest \<Rightarrow> string + UserRequest" where
  "dec_UserRequest_field je k v r =
     (if names k ''subID'' then bindE (dec_string je (ur_SubID r) v) (\<lambda>x. Inr (r\<lparr>ur_SubID := x\<rparr>))
      else if names k ''uuid'' then bindE (dec_string je (ur_UUID r) v) (\<lambda>x. Inr (r\<lparr>ur_UUID := x\<rparr>))
      else if names k ''email'' then bindE (dec_string je (ur_Email r) v) (\<lambda>x. Inr (r\<lparr>ur_Email := x\<rparr>))
      else if names k ''enabled'' then bindE (dec_ptr (dec_bool je False) v) (\<lambda>x. Inr (r\<lparr>ur_Enabled := x\<rparr>))
      else if names k ''flow'' then bindE (dec_string je (ur_Flow r) v) (\<lambda>x. Inr (r\<lparr>ur_Flow := x\<rparr>))
      else if names k ''limitIp'' then bindE (dec_ptr (dec_int je 0) v) (\<lambda>x. Inr (r\<lparr>ur_LimitIP := x\<rparr>))
      else if names k ''uploadLimit'' then bindE (dec_uint64 je (ur_UploadLimit r) v) (\<lambda>x. Inr (r\<lparr>ur_UploadLimit := x\<rparr>))
      else if names k ''downloadLimit''
      then bindE (dec_uint64 je (ur_DownloadLimit r) v) (\<lambda>x. Inr (r\<lparr>ur_DownloadLimit := x\<rparr>))
      else Inr r)"

definition Decode_UserRequest :: "json_env \<Rightarrow> body \<Rightarrow> string + UserRequest" where
  "Decode_UserRequest je b = bindE (je_parse je b) (dec_struct je (dec_UserRequest_field je) zero_UserRequest)"

definition Validate :: "UserRequest \<Rightarrow> string option" where
  "Validate r =
     (if ur_SubID r = [] then Some ''subId is required''
      else if ur_Email r \<noteq> [] \<and> \<not> Contains (ur_Email r) ''@'' then Some ''invalid email format''
      else case ur_LimitIP r of
             Some n \<Rightarrow> if n < 0 then Some ''limitIp cannot be negative'' else None
           | None \<Rightarrow> None)"

definition ToUser :: "string \<Rightarrow> UserRequest \<Rightarrow> string \<Rightarrow> User" where
  "ToUser fresh r inboundTag =
     \<lparr>SubID = ur_SubID r, UUID = (if ur_UUID r = [] then fresh else ur_UUID r), InboundTag = inboundTag, Email = ur_Email r,
      Enabled = (case ur_Enabled r of Some b \<Rightarrow> b | None \<Rightarrow> True), Flow = ur_Flow r,
      LimitIP = (case ur_LimitIP r of Some n \<Rightarrow> n | None \<Rightarrow> 0), UploadLimit = ur_UploadLimit r,
      DownloadLimit = ur_DownloadLimit r, ResetAt = None\<rparr>"

definition writeError :: "int \<Rightarrow> string \<Rightarrow> string \<Rightarrow> wop list" where
  "writeError code errCode message = json_reply code (error_body errCode message)"

definition writeSuccess :: "jv \<Rightarrow> wop list" where
  "writeSuccess data = json_reply 200 (success_body data)"

definition writeCreated :: "jv \<Rightarrow> wop list" where
  "writeCreated data = json_reply 201 (success_body data)"

definition json_User :: "User \<Rightarrow> jv" where
  "json_User u = JObj (user_fields u)"

section \<open>Paths\<close>

definition extractInboundTag :: "string \<Rightarrow> string" where
  "extractInboundTag path =
     (let parts = Split path CHR ''/''
      in if 3 \<le> length parts \<and> parts ! 1 = ''inbounds'' then parts ! 2 else [])"

definition extractInboundTagAndSubID :: "string \<Rightarrow> string \<times> string" where
  "extractInboundTagAndSubID path =
     (let parts = Split path CHR ''/''
      in if 5 \<le> length parts \<and> parts ! 1 = ''inbounds'' \<and> parts ! 3 = ''users'' \<and> parts ! 2 \<noteq> [] \<and> parts ! 4 \<noteq> []
         then (parts ! 2, parts ! 4) else ([], []))"

section \<open>Handlers\<close>

definition inboundExists :: "'s SingBoxClient \<Rightarrow> string \<Rightarrow> 's \<Rightarrow> bool" where
  "inboundExists C inboundTag s =
     (case GetInbounds C s of Inl err \<Rightarrow> False | Inr inbounds \<Rightarrow> list_ex (\<lambda>i. Tag i = inboundTag) inbounds)"

definition mapClientError :: "string \<Rightarrow> wop list" where
  "mapClientError message =
     (if Contains message ''already exists'' then writeError 409 ''USER_EXISTS'' message
      else if Contains message ''not found'' then writeError 404 ''USER_NOT_FOUND'' message
      else writeError 500 ''INTERNAL_ERROR'' message)"

definition no_client :: "wop list" where
  "no_client = writeError 503 ''INTERNAL_ERROR'' ''sing-box client not configured''"

definition no_inbound :: "string \<Rightarrow> wop list" where
  "no_inbound inboundTag = writeError 404 ''INBOUND_NOT_FOUND'' (''inbound '' @ inboundTag @ '' not found'')"

definition list_failed :: "string \<Rightarrow> wop list" where
  "list_failed err = writeError 500 ''INTERNAL_ERROR'' (''failed to list users: '' @ err)"

definition no_user :: "string \<Rightarrow> wop list" where
  "no_user subID = writeError 404 ''USER_NOT_FOUND'' (''user '' @ subID @ '' not found'')"

text \<open>The guards that open the handlers of one inbound, and of one user of an inbound.\<close>

definition with_inbound :: "'s SingBoxClient option \<Rightarrow> ('s SingBoxClient \<Rightarrow> string \<Rightarrow> 's handler) \<Rightarrow> 's handler" where
  "with_inbound singbox f r s =
     (case singbox of
        None \<Rightarrow> (no_client, s)
      | Some C \<Rightarrow>
          let inboundTag = extractInboundTag (r_path r)
          in if inboundTag = [] then (writeError 400 ''INVALID_REQUEST'' ''inbound tag is required'', s)
             else if \<not> inboundExists C inboundTag s then (no_inbound inboundTag, s)
             else f C inboundTag r s)"

definition with_user ::
  "'s SingBoxClient option \<Rightarrow> ('s SingBoxClient \<Rightarrow> string \<Rightarrow> string \<Rightarrow> 's handler) \<Rightarrow> 's handler" where
  "with_user singbox f r s =
     (case singbox of
        None \<Rightarrow> (no_client, s)
      | Some C \<Rightarrow>
          let (inboundTag, subID) = extractInboundTagAndSubID (r_path r)
          in if inboundTag = [] \<or> subID = [] then (writeError 400 ''INVALID_REQUEST'' ''inbound tag and subID are required'', s)
             else if \<not> inboundExists C inboundTag s then (no_inbound inboundTag, s)
             else f C inboundTag subID r s)"

definition ListUsers :: "'s SingBoxClient option \<Rightarrow> 's handler" where
  "ListUsers singbox = with_inbound singbox (\<lambda>C inboundTag r s.
     case GetUsers C s of
       Inl err \<Rightarrow> (list_failed err, s)
     | Inr users \<Rightarrow> (writeSuccess (JArr (map json_User (filter (\<lambda>u. InboundTag u = inboundTag) users))), s))"

definition GetUser :: "'s SingBoxClient option \<Rightarrow> 's handler" where
  "GetUser singbox = with_user singbox (\<lambda>C inboundTag subID r s.
     case GetUsers C s of
       Inl err \<Rightarrow> (list_failed err, s)
     | Inr users \<Rightarrow>
         (case List.find (\<lambda>u. InboundTag u = inboundTag \<and> SubID u = subID) users of
            Some user \<Rightarrow> (writeSuccess (json_User user), s)
          | None \<Rightarrow> (no_user subID, s)))"

definition h_CreateUser :: "json_env \<Rightarrow> string \<Rightarrow> 's SingBoxClient option \<Rightarrow> 's handler" where
  "h_CreateUser je fresh singbox = with_inbound singbox (\<lambda>C inboundTag r s.
     case Decode_UserRequest je (r_body r) of
       Inl err \<Rightarrow> (writeError 400 ''INVALID_REQUEST'' (''invalid request body: '' @ err), s)
     | Inr req \<Rightarrow>
         (case Validate req of
            Some err \<Rightarrow> (writeError 400 ''INVALID_REQUEST'' err, s)
          | None \<Rightarrow>
              let user = ToUser fresh req inboundTag
              in case CreateUser C user s of
                   (s', Some err) \<Rightarrow> (mapClientError err, s')
                 | (s', None) \<Rightarrow> (writeCreated (json_User user), s')))"

text \<open>An update without a UUID takes over the one of the listed user.\<close>

definition existing_UUID :: "User list \<Rightarrow> string \<Rightarrow> string \<Rightarrow> string" where
  "existing_UUID users inboundTag subID =
     (case List.find (\<lambda>u. InboundTag u = inboundTag \<and> SubID u = subID) users of Some u \<Rightarrow> UUID u | None \<Rightarrow> [])"

definition h_UpdateUser :: "json_env \<Rightarrow> string \<Rightarrow> 's SingBoxClient option \<Rightarrow> 's handler" where
  "h_UpdateUser je fresh singbox = with_user singbox (\<lambda>C inboundTag subID r s.
     case Decode_UserRequest je (r_body r) of
       Inl err \<Rightarrow> (writeError 400 ''INVALID_REQUEST'' (''invalid request body: '' @ err), s)
     | Inr req \<Rightarrow>
         if ur_SubID req \<noteq> [] \<and> ur_SubID req \<noteq> subID
         then (writeError 400 ''INVALID_REQUEST'' ''subId in body must match subID in path'', s)
         else
           let req = req\<lparr>ur_SubID := subID\<rparr>
           in case Validate req of
                Some err \<Rightarrow> (writeError 400 ''INVALID_REQUEST'' err, s)
              | None \<Rightarrow>
                  (case (if ur_UUID req = [] then map_sum id (\<lambda>users. req\<lparr>ur_UUID := existing_UUID users inboundTag subID\<rparr>) (GetUsers C s)
                         else Inr req) of
                     Inl err \<Rightarrow> (list_failed err, s)
                   | Inr req \<Rightarrow>
                       let user = ToUser fresh req inboundTag
                       in case UpdateUser C user s of
                            (s', Some err) \<Rightarrow> (mapClientError err, s')
                          | (s', None) \<Rightarrow> (writeSuccess (json_User user), s')))"

definition h_DeleteUser :: "'s SingBoxClient option \<Rightarrow> 's handler" where
  "h_DeleteUser singbox = with_user singbox (\<lambda>C inboundTag subID r s.
     case GetUsers C s of
       Inl err \<Rightarrow> (list_failed err, s)
     | Inr users \<Rightarrow>
         if list_ex (\<lambda>u. InboundTag u = inboundTag \<and> SubID u = subID) users
         then case DeleteUser C subID s of
                (s', Some err) \<Rightarrow> (mapClientError err, s')
              | (s', None) \<Rightarrow> ([WriteHeader 204], s')
         else (no_user subID, s))"

section \<open>What the requests achieve\<close>

lemma status_replies [simp]:
  "status (writeError code c msg) = code" "status (writeSuccess v) = 200" "status (writeCreated v) = 201"
  by (simp_all add: writeError_def writeSuccess_def writeCreated_def)

lemma status_mapClientError [simp]: "status (mapClientError msg) \<noteq> 201" "status (mapClientError msg) \<noteq> 204"
  by (simp_all add: mapClientError_def)

lemmas user_reply_defs = no_client_def no_inbound_def list_failed_def no_user_def

lemma Validate_SubID: "Validate req = None \<Longrightarrow> ur_SubID req \<noteq> []"
  by (auto simp: Validate_def split: if_splits)

text \<open>What a reply says about the way through the handler.\<close>

lemma h_CreateUser_201:
  assumes "h_CreateUser je fresh (Some C) r s = (ops, s')" and "status ops = 201"
  obtains req where "Decode_UserRequest je (r_body r) = Inr req" and "Validate req = None"
    and "extractInboundTag (r_path r) \<noteq> []" and "inboundExists C (extractInboundTag (r_path r)) s"
    and "CreateUser C (ToUser fresh req (extractInboundTag (r_path r))) s = (s', None)"
  using assms
  by (auto simp: h_CreateUser_def with_inbound_def Let_def user_reply_defs
      split: sum.splits option.splits prod.splits if_splits)

lemma h_DeleteUser_204:
  assumes "h_DeleteUser (Some C) r s = (ops, s')" and "status ops = 204"
    and "extractInboundTagAndSubID (r_path r) = (tag, sub)"
  shows "tag \<noteq> [] \<and> sub \<noteq> [] \<and> inboundExists C tag s \<and> DeleteUser C sub s = (s', None)"
  using assms
  by (auto simp: h_DeleteUser_def with_user_def Let_def user_reply_defs
      split: sum.splits option.splits prod.splits if_splits)

lemma with_user_enter:
  assumes "extractInboundTagAndSubID (r_path r) = (tag, sub)" and "tag \<noteq> []" and "sub \<noteq> []" and "inboundExists C tag s"
  shows "with_user (Some C) f r s = f C tag sub r s"
  using assms by (simp add: with_user_def)

lemma find_present: "x \<in> set xs \<Longrightarrow> P x \<Longrightarrow> \<exists>y. List.find P xs = Some y \<and> P y"
  by (cases "List.find P xs") (auto simp: find_None_iff find_Some_iff)

lemma find_absent: "\<forall>x \<in> set xs. \<not> P x \<Longrightarrow> List.find P xs = None"
  by (simp add: find_None_iff)

context sing_box_client
begin

lemma inboundExists_tags: "GetInbounds C s = Inr is \<Longrightarrow> inboundExists C tag s \<longleftrightarrow> tag \<in> set (map Tag is)"
  by (simp add: inboundExists_def ex_tag)

lemma exists_kept:
  assumes "ok s" and "inboundExists C tag s"
    and "CreateUser C u s = (s', None) \<or> UpdateUser C u s = (s', None) \<or> DeleteUser C sid s = (s', None)"
  shows "inboundExists C tag s'"
proof -
  obtain "is" where gets: "GetInbounds C s = Inr is"
    using get_inbounds [OF assms(1)] by blast
  from users_keep_tags [OF assms(1) gets assms(3)] obtain is' where "GetInbounds C s' = Inr is'" "map Tag is' = map Tag is"
    by blast
  with assms(2) gets show ?thesis
    by (simp only: inboundExists_tags)
qed

lemma created_user_found:
  assumes "ok s" and run: "h_CreateUser je fresh (Some C) r s = (ops, s')" and st: "status ops = 201"
    and req: "Decode_UserRequest je (r_body r) = Inr req"
    and path: "extractInboundTagAndSubID (r_path rg) = (extractInboundTag (r_path r), ur_SubID req)"
  shows "ok s' \<and> (\<exists>u. GetUser (Some C) rg s' = (writeSuccess (json_User u), s') \<and> SubID u = ur_SubID req \<and>
    InboundTag u = extractInboundTag (r_path r))"
proof -
  let ?tag = "extractInboundTag (r_path r)" and ?u = "ToUser fresh req (extractInboundTag (r_path r))"
  have tag: "?tag \<noteq> []" "inboundExists C ?tag s" and valid: "Validate req = None" and crt: "CreateUser C ?u s = (s', None)"
    using h_CreateUser_201 [OF run st] req by auto
  obtain us where us: "GetUsers C s = Inr us"
    using get_users [OF assms(1)] by blast
  have sub: "SubID ?u = ur_SubID req" "InboundTag ?u = ?tag" "ur_SubID req \<noteq> []"
    using Validate_SubID [OF valid] by (simp_all add: ToUser_def)
  obtain a u' b where new: "ok s'" "GetUsers C s' = Inr (a @ u' # b)" "SubID u' = ur_SubID req" "InboundTag u' = ?tag"
    using create_user [OF assms(1) us, of ?u] crt sub by auto
  obtain u where u: "List.find (\<lambda>u. InboundTag u = ?tag \<and> SubID u = ur_SubID req) (a @ u' # b) = Some u"
    "InboundTag u = ?tag" "SubID u = ur_SubID req"
    using find_present [of u' "a @ u' # b" "\<lambda>u. InboundTag u = ?tag \<and> SubID u = ur_SubID req"] new by auto
  have "inboundExists C ?tag s'"
    using exists_kept [OF assms(1) tag(2)] crt by blast
  then have "GetUser (Some C) rg s' = (writeSuccess (json_User u), s')"
    using with_user_enter [OF path tag(1) sub(3), of C s'] u(1) new(2) by (simp add: GetUser_def)
  with new(1) u(2,3) show ?thesis
    by blast
qed

lemma deleted_user_gone:
  assumes "ok s" and run: "h_DeleteUser (Some C) r s = (ops, s')" and st: "status ops = 204"
    and path: "extractInboundTagAndSubID (r_path r) = (tag, sub)"
  shows "ok s' \<and> (\<exists>us us'. GetUsers C s = Inr us \<and> GetUsers C s' = Inr us' \<and> set us' \<subseteq> {u \<in> set us. SubID u \<noteq> sub}) \<and>
    status (fst (GetUser (Some C) r s')) = 404"
proof -
  have tag: "tag \<noteq> []" "sub \<noteq> []" "inboundExists C tag s" and del: "DeleteUser C sub s = (s', None)"
    using h_DeleteUser_204 [OF run st path] by auto
  obtain us where us: "GetUsers C s = Inr us"
    using get_users [OF assms(1)] by blast
  with del obtain us' where us': "ok s'" "GetUsers C s' = Inr us'" "set us' \<subseteq> {u \<in> set us. SubID u \<noteq> sub}"
    using delete_user [OF assms(1) us, of sub] by auto
  have "inboundExists C tag s'"
    using exists_kept [OF assms(1) tag(3)] del by blast
  moreover have "List.find (\<lambda>u. InboundTag u = tag \<and> SubID u = sub) us' = None"
    using us'(3) by (intro find_absent) auto
  ultimately have "GetUser (Some C) r s' = (no_user sub, s')"
    using with_user_enter [OF path tag(1,2), of C s'] us'(2) by (simp add: GetUser_def)
  with us us' show ?thesis
    by (auto simp: user_reply_defs)
qed

end

section \<open>Users over the configuration file\<close>

text \<open>
  C30.  A created user can be fetched.  When \<open>POST /inbounds/{tag}/users\<close> over \<open>ConfigClient\<close> answers 201, then a following
  \<open>GET\<close> for the subscription id under the same inbound answers 200 with a user of that id and inbound.
\<close>

theorem created_user_is_listed:
  assumes "client_ok c" and "h_CreateUser je fresh (Some config_client) r c = (ops, c')" and "status ops = 201"
    and "Decode_UserRequest je (r_body r) = Inr req"
    and "extractInboundTagAndSubID (r_path rg) = (extractInboundTag (r_path r), ur_SubID req)"
  shows "client_ok c' \<and> (\<exists>u. GetUser (Some config_client) rg c' = (writeSuccess (json_User u), c') \<and> SubID u = ur_SubID req \<and>
    InboundTag u = extractInboundTag (r_path r))"
  using assms by (rule cfg.created_user_found)

text \<open>
  C31.  \<open>DELETE /inbounds/{tag}/users/{subId}\<close> deletes the subscription id from all inbounds.  When it answers
  204, no user that is listed afterwards, in whatever inbound, has the id, nothing else appears, and a \<open>GET\<close> for the
  same user answers 404.  The API description says that the user is deleted from the inbound of the path.
\<close>

theorem deleted_user_is_gone:
  assumes "client_ok c" and "h_DeleteUser (Some config_client) r c = (ops, c')" and "status ops = 204"
    and "extractInboundTagAndSubID (r_path r) = (tag, sub)"
  shows "client_ok c' \<and>
    (\<exists>us us'. GetUsers config_client c = Inr us \<and> GetUsers config_client c' = Inr us' \<and>
      set us' \<subseteq> {u \<in> set us. SubID u \<noteq> sub}) \<and>
    status (fst (GetUser (Some config_client) r c')) = 404"
  using assms by (rule cfg.deleted_user_gone)

text \<open>Two inbounds with a user of one subscription id; the first is addressed.\<close>

definition two_inbounds :: jobj where
  "two_inbounds =
     [(''inbounds'', JArr [JObj [(''tag'', JStr ''a''), (''type'', JStr ''vless''), (''users'', JArr [JObj [(''name'', JStr ''u'')]])],
                        JObj [(''tag'', JStr ''b''), (''type'', JStr ''vless''), (''users'', JArr [JObj [(''name'', JStr ''u'')]])]])]"

definition two_client :: client where
  "two_client = demo_client\<lparr>disk := [(''config.json'', Doc (JObj two_inbounds))]\<rparr>"

lemma loaded_two: "loaded two_client = Inr two_inbounds"
  by (simp add: loaded_def two_client_def demo_client_def loadRootConfig_def two_inbounds_def)

lemma client_ok_two: "client_ok two_client"
proof -
  have "jwf (JObj two_inbounds)"
    by (simp add: two_inbounds_def jwf_JObj jwf_JArr mwf_def)
  moreover have "canonical (JObj two_inbounds)"
    by code_simp
  ultimately show ?thesis
    using loaded_two
    by (simp add: client_ok_def) (simp add: two_client_def demo_client_def io_ok_demo, simp add: demo_io_def)
qed

lemma two_listed:
  "GetInbounds config_client two_client =
     Inr (map inboundFromMap (objects (case mget two_inbounds ''inbounds'' of Some (JArr vs) \<Rightarrow> vs)))"
  by (use get_simps(1) [OF loaded_two] in \<open>simp add: getInbounds_def arr_at_def two_inbounds_def\<close>)

theorem deleted_user_is_gone_witness:
  "\<exists>ops c'. h_DeleteUser (Some config_client)
       \<lparr>r_method = ''DELETE'', r_path = ''/inbounds/a/users/u'', r_header = [], r_body = NewReader []\<rparr> two_client = (ops, c') \<and>
     status ops = 204 \<and> GetUsers config_client c' = Inr []"
proof -
  let ?r = "\<lparr>r_method = ''DELETE'', r_path = ''/inbounds/a/users/u'', r_header = [], r_body = NewReader []\<rparr>"
  have path: "extractInboundTagAndSubID (r_path ?r) = (''a'', ''u'')"
    by (simp add: extractInboundTagAndSubID_def)
  have users: "GetUsers config_client two_client = Inr (users_of two_inbounds)"
    by (rule get_simps(2) [OF loaded_two])
  have all_u: "\<forall>u \<in> set (users_of two_inbounds). SubID u = ''u''"
    by code_simp
  have ex: "\<exists>u \<in> set (users_of two_inbounds). InboundTag u = ''a'' \<and> SubID u = ''u''"
    by code_simp
  obtain c' where del: "DeleteUser config_client ''u'' two_client = (c', None)"
    using client_DeleteUser [OF client_ok_two users, of "''u''"] ex all_u by blast
  have "inboundExists config_client ''a'' two_client"
    unfolding cfg.inboundExists_tags [OF two_listed] by (simp add: two_inbounds_def getString_def)
  then have run: "h_DeleteUser (Some config_client) ?r two_client = ([WriteHeader 204], c')"
    using ex del users with_user_enter [OF path, of config_client two_client] by (auto simp: h_DeleteUser_def list_ex_iff)
  obtain us us' where "GetUsers config_client two_client = Inr us" "GetUsers config_client c' = Inr us'"
    "set us' \<subseteq> {u \<in> set us. SubID u \<noteq> ''u''}"
    using deleted_user_is_gone [OF client_ok_two run _ path] by auto
  then have "GetUsers config_client c' = Inr []"
    using users all_u by (cases us') auto
  with run show ?thesis
    by auto
qed

theorem created_user_is_listed_witness:
  "\<exists>ops c' u. h_CreateUser \<lparr>je_parse = \<lambda>b. Inr (JObj [(''subID'', JStr ''u1'')]), je_type_error = \<lambda>v. [], je_time = \<lambda>t. Inl []\<rparr> ''x'' (Some config_client)
       \<lparr>r_method = ''POST'', r_path = ''/inbounds/a/users'', r_header = [], r_body = NewReader []\<rparr> demo_client = (ops, c') \<and>
     GetUser (Some config_client) \<lparr>r_method = ''GET'', r_path = ''/inbounds/a/users/u1'', r_header = [], r_body = NewReader []\<rparr> c' =
       (writeSuccess (json_User u), c') \<and> SubID u = ''u1''"
proof -
  let ?je = "\<lparr>je_parse = \<lambda>b. Inr (JObj [(''subID'', JStr ''u1'')]), je_type_error = \<lambda>v. [], je_time = \<lambda>t. Inl []\<rparr> :: json_env"
  let ?r = "\<lparr>r_method = ''POST'', r_path = ''/inbounds/a/users'', r_header = [], r_body = NewReader []\<rparr>"
  let ?rg = "\<lparr>r_method = ''GET'', r_path = ''/inbounds/a/users/u1'', r_header = [], r_body = NewReader []\<rparr>"
  let ?req = "zero_UserRequest\<lparr>ur_SubID := ''u1''\<rparr>"
  have req: "Decode_UserRequest ?je (r_body ?r) = Inr ?req"
    by (simp add: Decode_UserRequest_def dec_struct_def dec_UserRequest_field_def dec_string_def)
  have tag: "extractInboundTag (r_path ?r) = ''a''"
    and path: "extractInboundTagAndSubID (r_path ?rg) = (extractInboundTag (r_path ?r), ur_SubID ?req)"
    by (simp_all add: extractInboundTag_def extractInboundTagAndSubID_def)
  let ?u = "ToUser ''x'' ?req ''a''" and ?edit = "cc_edit_CreateUser (c_uuid demo_client) (ToUser ''x'' ?req ''a'')"
  have edit: "cc_edit ?edit"
    by (auto simp: cc_edit_def)
  have "\<exists>rt'. ?edit demo_cfg = Inr rt'"
    by (simp add: cc_edit_CreateUser_def demo_inbounds ToUser_def getInboundUsers_def arr_at_def Let_def getString_def)
  then obtain rt' where "?edit demo_cfg = Inr rt'" ..
  from run_edit [OF client_ok_demo loaded_demo edit this] obtain c' where crt: "CreateUser config_client ?u demo_client = (c', None)"
    by (auto simp: config_client_def cc_CreateUser_def)
  have "inboundExists config_client ''a'' demo_client"
    by (simp add: inboundExists_def demo_listed getString_def)
  moreover have "Validate ?req = None"
    by (simp add: Validate_def zero_UserRequest_def)
  ultimately have run: "h_CreateUser ?je ''x'' (Some config_client) ?r demo_client = (writeCreated (json_User ?u), c')"
    using req tag crt by (simp add: h_CreateUser_def with_inbound_def)
  show ?thesis
    using created_user_is_listed [OF client_ok_demo run _ req path] run by auto
qed

end
