(* ===== verification/Subscription.thy ===== *)
theory Subscription
  imports SingBoxClient Api
begin

text \<open>
  The subscription handler (\<open>internal/handlers/subscription.go\<close>): it turns the inbound and the credentials of a user into a
  client configuration, and keeps the records it has made in a bounded cache.

  The text of a generated configuration is the text \<open>json.MarshalIndent\<close> makes of a JSON value, the argument \<open>render\<close>.
  The state of the handler is the state of the client beside the cache; the host of a request (\<open>r.Host\<close>) is an argument.
\<close>

section \<open>Host and port\<close>

definition last_index :: "char \<Rightarrow> string \<Rightarrow> nat option" where
  "last_index c s = (if c \<in> set s then Some (length s - 1 - length (takeWhile (\<lambda>d. d \<noteq> c) (rev s))) else None)"

definition index_byte :: "char \<Rightarrow> string \<Rightarrow> nat option" where
  "index_byte c s = (if c \<in> set s then Some (length (takeWhile (\<lambda>d. d \<noteq> c) s)) else None)"

text \<open>\<open>net.SplitHostPort\<close>; the kind of error does not matter to its callers.\<close>

definition SplitHostPort :: "string \<Rightarrow> (string \<times> string) option" where
  "SplitHostPort hostport =
     (case last_index CHR '':'' hostport of
        None \<Rightarrow> None
      | Some i \<Rightarrow>
          if hd hostport = CHR ''['' then
            (case index_byte CHR '']'' hostport of
               None \<Rightarrow> None
             | Some e \<Rightarrow>
                 if e + 1 = i \<and> CHR ''['' \<notin> set (drop 1 hostport) \<and> CHR '']'' \<notin> set (drop (e + 1) hostport)
                 then Some (drop 1 (take e hostport), drop (i + 1) hostport) else None)
          else if CHR '':'' \<in> set (take i hostport) \<or> CHR ''['' \<in> set hostport \<or> CHR '']'' \<in> set hostport then None
          else Some (take i hostport, drop (i + 1) hostport))"

definition stripPort :: "string \<Rightarrow> string" where
  "stripPort server =
     (case SplitHostPort server of
        Some (host, _) \<Rightarrow> host
      | None \<Rightarrow> (case last_index CHR '':'' server of Some i \<Rightarrow> if 0 < i then take i server else server | None \<Rightarrow> server))"

section \<open>Values of options\<close>

fun asMap :: "jv option \<Rightarrow> jobj option" where
  "asMap (Some (JObj m)) = Some m"
| "asMap _ = None"

fun asString :: "jv option \<Rightarrow> string" where
  "asString (Some (JStr s)) = s"
| "asString _ = []"

fun asInt :: "jv option \<Rightarrow> int" where
  "asInt (Some (JInt n)) = n"
| "asInt (Some (JFloat n)) = int_of_float n"
| "asInt _ = 0"

section \<open>Requests and records\<close>

definition SubscriptionFormatV2Ray :: string where "SubscriptionFormatV2Ray = ''v2ray''"
definition SubscriptionFormatClash :: string where "SubscriptionFormatClash = ''clash''"
definition SubscriptionFormatSingBox :: string where "SubscriptionFormatSingBox = ''sing-box''"
definition CodeSubscriptionNotFound :: string where "CodeSubscriptionNotFound = ''USER_NOT_FOUND''"
definition maxSubscriptionCacheEntries :: nat where "maxSubscriptionCacheEntries = 1000"

record SubscriptionRequest =
  sq_SubID :: string
  sq_InboundTag :: string
  sq_Format :: string
  sq_Server :: string
  sq_Port :: int

definition zero_SubscriptionRequest :: SubscriptionRequest where
  "zero_SubscriptionRequest = \<lparr>sq_SubID = [], sq_InboundTag = [], sq_Format = [], sq_Server = [], sq_Port = 0\<rparr>"

definition dec_SubscriptionRequest_field :: "json_env \<Rightarrow> string \<Rightarrow> jv \<Rightarrow> SubscriptionRequest \<Rightarrow> string + SubscriptionRequest" where
  "dec_SubscriptionRequest_field je k v q =
     (if names k ''subId'' then bindE (dec_string je (sq_SubID q) v) (\<lambda>x. Inr (q\<lparr>sq_SubID := x\<rparr>))
      else if names k ''inboundTag'' then bindE (dec_string je (sq_InboundTag q) v) (\<lambda>x. Inr (q\<lparr>sq_InboundTag := x\<rparr>))
      else if names k ''format'' then bindE (dec_string je (sq_Format q) v) (\<lambda>x. Inr (q\<lparr>sq_Format := x\<rparr>))
      else if names k ''server'' then bindE (dec_string je (sq_Server q) v) (\<lambda>x. Inr (q\<lparr>sq_Server := x\<rparr>))
      else if names k ''port'' then bindE (dec_int je (sq_Port q) v) (\<lambda>x. Inr (q\<lparr>sq_Port := x\<rparr>))
      else Inr q)"

definition Decode_SubscriptionRequest :: "json_env \<Rightarrow> body \<Rightarrow> string + SubscriptionRequest" where
  "Decode_SubscriptionRequest je b =
     bindE (je_parse je b) (dec_struct je (dec_SubscriptionRequest_field je) zero_SubscriptionRequest)"

record SubscriptionRecord =
  sr_SubID :: string
  sr_InboundTag :: string
  sr_Format :: string
  sr_Config :: string

definition json_SubscriptionRecord :: "SubscriptionRecord \<Rightarrow> jv" where
  "json_SubscriptionRecord rec =
     JObj ([(''subId'', JStr (sr_SubID rec))] @ opt_string ''inboundTag'' (sr_InboundTag rec)
       @ [(''format'', JStr (sr_Format rec)), (''config'', JStr (sr_Config rec))])"

type_synonym sub_store = "(string, SubscriptionRecord) gomap"

definition cacheRecord :: "SubscriptionRecord \<Rightarrow> sub_store \<Rightarrow> sub_store" where
  "cacheRecord rec st =
     (if maxSubscriptionCacheEntries \<le> length st then st else mput (sr_SubID rec) rec st)"

section \<open>Resolving\<close>

definition findInboundByTag :: "Inbound list \<Rightarrow> string \<Rightarrow> Inbound option" where
  "findInboundByTag inbounds tag = List.find (\<lambda>i. Tag i = tag) inbounds"

fun resolve_user :: "Inbound list \<Rightarrow> string \<Rightarrow> string \<Rightarrow> User list \<Rightarrow> (Inbound \<times> User) option" where
  "resolve_user inbounds subID inboundTag [] = None"
| "resolve_user inbounds subID inboundTag (user # users) =
     (if SubID user \<noteq> subID \<or> inboundTag \<noteq> [] \<and> InboundTag user \<noteq> inboundTag
      then resolve_user inbounds subID inboundTag users
      else case findInboundByTag inbounds (InboundTag user) of
             Some inbound \<Rightarrow> Some (inbound, user)
           | None \<Rightarrow> resolve_user inbounds subID inboundTag users)"

definition resolveTarget ::
  "'s SingBoxClient \<Rightarrow> string \<Rightarrow> string \<Rightarrow> 's \<Rightarrow> string + (Inbound \<times> User \<times> Inbound list)" where
  "resolveTarget C subID inboundTag s =
     (case GetInbounds C s of
        Inl err \<Rightarrow> Inl (''failed to load inbounds: '' @ err)
      | Inr inbounds \<Rightarrow>
          (case GetUsers C s of
             Inl err \<Rightarrow> Inl (''failed to load users: '' @ err)
           | Inr users \<Rightarrow>
               (case resolve_user inbounds subID inboundTag users of
                  Some (inbound, user) \<Rightarrow> Inr (inbound, user, inbounds)
                | None \<Rightarrow> Inl (''subscription for '' @ subID @ '' not found''))))"

definition normalizeSubscriptionFormat :: "string \<Rightarrow> string" where
  "normalizeSubscriptionFormat format =
     (let f = ToLower (TrimSpace format) in if f \<in> {[], ''singbox''} then SubscriptionFormatSingBox else f)"

definition resolveServerPort :: "SubscriptionRequest \<Rightarrow> Inbound \<Rightarrow> string \<Rightarrow> string + (string \<times> int)" where
  "resolveServerPort req inbound requestHost =
     (let server = TrimSpace (sq_Server req);
          server = (if server = [] then
                      (case asMap (mget (Options inbound) ''tls'') of
                         Some tlsMap \<Rightarrow> asString (mget tlsMap ''server_name'') | None \<Rightarrow> server) else server);
          server = (if server = [] then
                      (case SplitHostPort requestHost of Some (host, _) \<Rightarrow> host | None \<Rightarrow> requestHost) else server);
          port = (if sq_Port req = 0 then Port inbound else sq_Port req)
      in if server = [] then Inl ''cannot resolve server address''
         else if port < 1 \<or> 65535 < port then Inl ''invalid server port''
         else Inr (server, port))"

section \<open>Configurations\<close>

definition newline :: string where "newline = [char_of (10 :: nat)]"
definition quote :: string where "quote = [char_of (34 :: nat)]"

definition in_quotes :: "string \<Rightarrow> string" where "in_quotes s = quote @ s @ quote"

definition buildLegacySubscriptionConfig :: "SubscriptionRequest \<Rightarrow> string \<Rightarrow> string + string" where
  "buildLegacySubscriptionConfig req format =
     (let port = Itoa (sq_Port req); sub = sq_SubID req
      in if format = SubscriptionFormatV2Ray then
           Inr (''vless://'' @ sub @ ''@'' @ sq_Server req @ '':'' @ port @ ''?encryption=none#'' @ sub)
         else if format = SubscriptionFormatClash then
           Inr (''proxies:'' @ newline @ ''  - name: '' @ sub @ newline @ ''    type: vless'' @ newline @ ''    server: ''
             @ sq_Server req @ newline @ ''    port: '' @ port @ newline @ ''    uuid: '' @ sub @ newline)
         else if format = SubscriptionFormatSingBox then
           Inr (''{'' @ in_quotes ''outbounds'' @ '':[{'' @ in_quotes ''type'' @ '':'' @ in_quotes ''vless'' @ '',''
             @ in_quotes ''tag'' @ '':'' @ in_quotes sub @ '','' @ in_quotes ''server'' @ '':'' @ in_quotes (sq_Server req)
             @ '','' @ in_quotes ''server_port'' @ '':'' @ port @ '','' @ in_quotes ''uuid'' @ '':'' @ in_quotes sub @ ''}]}'')
         else Inl (''unsupported format: '' @ format))"

text \<open>An optional section of the inbound that is copied into the outbound.\<close>

definition copied :: "string \<Rightarrow> Inbound \<Rightarrow> jobj" where
  "copied key inbound = (case asMap (mget (Options inbound) key) of Some m \<Rightarrow> [(key, JObj m)] | None \<Rightarrow> [])"

definition proxy :: "string \<Rightarrow> string \<Rightarrow> int \<Rightarrow> string \<Rightarrow> string \<Rightarrow> jobj" where
  "proxy t server port credential value =
     [(''type'', JStr t), (''tag'', JStr ''proxy''), (''server'', JStr server), (''server_port'', JInt port), (credential, JStr value)]"

definition handshake_server :: "Inbound \<Rightarrow> string" where
  "handshake_server inbound =
     (let s = (case asMap (mget (Options inbound) ''handshake'') of
                 Some handshake \<Rightarrow> stripPort (asString (mget handshake ''server'')) | None \<Rightarrow> ''www.microsoft.com'')
      in if s = [] then ''www.microsoft.com'' else s)"

definition shadowtls_outbounds :: "Inbound \<Rightarrow> User \<Rightarrow> Inbound list \<Rightarrow> string \<Rightarrow> int \<Rightarrow> string + jobj list" where
  "shadowtls_outbounds inbound user allInbounds server port =
     (let ssTag = asString (mget (Options inbound) ''detour'')
      in case findInboundByTag allInbounds ssTag of
           None \<Rightarrow> Inl (''detour inbound '' @ ssTag @ '' not found'')
         | Some ssInbound \<Rightarrow>
             let version = asInt (mget (Options inbound) ''version'');
                 st = [(''type'', JStr ''shadowtls''), (''tag'', JStr ''st-tls''), (''server'', JStr server),
                       (''server_port'', JInt port), (''version'', JInt (if version = 0 then 3 else version)),
                       (''password'', JStr (UUID user)),
                       (''tls'', JObj [(''enabled'', JBool True), (''server_name'', JStr (handshake_server inbound))])];
                 ss = [(''type'', JStr ''shadowsocks''), (''tag'', JStr ''proxy''), (''server'', JStr server),
                       (''server_port'', JInt port), (''method'', JStr (asString (mget (Options ssInbound) ''method''))),
                       (''password'', JStr (asString (mget (Options ssInbound) ''password''))), (''detour'', JStr ''st-tls'')]
             in Inr [ss, st])"

definition proxy_outbounds :: "Inbound \<Rightarrow> User \<Rightarrow> Inbound list \<Rightarrow> string \<Rightarrow> int \<Rightarrow> string + jobj list" where
  "proxy_outbounds inbound user allInbounds server port =
     (let t = ToLower (Type inbound)
      in if t = ''hysteria2'' then
           Inr [proxy t server port ''password'' (UUID user) @ copied ''obfs'' inbound @ copied ''tls'' inbound]
         else if t = ''shadowtls'' then shadowtls_outbounds inbound user allInbounds server port
         else if t = ''vless'' then
           Inr [proxy t server port ''uuid'' (UUID user) @ opt_string ''flow'' (Flow user) @ copied ''tls'' inbound
                @ copied ''transport'' inbound]
         else if t = ''vmess'' then Inr [proxy t server port ''uuid'' (UUID user)]
         else if t \<in> {''trojan'', ''tuic''} then Inr [proxy t server port ''password'' (UUID user)]
         else Inl (''unsupported inbound type for subscription: '' @ t))"

definition subscription_root :: "jobj list \<Rightarrow> jv" where
  "subscription_root outbounds =
     JObj [(''outbounds'', JArr (map JObj (outbounds @ [[(''type'', JStr ''direct''), (''tag'', JStr ''direct'')],
                                                       [(''type'', JStr ''block''), (''tag'', JStr ''block'')]]))),
           (''route'', JObj [(''final'', JStr ''proxy'')])]"

definition buildSingBoxSubscriptionConfig ::
  "(jv \<Rightarrow> string) \<Rightarrow> string \<Rightarrow> Inbound \<Rightarrow> User \<Rightarrow> Inbound list \<Rightarrow> string \<Rightarrow> int \<Rightarrow> string + string" where
  "buildSingBoxSubscriptionConfig render format inbound user allInbounds server port =
     (let requested = normalizeSubscriptionFormat format; inboundType = ToLower (Type inbound)
      in if requested \<noteq> SubscriptionFormatSingBox \<and> requested \<noteq> inboundType
         then Inl (''requested format '' @ requested @ '' does not match inbound type '' @ inboundType)
         else bindE (proxy_outbounds inbound user allInbounds server port) (\<lambda>outbounds. Inr (render (subscription_root outbounds))))"


section \<open>REST\<close>

type_synonym 's sub_handler = "string \<Rightarrow> request \<Rightarrow> 's \<times> sub_store \<Rightarrow> wop list \<times> ('s \<times> sub_store)"

definition invalid :: "string \<Rightarrow> wop list" where
  "invalid message = sendError 400 CodeInvalidRequest message"

definition reply_record :: "SubscriptionRecord \<Rightarrow> 's \<times> sub_store \<Rightarrow> wop list \<times> ('s \<times> sub_store)" where
  "reply_record rec = (\<lambda>(s, st). (sendSuccess 200 (json_SubscriptionRecord rec), (s, cacheRecord rec st)))"

text \<open>The branch for the formats that need no inbound, also taken for every format when there is no client.\<close>

definition generate_legacy :: "SubscriptionRequest \<Rightarrow> string \<Rightarrow> string \<Rightarrow> 's \<times> sub_store \<Rightarrow> wop list \<times> ('s \<times> sub_store)" where
  "generate_legacy req format no_server s =
     (if sq_Server req = [] then (invalid no_server, s)
      else if sq_Port req < 1 \<or> 65535 < sq_Port req then (invalid ''port must be between 1 and 65535'', s)
      else case buildLegacySubscriptionConfig req format of
             Inl err \<Rightarrow> (invalid err, s)
           | Inr config \<Rightarrow>
               reply_record \<lparr>sr_SubID = sq_SubID req, sr_InboundTag = sq_InboundTag req, sr_Format = format, sr_Config = config\<rparr> s)"

text \<open>The common end of both handlers, once the user and the inbound are known.\<close>

definition generate_for ::
  "(jv \<Rightarrow> string) \<Rightarrow> SubscriptionRequest \<Rightarrow> string \<Rightarrow> string \<Rightarrow> Inbound \<times> User \<times> Inbound list \<Rightarrow> 's \<times> sub_store
     \<Rightarrow> wop list \<times> ('s \<times> sub_store)" where
  "generate_for render req format host = (\<lambda>(inbound, user, allInbounds) s.
     case resolveServerPort req inbound host of
       Inl err \<Rightarrow> (invalid err, s)
     | Inr (server, port) \<Rightarrow>
         (case buildSingBoxSubscriptionConfig render format inbound user allInbounds server port of
            Inl err \<Rightarrow> (invalid err, s)
          | Inr config \<Rightarrow>
              reply_record \<lparr>sr_SubID = sq_SubID req, sr_InboundTag = Tag inbound, sr_Format = format, sr_Config = config\<rparr> s))"

definition GenerateSubscription :: "json_env \<Rightarrow> (jv \<Rightarrow> string) \<Rightarrow> 's SingBoxClient option \<Rightarrow> 's sub_handler" where
  "GenerateSubscription je render singbox host r s =
     (case Decode_SubscriptionRequest je (r_body r) of
        Inl err \<Rightarrow> (invalid (''invalid request body: '' @ err), s)
      | Inr req \<Rightarrow>
          let format = normalizeSubscriptionFormat (sq_Format req)
          in if sq_SubID req = [] then (invalid ''subId is required'', s)
             else if format \<in> {SubscriptionFormatV2Ray, SubscriptionFormatClash}
             then generate_legacy req format ''server is required for v2ray/clash format'' s
             else case singbox of
                    None \<Rightarrow> generate_legacy req format ''server is required'' s
                  | Some C \<Rightarrow>
                      (case resolveTarget C (sq_SubID req) (sq_InboundTag req) (fst s) of
                         Inl err \<Rightarrow> (sendError 404 CodeSubscriptionNotFound err, s)
                       | Inr target \<Rightarrow> generate_for render req format host target s))"

definition GetSubscription :: "(jv \<Rightarrow> string) \<Rightarrow> 's SingBoxClient option \<Rightarrow> 's sub_handler" where
  "GetSubscription render singbox host r s =
     (let subID = TrimPrefix (r_path r) ''/subscription/'';
          not_found = (sendError 404 CodeSubscriptionNotFound (''subscription for '' @ subID @ '' not found''), s)
      in if subID = [] \<or> subID = r_path r then (invalid ''subId is required'', s)
         else case mget (snd s) subID of
                Some rec \<Rightarrow> (sendSuccess 200 (json_SubscriptionRecord rec), s)
              | None \<Rightarrow>
                  (case singbox of
                     None \<Rightarrow> not_found
                   | Some C \<Rightarrow>
                       (case resolveTarget C subID [] (fst s) of
                          Inl _ \<Rightarrow> not_found
                        | Inr target \<Rightarrow>
                            generate_for render (zero_SubscriptionRequest\<lparr>sq_SubID := subID\<rparr>) SubscriptionFormatSingBox host
                              target s)))"

section \<open>The cache\<close>

text \<open>A success of either handler is the answer with a record, which has gone to the cache if there was room.\<close>

lemma status_invalid [simp]: "status (invalid m) = 400"
  by (simp add: invalid_def)

lemma reply_record_status [simp]: "status (fst (reply_record rec s)) = 200"
  by (cases s) (simp add: reply_record_def)

lemma generate_legacy_200:
  assumes "generate_legacy req format m s = (ops, s')" and "status ops = 200"
  obtains rec where "sr_SubID rec = sq_SubID req" "reply_record rec s = (ops, s')"
  using assms by (force simp: generate_legacy_def split: if_splits sum.splits)

lemma generate_for_200:
  assumes "generate_for render req format host target s = (ops, s')" and "status ops = 200"
  obtains rec where "sr_SubID rec = sq_SubID req" "reply_record rec s = (ops, s')"
  using assms by (force simp: generate_for_def split: prod.splits sum.splits)

lemma GenerateSubscription_200:
  assumes "GenerateSubscription je render singbox host r s = (ops, s')" and "status ops = 200"
  obtains req rec where "Decode_SubscriptionRequest je (r_body r) = Inr req" "sq_SubID req \<noteq> []" "sr_SubID rec = sq_SubID req"
    "reply_record rec s = (ops, s')"
  using assms
  by (auto simp: GenerateSubscription_def Let_def split: sum.splits if_splits option.splits
      elim!: generate_legacy_200 generate_for_200)

text \<open>What either handler does to the state.\<close>

definition cache_step :: "'s \<times> sub_store \<Rightarrow> 's \<times> sub_store \<Rightarrow> bool" where
  "cache_step s s' \<longleftrightarrow> fst s' = fst s \<and> (snd s' = snd s \<or> (\<exists>rec. snd s' = cacheRecord rec (snd s)))"

lemma cache_step_replies:
  "cache_step s (snd (reply_record rec s))" "cache_step s s"
  by (auto simp: cache_step_def reply_record_def split: prod.split)

lemma cache_step_generate:
  "cache_step s (snd (generate_legacy req format m s))" "cache_step s (snd (generate_for render req format host target s))"
  by (simp_all add: generate_legacy_def generate_for_def cache_step_replies split: sum.split prod.split)

lemma cache_step_handlers:
  "cache_step s (snd (GenerateSubscription je render singbox host r s))"
  "cache_step s (snd (GetSubscription render singbox host r s))"
  by (simp_all add: GenerateSubscription_def GetSubscription_def Let_def cache_step_replies cache_step_generate
      split: sum.split option.split)

definition store_ok :: "sub_store \<Rightarrow> bool" where
  "store_ok st \<longleftrightarrow> mwf st \<and> length st \<le> maxSubscriptionCacheEntries"

lemma store_ok_cacheRecord: "store_ok st \<Longrightarrow> store_ok (cacheRecord rec st)"
  by (auto simp: store_ok_def cacheRecord_def length_mput mwf_mput)

lemma store_ok_handlers:
  assumes "store_ok (snd s)"
  shows "store_ok (snd (snd (GenerateSubscription je render singbox host r s)))"
    and "store_ok (snd (snd (GetSubscription render singbox host r s)))"
  using cache_step_handlers [of s] assms by (auto simp: cache_step_def dest: store_ok_cacheRecord, metis store_ok_cacheRecord)+



text \<open>A client whose user is there, or has been removed.\<close>

definition sub_inbound :: Inbound where
  "sub_inbound = \<lparr>Tag = ''a'', Type = ''vless'', Listen = [], Port = 443, Options = []\<rparr>"

definition sub_user :: User where
  "sub_user = zero_User\<lparr>SubID := ''u'', UUID := ''secret'', InboundTag := ''a''\<rparr>"

definition sub_client :: "bool SingBoxClient" where
  "sub_client = \<lparr>GetInbounds = (\<lambda>p. Inr [sub_inbound]), GetUsers = (\<lambda>p. Inr (if p then [sub_user] else [])),
     CreateInbound = (\<lambda>i p. (p, None)), UpdateInbound = (\<lambda>i p. (p, None)), DeleteInbound = (\<lambda>t p. (p, None)),
     CreateUser = (\<lambda>u p. (True, None)), UpdateUser = (\<lambda>u p. (p, None)), DeleteUser = (\<lambda>u p. (False, None))\<rparr>"

definition sub_json :: json_env where
  "sub_json = \<lparr>je_parse = (\<lambda>b. Inr (JObj [(''subId'', JStr ''u'')])), je_type_error = (\<lambda>v. []), je_time = (\<lambda>s. Inl [])\<rparr>"

definition sub_request :: "string \<Rightarrow> string \<Rightarrow> request" where
  "sub_request method path = \<lparr>r_method = method, r_path = path, r_header = [], r_body = NewReader []\<rparr>"

lemma sub_decoded: "Decode_SubscriptionRequest sub_json b = Inr (zero_SubscriptionRequest\<lparr>sq_SubID := ''u''\<rparr>)"
  by (simp add: Decode_SubscriptionRequest_def sub_json_def dec_struct_def dec_SubscriptionRequest_field_def dec_string_def)

lemma sub_formats: "SubscriptionFormatSingBox \<noteq> SubscriptionFormatV2Ray" "SubscriptionFormatSingBox \<noteq> SubscriptionFormatClash"
  by (simp_all add: SubscriptionFormatSingBox_def SubscriptionFormatV2Ray_def SubscriptionFormatClash_def)

lemma sub_types: "normalizeSubscriptionFormat [] = SubscriptionFormatSingBox"
  "normalizeSubscriptionFormat SubscriptionFormatSingBox = SubscriptionFormatSingBox" "ToLower ''vless'' = ''vless''"
  by (simp_all add: normalizeSubscriptionFormat_def SubscriptionFormatSingBox_def TrimSpace_visible visible_def ToLower_ascii
      lower_char_def del: ToLower.simps(2))

lemma sub_generated:
  "status (fst (GenerateSubscription sub_json render (Some sub_client) ''h'' r (True, []))) = 200"
  by (simp add: GenerateSubscription_def sub_decoded zero_SubscriptionRequest_def sub_types
      sub_formats resolveTarget_def sub_client_def
      sub_user_def sub_inbound_def findInboundByTag_def generate_for_def resolveServerPort_def SplitHostPort_def last_index_def
      buildSingBoxSubscriptionConfig_def proxy_outbounds_def Let_def del: ToLower.simps(2))


section \<open>What a subscription holds\<close>

text \<open>
  The \<open>tls\<close> section of the inbound goes to the user as it is, with everything the server keeps there: the private key of a
  REALITY inbound, for example.
\<close>

lemma subscription_exposes_tls:
  assumes "ToLower (Type inbound) \<in> {''vless'', ''hysteria2''}" and "mget (Options inbound) ''tls'' = Some (JObj tls)"
  shows "\<exists>p. proxy_outbounds inbound user allInbounds server port = Inr [p] \<and> mget p ''tls'' = Some (JObj tls)"
  using assms by (auto simp: proxy_outbounds_def copied_def proxy_def opt_string_def split: option.split)

text \<open>A configuration is made for the user and the inbound that were asked for, and for a usable port.\<close>

lemma resolve_user_Some:
  "resolve_user inbounds subID tag users = Some (i, u) \<Longrightarrow>
     u \<in> set users \<and> i \<in> set inbounds \<and> SubID u = subID \<and> Tag i = InboundTag u \<and> (tag = [] \<or> InboundTag u = tag)"
  by (induction users) (auto simp: findInboundByTag_def find_Some_iff split: if_splits option.splits)

lemma resolveServerPort_Inr: "resolveServerPort req i host = Inr (server, port) \<Longrightarrow> server \<noteq> [] \<and> 1 \<le> port \<and> port \<le> 65535"
  by (auto simp: resolveServerPort_def Let_def split: if_splits)
end
