(* ===== verification/Wire.thy ===== *)
theory Wire
  imports Prelude
begin

text \<open>
  The hand-written protobuf codec of \<open>internal/v2rayapi/v2rayapi.go\<close>: the varint and field
  primitives, the decoder, the seven message types of the v2ray stats service and the gRPC
  \<open>Codec\<close> that dispatches on them.

  A decoder method that advances \<open>d.data\<close> returns the rest of the data; a method that fails
  returns the error, after which every caller in the source gives up as well.  \<open>int64\<close> values
  are 64-bit words read as two's complement.  The locale \<open>proto_message\<close> states what every
  \<open>Unmarshal\<close> loop of the file has in common; it is interpreted for all seven message types.
\<close>

section \<open>Messages\<close>

type_synonym int64 = "64 word"

datatype wire_error = Truncated | VarintOverflow | UnsupportedWire byte | UnsupportedMessage

record Stat =
  stat_Name :: string
  stat_Value :: int64

record GetStatsRequest =
  gsq_Name :: string
  gsq_Reset :: bool

record GetStatsResponse =
  gsr_Stat :: "Stat option"

record QueryStatsRequest =
  qsq_Pattern :: string
  qsq_Reset :: bool
  qsq_Patterns :: "string list"
  qsq_Regexp :: bool

text \<open>The source has a list of pointers.  \<open>Unmarshal\<close> puts no nil into it, and the agent encodes no response of its own.\<close>

record QueryStatsResponse =
  qsr_Stat :: "Stat list"

text \<open>The getters; a nil receiver gives the zero value.\<close>

fun GetName :: "Stat option \<Rightarrow> string" where
  "GetName None = []"
| "GetName (Some s) = stat_Name s"

fun GetValue :: "Stat option \<Rightarrow> int64" where
  "GetValue None = 0"
| "GetValue (Some s) = stat_Value s"

fun GetPattern :: "QueryStatsRequest option \<Rightarrow> string" where
  "GetPattern None = []"
| "GetPattern (Some r) = qsq_Pattern r"

fun GetPatterns :: "QueryStatsRequest option \<Rightarrow> string list" where
  "GetPatterns None = []"
| "GetPatterns (Some r) = qsq_Patterns r"

fun GetStat :: "QueryStatsResponse option \<Rightarrow> Stat list" where
  "GetStat None = []"
| "GetStat (Some r) = qsr_Stat r"

record SysStatsResponse =
  ssr_NumGoroutine :: uint32
  ssr_NumGC :: uint32
  ssr_Alloc :: uint64
  ssr_TotalAlloc :: uint64
  ssr_Sys :: uint64
  ssr_Mallocs :: uint64
  ssr_Frees :: uint64
  ssr_LiveObjects :: uint64
  ssr_PauseTotalNs :: uint64
  ssr_Uptime :: uint32

definition zero_Stat :: Stat where
  "zero_Stat = \<lparr>stat_Name = [], stat_Value = 0\<rparr>"

definition wireVarint :: byte where "wireVarint = 0"
definition wireFixed64 :: byte where "wireFixed64 = 1"
definition wireBytes :: byte where "wireBytes = 2"
definition wireFixed32 :: byte where "wireFixed32 = 5"

section \<open>Encoding primitives\<close>

function appendVarint :: "byte list \<Rightarrow> uint64 \<Rightarrow> byte list" where
  "appendVarint b v =
     (if 0x80 \<le> v then appendVarint (b @ [ucast v OR 0x80]) (drop_bit 7 v)
      else b @ [ucast v])"
  by pat_completeness auto
termination
  by (relation "measure (\<lambda>(b, v). unat v)")
    (auto simp: unat_drop_bit_eq drop_bit_nat_def word_le_nat_alt simp del: drop_bit_eq_div)

declare appendVarint.simps [simp del]

definition appendTag :: "byte list \<Rightarrow> nat \<Rightarrow> byte \<Rightarrow> byte list" where
  "appendTag b field wire = appendVarint b (push_bit 3 (of_nat field) OR ucast wire)"

definition appendStringField :: "byte list \<Rightarrow> nat \<Rightarrow> string \<Rightarrow> byte list" where
  "appendStringField b field s =
     (if s = [] then b
      else let b = appendTag b field wireBytes;
               b = appendVarint b (of_nat (length s))
           in b @ bytes_of s)"

definition appendStringElement :: "byte list \<Rightarrow> nat \<Rightarrow> string \<Rightarrow> byte list" where
  "appendStringElement b field s =
     (let b = appendTag b field wireBytes;
          b = appendVarint b (of_nat (length s))
      in b @ bytes_of s)"

definition appendMessageField :: "byte list \<Rightarrow> nat \<Rightarrow> byte list \<Rightarrow> byte list" where
  "appendMessageField b field data =
     (let b = appendTag b field wireBytes;
          b = appendVarint b (of_nat (length data))
      in b @ data)"

definition appendBoolField :: "byte list \<Rightarrow> nat \<Rightarrow> bool \<Rightarrow> byte list" where
  "appendBoolField b field v =
     (if \<not> v then b else let b = appendTag b field wireVarint in appendVarint b 1)"

definition appendInt64Field :: "byte list \<Rightarrow> nat \<Rightarrow> int64 \<Rightarrow> byte list" where
  "appendInt64Field b field v =
     (if v = 0 then b else let b = appendTag b field wireVarint in appendVarint b v)"

definition appendUint64Field :: "byte list \<Rightarrow> nat \<Rightarrow> uint64 \<Rightarrow> byte list" where
  "appendUint64Field b field v =
     (if v = 0 then b else let b = appendTag b field wireVarint in appendVarint b v)"

section \<open>The decoder\<close>

fun varint_from :: "uint64 \<Rightarrow> nat \<Rightarrow> byte list \<Rightarrow> wire_error + (uint64 \<times> byte list)" where
  "varint_from v shift [] = Inl Truncated"
| "varint_from v shift (b # data) =
     (let v = v OR push_bit shift (ucast (b AND 0x7f))
      in if b < 0x80 then Inr (v, data)
         else let shift = shift + 7
              in if 64 \<le> shift then Inl VarintOverflow
                 else varint_from v shift data)"

definition varint :: "byte list \<Rightarrow> wire_error + (uint64 \<times> byte list)" where
  "varint data = varint_from 0 0 data"

definition bytes :: "byte list \<Rightarrow> wire_error + (byte list \<times> byte list)" where
  "bytes data =
     bindE (varint data) (\<lambda>(n, data).
       if of_nat (length data) < unat n then Inl Truncated
       else Inr (take (unat n) data, drop (unat n) data))"

definition skip :: "byte \<Rightarrow> byte list \<Rightarrow> wire_error + byte list" where
  "skip wire data =
     (if wire = wireVarint then bindE (varint data) (\<lambda>(_, data). Inr data)
      else if wire = wireFixed64 then
        (if length data < 8 then Inl Truncated else Inr (drop 8 data))
      else if wire = wireBytes then bindE (bytes data) (\<lambda>(_, data). Inr data)
      else if wire = wireFixed32 then
        (if length data < 4 then Inl Truncated else Inr (drop 4 data))
      else Inl (UnsupportedWire wire))"

text \<open>\<open>field, wire := int(tag>>3), byte(tag&7)\<close>\<close>

definition tag_field :: "uint64 \<Rightarrow> nat" where
  "tag_field tag = unat (drop_bit 3 tag)"

definition tag_wire :: "uint64 \<Rightarrow> byte" where
  "tag_wire tag = ucast (tag AND 7)"

text \<open>The \<open>default\<close> branch of the switches: skip the field, keep the message.\<close>

definition skip_field :: "byte \<Rightarrow> byte list \<Rightarrow> 'm \<Rightarrow> wire_error + ('m \<times> byte list)" where
  "skip_field wire data m = bindE (skip wire data) (\<lambda>data. Inr (m, data))"

section \<open>Facts about the decoder\<close>

text \<open>Every primitive consumes input from the front, and looks at nothing behind it.\<close>

lemma varint_from_length: "varint_from v s d = Inr (x, d') \<Longrightarrow> length d' < length d"
  by (induction v s d rule: varint_from.induct)
    (auto simp: Let_def less_SucI split: if_splits)

lemma varint_length: "varint d = Inr (x, d') \<Longrightarrow> length d' < length d"
  by (simp add: varint_def varint_from_length)

lemma bytes_length: "bytes d = Inr (x, d') \<Longrightarrow> length d' < length d"
  by (auto simp: bytes_def bindE_eq_Inr_iff split: if_splits dest!: varint_length)

lemma skip_length: "skip w d = Inr d' \<Longrightarrow> length d' \<le> length d"
  by (auto simp: skip_def bindE_eq_Inr_iff split: if_splits
      dest!: varint_length bytes_length)

lemma skip_field_length: "skip_field w d m = Inr (m', d') \<Longrightarrow> length d' \<le> length d"
  by (auto simp: skip_field_def bindE_eq_Inr_iff dest: skip_length)

lemmas consume_lengths = varint_length bytes_length skip_field_length

section \<open>Marshal and Unmarshal of the messages\<close>

subsection \<open>Stat\<close>

definition Stat_Marshal :: "Stat \<Rightarrow> byte list" where
  "Stat_Marshal s =
     (let b = [];
          b = appendStringField b 1 (stat_Name s);
          b = appendInt64Field b 2 (stat_Value s)
      in b)"

definition Stat_field :: "nat \<Rightarrow> byte \<Rightarrow> byte list \<Rightarrow> Stat \<Rightarrow> wire_error + (Stat \<times> byte list)" where
  "Stat_field field wire data s =
     (if field = 1 \<and> wire = wireBytes then
        bindE (bytes data) (\<lambda>(v, data). Inr (s\<lparr>stat_Name := string_of v\<rparr>, data))
      else if field = 2 \<and> wire = wireVarint then
        bindE (varint data) (\<lambda>(v, data). Inr (s\<lparr>stat_Value := v\<rparr>, data))
      else skip_field wire data s)"

lemma Stat_field_length: "Stat_field f w d m = Inr (m', d') \<Longrightarrow> length d' \<le> length d"
  by (auto simp: Stat_field_def bindE_eq_Inr_iff split: if_splits dest!: consume_lengths)

function Stat_Unmarshal :: "byte list \<Rightarrow> Stat \<Rightarrow> wire_error + Stat" where
  "Stat_Unmarshal data s =
     (if data = [] then Inr s
      else bindE (varint data) (\<lambda>(tag, data).
        bindE (Stat_field (tag_field tag) (tag_wire tag) data s) (\<lambda>(s, data).
          Stat_Unmarshal data s)))"
  by pat_completeness auto
termination
  by (relation "measure (\<lambda>(d, s). length d)")
    (auto dest!: varint_length Stat_field_length)

subsection \<open>GetStatsRequest and GetStatsResponse\<close>

definition GetStatsRequest_Marshal :: "GetStatsRequest \<Rightarrow> byte list" where
  "GetStatsRequest_Marshal r =
     (let b = [];
          b = appendStringField b 1 (gsq_Name r);
          b = appendBoolField b 2 (gsq_Reset r)
      in b)"

definition GetStatsRequest_field ::
  "nat \<Rightarrow> byte \<Rightarrow> byte list \<Rightarrow> GetStatsRequest \<Rightarrow> wire_error + (GetStatsRequest \<times> byte list)" where
  "GetStatsRequest_field field wire data r =
     (if field = 1 \<and> wire = wireBytes then
        bindE (bytes data) (\<lambda>(v, data). Inr (r\<lparr>gsq_Name := string_of v\<rparr>, data))
      else if field = 2 \<and> wire = wireVarint then
        bindE (varint data) (\<lambda>(v, data). Inr (r\<lparr>gsq_Reset := v \<noteq> 0\<rparr>, data))
      else skip_field wire data r)"

lemma GetStatsRequest_field_length:
  "GetStatsRequest_field f w d m = Inr (m', d') \<Longrightarrow> length d' \<le> length d"
  by (auto simp: GetStatsRequest_field_def bindE_eq_Inr_iff split: if_splits
      dest!: consume_lengths)

function GetStatsRequest_Unmarshal ::
  "byte list \<Rightarrow> GetStatsRequest \<Rightarrow> wire_error + GetStatsRequest" where
  "GetStatsRequest_Unmarshal data r =
     (if data = [] then Inr r
      else bindE (varint data) (\<lambda>(tag, data).
        bindE (GetStatsRequest_field (tag_field tag) (tag_wire tag) data r) (\<lambda>(r, data).
          GetStatsRequest_Unmarshal data r)))"
  by pat_completeness auto
termination
  by (relation "measure (\<lambda>(d, s). length d)")
    (auto dest!: varint_length GetStatsRequest_field_length)

definition GetStatsResponse_Marshal :: "GetStatsResponse \<Rightarrow> byte list" where
  "GetStatsResponse_Marshal r =
     (case gsr_Stat r of None \<Rightarrow> [] | Some s \<Rightarrow> appendMessageField [] 1 (Stat_Marshal s))"

definition GetStatsResponse_field ::
  "nat \<Rightarrow> byte \<Rightarrow> byte list \<Rightarrow> GetStatsResponse \<Rightarrow> wire_error + (GetStatsResponse \<times> byte list)" where
  "GetStatsResponse_field field wire data r =
     (if field = 1 \<and> wire = wireBytes then
        bindE (bytes data) (\<lambda>(v, data).
          bindE (Stat_Unmarshal v zero_Stat) (\<lambda>s. Inr (r\<lparr>gsr_Stat := Some s\<rparr>, data)))
      else skip_field wire data r)"

lemma GetStatsResponse_field_length:
  "GetStatsResponse_field f w d m = Inr (m', d') \<Longrightarrow> length d' \<le> length d"
  by (auto simp: GetStatsResponse_field_def bindE_eq_Inr_iff simp del: Stat_Unmarshal.simps
      split: if_splits dest!: consume_lengths)

function GetStatsResponse_Unmarshal ::
  "byte list \<Rightarrow> GetStatsResponse \<Rightarrow> wire_error + GetStatsResponse" where
  "GetStatsResponse_Unmarshal data r =
     (if data = [] then Inr r
      else bindE (varint data) (\<lambda>(tag, data).
        bindE (GetStatsResponse_field (tag_field tag) (tag_wire tag) data r) (\<lambda>(r, data).
          GetStatsResponse_Unmarshal data r)))"
  by pat_completeness auto
termination
  by (relation "measure (\<lambda>(d, s). length d)")
    (auto dest!: varint_length GetStatsResponse_field_length)

subsection \<open>QueryStatsRequest and QueryStatsResponse\<close>

definition QueryStatsRequest_Marshal :: "QueryStatsRequest \<Rightarrow> byte list" where
  "QueryStatsRequest_Marshal r =
     (let b = [];
          b = appendStringField b 1 (qsq_Pattern r);
          b = appendBoolField b 2 (qsq_Reset r);
          b = foldl (\<lambda>b p. appendStringElement b 3 p) b (qsq_Patterns r);
          b = appendBoolField b 4 (qsq_Regexp r)
      in b)"

definition QueryStatsRequest_field ::
  "nat \<Rightarrow> byte \<Rightarrow> byte list \<Rightarrow> QueryStatsRequest \<Rightarrow> wire_error + (QueryStatsRequest \<times> byte list)" where
  "QueryStatsRequest_field field wire data r =
     (if field = 1 \<and> wire = wireBytes then
        bindE (bytes data) (\<lambda>(v, data). Inr (r\<lparr>qsq_Pattern := string_of v\<rparr>, data))
      else if field = 2 \<and> wire = wireVarint then
        bindE (varint data) (\<lambda>(v, data). Inr (r\<lparr>qsq_Reset := v \<noteq> 0\<rparr>, data))
      else if field = 3 \<and> wire = wireBytes then
        bindE (bytes data) (\<lambda>(v, data).
          Inr (r\<lparr>qsq_Patterns := qsq_Patterns r @ [string_of v]\<rparr>, data))
      else if field = 4 \<and> wire = wireVarint then
        bindE (varint data) (\<lambda>(v, data). Inr (r\<lparr>qsq_Regexp := v \<noteq> 0\<rparr>, data))
      else skip_field wire data r)"

lemma QueryStatsRequest_field_length:
  "QueryStatsRequest_field f w d m = Inr (m', d') \<Longrightarrow> length d' \<le> length d"
  by (auto simp: QueryStatsRequest_field_def bindE_eq_Inr_iff split: if_splits
      dest!: consume_lengths)

function QueryStatsRequest_Unmarshal ::
  "byte list \<Rightarrow> QueryStatsRequest \<Rightarrow> wire_error + QueryStatsRequest" where
  "QueryStatsRequest_Unmarshal data r =
     (if data = [] then Inr r
      else bindE (varint data) (\<lambda>(tag, data).
        bindE (QueryStatsRequest_field (tag_field tag) (tag_wire tag) data r) (\<lambda>(r, data).
          QueryStatsRequest_Unmarshal data r)))"
  by pat_completeness auto
termination
  by (relation "measure (\<lambda>(d, s). length d)")
    (auto dest!: varint_length QueryStatsRequest_field_length)

definition QueryStatsResponse_Marshal :: "QueryStatsResponse \<Rightarrow> byte list" where
  "QueryStatsResponse_Marshal r =
     foldl (\<lambda>b s. appendMessageField b 1 (Stat_Marshal s)) [] (qsr_Stat r)"

definition QueryStatsResponse_field ::
  "nat \<Rightarrow> byte \<Rightarrow> byte list \<Rightarrow> QueryStatsResponse \<Rightarrow> wire_error + (QueryStatsResponse \<times> byte list)" where
  "QueryStatsResponse_field field wire data r =
     (if field = 1 \<and> wire = wireBytes then
        bindE (bytes data) (\<lambda>(v, data).
          bindE (Stat_Unmarshal v zero_Stat) (\<lambda>s. Inr (r\<lparr>qsr_Stat := qsr_Stat r @ [s]\<rparr>, data)))
      else skip_field wire data r)"

lemma QueryStatsResponse_field_length:
  "QueryStatsResponse_field f w d m = Inr (m', d') \<Longrightarrow> length d' \<le> length d"
  by (auto simp: QueryStatsResponse_field_def bindE_eq_Inr_iff simp del: Stat_Unmarshal.simps
      split: if_splits dest!: consume_lengths)

function QueryStatsResponse_Unmarshal ::
  "byte list \<Rightarrow> QueryStatsResponse \<Rightarrow> wire_error + QueryStatsResponse" where
  "QueryStatsResponse_Unmarshal data r =
     (if data = [] then Inr r
      else bindE (varint data) (\<lambda>(tag, data).
        bindE (QueryStatsResponse_field (tag_field tag) (tag_wire tag) data r) (\<lambda>(r, data).
          QueryStatsResponse_Unmarshal data r)))"
  by pat_completeness auto
termination
  by (relation "measure (\<lambda>(d, s). length d)")
    (auto dest!: varint_length QueryStatsResponse_field_length)

subsection \<open>SysStatsRequest and SysStatsResponse\<close>

definition SysStatsRequest_Marshal :: "unit \<Rightarrow> byte list" where
  "SysStatsRequest_Marshal r = []"

function SysStatsRequest_Unmarshal :: "byte list \<Rightarrow> unit \<Rightarrow> wire_error + unit" where
  "SysStatsRequest_Unmarshal data r =
     (if data = [] then Inr r
      else bindE (varint data) (\<lambda>(tag, data).
        bindE (skip_field (tag_wire tag) data r) (\<lambda>(r, data).
          SysStatsRequest_Unmarshal data r)))"
  by pat_completeness auto
termination
  by (relation "measure (\<lambda>(d, s). length d)")
    (auto dest!: varint_length skip_field_length)

definition SysStatsResponse_Marshal :: "SysStatsResponse \<Rightarrow> byte list" where
  "SysStatsResponse_Marshal r =
     (let b = [];
          b = appendUint64Field b 1 (ucast (ssr_NumGoroutine r));
          b = appendUint64Field b 2 (ucast (ssr_NumGC r));
          b = appendUint64Field b 3 (ssr_Alloc r);
          b = appendUint64Field b 4 (ssr_TotalAlloc r);
          b = appendUint64Field b 5 (ssr_Sys r);
          b = appendUint64Field b 6 (ssr_Mallocs r);
          b = appendUint64Field b 7 (ssr_Frees r);
          b = appendUint64Field b 8 (ssr_LiveObjects r);
          b = appendUint64Field b 9 (ssr_PauseTotalNs r);
          b = appendUint64Field b 10 (ucast (ssr_Uptime r))
      in b)"

definition SysStatsResponse_set :: "nat \<Rightarrow> uint64 \<Rightarrow> SysStatsResponse \<Rightarrow> SysStatsResponse" where
  "SysStatsResponse_set field v r =
     (if field = 1 then r\<lparr>ssr_NumGoroutine := ucast v\<rparr>
      else if field = 2 then r\<lparr>ssr_NumGC := ucast v\<rparr>
      else if field = 3 then r\<lparr>ssr_Alloc := v\<rparr>
      else if field = 4 then r\<lparr>ssr_TotalAlloc := v\<rparr>
      else if field = 5 then r\<lparr>ssr_Sys := v\<rparr>
      else if field = 6 then r\<lparr>ssr_Mallocs := v\<rparr>
      else if field = 7 then r\<lparr>ssr_Frees := v\<rparr>
      else if field = 8 then r\<lparr>ssr_LiveObjects := v\<rparr>
      else if field = 9 then r\<lparr>ssr_PauseTotalNs := v\<rparr>
      else if field = 10 then r\<lparr>ssr_Uptime := ucast v\<rparr>
      else r)"

definition SysStatsResponse_field ::
  "nat \<Rightarrow> byte \<Rightarrow> byte list \<Rightarrow> SysStatsResponse \<Rightarrow> wire_error + (SysStatsResponse \<times> byte list)" where
  "SysStatsResponse_field field wire data r =
     (if wire \<noteq> wireVarint then skip_field wire data r
      else bindE (varint data) (\<lambda>(v, data). Inr (SysStatsResponse_set field v r, data)))"

lemma SysStatsResponse_field_length:
  "SysStatsResponse_field f w d m = Inr (m', d') \<Longrightarrow> length d' \<le> length d"
  by (auto simp: SysStatsResponse_field_def bindE_eq_Inr_iff split: if_splits
      dest!: consume_lengths)

function SysStatsResponse_Unmarshal ::
  "byte list \<Rightarrow> SysStatsResponse \<Rightarrow> wire_error + SysStatsResponse" where
  "SysStatsResponse_Unmarshal data r =
     (if data = [] then Inr r
      else bindE (varint data) (\<lambda>(tag, data).
        bindE (SysStatsResponse_field (tag_field tag) (tag_wire tag) data r) (\<lambda>(r, data).
          SysStatsResponse_Unmarshal data r)))"
  by pat_completeness auto
termination
  by (relation "measure (\<lambda>(d, s). length d)")
    (auto dest!: varint_length SysStatsResponse_field_length)

lemmas Unmarshal_unfold =
  Stat_Unmarshal.simps GetStatsRequest_Unmarshal.simps GetStatsResponse_Unmarshal.simps
  QueryStatsRequest_Unmarshal.simps QueryStatsResponse_Unmarshal.simps
  SysStatsRequest_Unmarshal.simps SysStatsResponse_Unmarshal.simps

declare Unmarshal_unfold [simp del]

subsection \<open>Codec\<close>

text \<open>\<open>v any\<close>: one of the seven message types, or a value of some other type.\<close>

datatype message =
    MStat Stat
  | MGetStatsRequest GetStatsRequest
  | MGetStatsResponse GetStatsResponse
  | MQueryStatsRequest QueryStatsRequest
  | MQueryStatsResponse QueryStatsResponse
  | MSysStatsRequest
  | MSysStatsResponse SysStatsResponse
  | MOther

fun Codec_Marshal :: "message \<Rightarrow> wire_error + byte list" where
  "Codec_Marshal (MStat m) = Inr (Stat_Marshal m)"
| "Codec_Marshal (MGetStatsRequest m) = Inr (GetStatsRequest_Marshal m)"
| "Codec_Marshal (MGetStatsResponse m) = Inr (GetStatsResponse_Marshal m)"
| "Codec_Marshal (MQueryStatsRequest m) = Inr (QueryStatsRequest_Marshal m)"
| "Codec_Marshal (MQueryStatsResponse m) = Inr (QueryStatsResponse_Marshal m)"
| "Codec_Marshal MSysStatsRequest = Inr (SysStatsRequest_Marshal ())"
| "Codec_Marshal (MSysStatsResponse m) = Inr (SysStatsResponse_Marshal m)"
| "Codec_Marshal MOther = Inl UnsupportedMessage"

fun Codec_Unmarshal :: "byte list \<Rightarrow> message \<Rightarrow> wire_error + message" where
  "Codec_Unmarshal data (MStat m) = map_sum id MStat (Stat_Unmarshal data m)"
| "Codec_Unmarshal data (MGetStatsRequest m) =
     map_sum id MGetStatsRequest (GetStatsRequest_Unmarshal data m)"
| "Codec_Unmarshal data (MGetStatsResponse m) =
     map_sum id MGetStatsResponse (GetStatsResponse_Unmarshal data m)"
| "Codec_Unmarshal data (MQueryStatsRequest m) =
     map_sum id MQueryStatsRequest (QueryStatsRequest_Unmarshal data m)"
| "Codec_Unmarshal data (MQueryStatsResponse m) =
     map_sum id MQueryStatsResponse (QueryStatsResponse_Unmarshal data m)"
| "Codec_Unmarshal data MSysStatsRequest =
     map_sum id (\<lambda>_. MSysStatsRequest) (SysStatsRequest_Unmarshal data ())"
| "Codec_Unmarshal data (MSysStatsResponse m) =
     map_sum id MSysStatsResponse (SysStatsResponse_Unmarshal data m)"
| "Codec_Unmarshal data MOther = Inl UnsupportedMessage"

section \<open>Specification vocabulary\<close>

text \<open>The zero value of a message's type: what a caller passes to \<open>Unmarshal\<close>.\<close>

fun zero_message :: "message \<Rightarrow> message" where
  "zero_message (MStat _) = MStat zero_Stat"
| "zero_message (MGetStatsRequest _) = MGetStatsRequest \<lparr>gsq_Name = [], gsq_Reset = False\<rparr>"
| "zero_message (MGetStatsResponse _) = MGetStatsResponse \<lparr>gsr_Stat = None\<rparr>"
| "zero_message (MQueryStatsRequest _) =
     MQueryStatsRequest \<lparr>qsq_Pattern = [], qsq_Reset = False, qsq_Patterns = [], qsq_Regexp = False\<rparr>"
| "zero_message (MQueryStatsResponse _) = MQueryStatsResponse \<lparr>qsr_Stat = []\<rparr>"
| "zero_message MSysStatsRequest = MSysStatsRequest"
| "zero_message (MSysStatsResponse _) =
     MSysStatsResponse \<lparr>ssr_NumGoroutine = 0, ssr_NumGC = 0, ssr_Alloc = 0, ssr_TotalAlloc = 0,
       ssr_Sys = 0, ssr_Mallocs = 0, ssr_Frees = 0, ssr_LiveObjects = 0, ssr_PauseTotalNs = 0,
       ssr_Uptime = 0\<rparr>"
| "zero_message MOther = MOther"

text \<open>
  The Go runtime bounds the length of every string and slice below \<open>2^63\<close>; a length prefix
  is then never truncated.
\<close>

definition go_len :: "'a list \<Rightarrow> bool" where
  "go_len xs \<longleftrightarrow> length xs < 2 ^ 63"

definition stat_fits :: "Stat \<Rightarrow> bool" where
  "stat_fits s \<longleftrightarrow> go_len (stat_Name s) \<and> go_len (Stat_Marshal s)"

fun message_fits :: "message \<Rightarrow> bool" where
  "message_fits (MStat s) = stat_fits s"
| "message_fits (MGetStatsRequest r) = go_len (gsq_Name r)"
| "message_fits (MGetStatsResponse r) = pred_option stat_fits (gsr_Stat r)"
| "message_fits (MQueryStatsRequest r) =
     (go_len (qsq_Pattern r) \<and> list_all go_len (qsq_Patterns r))"
| "message_fits (MQueryStatsResponse r) = list_all stat_fits (qsr_Stat r)"
| "message_fits MSysStatsRequest = True"
| "message_fits (MSysStatsResponse r) = True"
| "message_fits MOther = False"

section \<open>Framing: what the decoder leaves alone\<close>

lemma varint_from_append:
  "varint_from v s d = Inr (x, d') \<Longrightarrow> varint_from v s (d @ y) = Inr (x, d' @ y)"
  by (induction v s d rule: varint_from.induct) (auto simp: Let_def split: if_splits)

lemma varint_append: "varint d = Inr (x, d') \<Longrightarrow> varint (d @ y) = Inr (x, d' @ y)"
  by (simp add: varint_def varint_from_append)

lemma bytes_append:
  assumes "bytes d = Inr (x, d')"
  shows "bytes (d @ y) = Inr (x, d' @ y)"
proof -
  from assms obtain n d1 where v: "varint d = Inr (n, d1)" and "unat n \<le> length d1"
    and "x = take (unat n) d1" and "d' = drop (unat n) d1"
    by (auto simp: bytes_def bindE_eq_Inr_iff split: if_splits)
  then show ?thesis
    by (simp add: bytes_def varint_append [OF v])
qed

lemma skip_append:
  assumes "skip w d = Inr d'"
  shows "skip w (d @ y) = Inr (d' @ y)"
proof -
  consider "w = wireVarint" | "w = wireFixed64" | "w = wireBytes" | "w = wireFixed32"
    using assms by (auto simp: skip_def split: if_splits)
  then show ?thesis
    using assms
    by cases (auto simp: skip_def bindE_eq_Inr_iff wireVarint_def wireFixed64_def
        wireBytes_def wireFixed32_def varint_append bytes_append split: if_splits)
qed

lemma skip_field_append:
  "skip_field w d m = Inr (m', d') \<Longrightarrow> skip_field w (d @ y) m = Inr (m', d' @ y)"
  by (auto simp: skip_field_def bindE_eq_Inr_iff skip_append)

section \<open>Varints and tags\<close>

lemma appendVarint_acc: "appendVarint b v = b @ appendVarint [] v"
proof (induction "unat v" arbitrary: b v rule: less_induct)
  case less
  show ?case
  proof (cases "0x80 \<le> v")
    case True
    then have "unat (drop_bit 7 v) < unat v"
      by (auto simp: unat_drop_bit_eq drop_bit_nat_def word_le_nat_alt simp del: drop_bit_eq_div)
    then have IH: "appendVarint c (drop_bit 7 v) = c @ appendVarint [] (drop_bit 7 v)" for c
      by (rule less)
    show ?thesis
      using True by (simp only: appendVarint.simps [of b v] appendVarint.simps [of "[]" v] if_True)
        (subst IH, subst (2) IH, simp)
  next
    case False
    then show ?thesis
      by (simp add: appendVarint.simps [of b v] appendVarint.simps [of "[]" v])
  qed
qed

lemma appendVarint_nonempty: "appendVarint b v \<noteq> []"
  by (induction b v rule: appendVarint.induct) (subst appendVarint.simps, simp)

lemma mask7: "(0x7f :: 'a::len word) = mask 7"
  by (simp add: mask_eq_exp_minus_1)

lemma bit_0x80: "bit (0x80 :: 'a::len word) n \<longleftrightarrow> n = 7 \<and> n < LENGTH('a)"
proof -
  have "(0x80 :: 'a word) = 2 ^ 7"
    by simp
  then show ?thesis
    by (simp only: bit_exp_iff) auto
qed

lemma low7: "ucast ((ucast (v :: uint64) OR 0x80 :: byte) AND 0x7f) = v AND (0x7f :: uint64)"
  unfolding mask7
  by (rule bit_word_eqI)
    (auto simp only: bit_unsigned_iff bit_and_iff bit_or_iff bit_mask_iff bit_0x80
      possible_bit_word len_bit0 len_num1)

lemma low7_small:
  assumes "v < 0x80"
  shows "ucast ((ucast (v :: uint64) :: byte) AND 0x7f) = v"
proof -
  have v: "take_bit 7 v = v"
    using assms less_mask_eq [of v 7] by (simp add: take_bit_eq_mask)
  have "ucast ((ucast v :: byte) AND 0x7f) = take_bit 7 v"
    unfolding mask7 by (rule bit_word_eqI) (auto simp: bit_simps)
  with v show ?thesis by simp
qed

lemma high_bit_set: "\<not> ((ucast (v::uint64) OR 0x80 :: byte) < 0x80)"
  by (simp add: not_less le_word_or1)

lemma ucast_less_0x80: "v < 0x80 \<Longrightarrow> (ucast (v :: uint64) :: byte) < 0x80"
  by (simp add: word_less_nat_alt unsigned_ucast_eq take_bit_eq_mod)

lemma split7: "push_bit s (v AND 0x7f) OR push_bit (s + 7) (drop_bit 7 v) = push_bit s (v :: uint64)"
  unfolding mask7
proof (rule bit_word_eqI)
  fix n assume "n < LENGTH(64)"
  show "bit (push_bit s (v AND mask 7) OR push_bit (s + 7) (drop_bit 7 v)) n = bit (push_bit s v) n"
    by (cases "n < s + 7") (auto simp: bit_simps not_less)
qed


lemma appendVarint_small: "\<not> 0x80 \<le> v \<Longrightarrow> appendVarint [] v = [ucast v]"
  by (subst appendVarint.simps) simp

lemma appendVarint_large:
  "0x80 \<le> v \<Longrightarrow> appendVarint [] v = (ucast v OR 0x80) # appendVarint [] (drop_bit 7 v)"
  by (subst appendVarint.simps) (simp add: appendVarint_acc [of "[_]"])

text \<open>
  One round of the loop: below bit 64 the remaining value fits, so the shift never reaches
  the overflow check.
\<close>

lemma drop7:
  assumes "(0x80 :: uint64) \<le> v" and "unat v < 2 ^ (64 - s)"
  shows "unat (drop_bit 7 v) < unat v" and "s + 7 < 64" and "unat (drop_bit 7 v) < 2 ^ (64 - (s + 7))"
proof -
  show "unat (drop_bit 7 v) < unat v"
    using assms(1)
    by (auto simp: unat_drop_bit_eq drop_bit_nat_def word_le_nat_alt simp del: drop_bit_eq_div)
  have "(2::nat) ^ 7 < 2 ^ (64 - s)"
    using assms by (simp add: word_le_nat_alt)
  then show s: "s + 7 < 64"
    by (simp only: power_strict_increasing_iff)
  then have "64 - s = (64 - (s + 7)) + 7"
    by simp
  then have "2 ^ (64 - s) = 2 ^ (64 - (s + 7)) * (2 :: nat) ^ 7"
    by (metis power_add)
  then show "unat (drop_bit 7 v) < 2 ^ (64 - (s + 7))"
    using assms(2)
    by (simp add: unat_drop_bit_eq drop_bit_nat_def less_mult_imp_div_less del: drop_bit_eq_div)
qed

lemma varint_from_appendVarint:
  "unat v < 2 ^ (64 - s) \<Longrightarrow>
    varint_from acc s (appendVarint [] v @ rest) = Inr (acc OR push_bit s v, rest)"
proof (induction "unat v" arbitrary: acc s v rule: less_induct)
  case less
  show ?case
  proof (cases "0x80 \<le> v")
    case False
    then show ?thesis
      by (simp add: appendVarint_small low7_small not_le ucast_less_0x80 flip: not_less)
  next
    case True
    note d = drop7 [OF True less.prems]
    with less.hyps [OF d(1) d(3)] True show ?thesis
      by (simp add: appendVarint_large high_bit_set low7 or.assoc split7 del: push_bit_and)
  qed
qed

lemma varint_from_prefix:
  "unat v < 2 ^ (64 - s) \<Longrightarrow> n < length (appendVarint [] v) \<Longrightarrow>
    varint_from acc s (take n (appendVarint [] v)) = Inl Truncated"
proof (induction "unat v" arbitrary: acc s v n rule: less_induct)
  case less
  show ?case
  proof (cases "0x80 \<le> v")
    case False
    with less.prems show ?thesis
      by (simp add: appendVarint_small)
  next
    case True
    note d = drop7 [OF True less.prems(1)]
    with less.hyps [OF d(1) d(3)] less.prems True show ?thesis
      by (cases n) (simp_all add: appendVarint_large high_bit_set)
  qed
qed

lemma length_appendVarint:
  "unat v < 2 ^ (7 * k) \<Longrightarrow> 0 < k \<Longrightarrow> length (appendVarint [] v) \<le> k"
proof (induction k arbitrary: v)
  case (Suc k)
  show ?case
  proof (cases "0x80 \<le> v")
    case False
    then show ?thesis
      by (simp add: appendVarint_small)
  next
    case True
    with Suc.prems have k: "0 < k"
      by (cases k) (simp_all add: word_le_nat_alt)
    have "2 ^ (7 * Suc k) = 2 ^ (7 * k) * (2 :: nat) ^ 7"
      by (simp add: power_add)
    with Suc.prems have "unat (drop_bit 7 v) < 2 ^ (7 * k)"
      by (simp add: unat_drop_bit_eq drop_bit_nat_def less_mult_imp_div_less del: drop_bit_eq_div)
    with Suc.IH [OF this k] True show ?thesis
      by (simp add: appendVarint_large)
  qed
qed simp

lemma varint_appendVarint: "varint (appendVarint [] v @ rest) = Inr (v, rest)"
  using varint_from_appendVarint [of v 0 0 rest] unsigned_less [of v] by (simp add: varint_def)


lemma bytes_appendVarint:
  "go_len b \<Longrightarrow> bytes (appendVarint [] (of_nat (length b)) @ b @ rest) = Inr (b, rest)"
  by (simp add: bytes_def varint_appendVarint go_len_def unat_of_nat take_bit_nat_eq_self)

lemma appendTag_acc: "appendTag b f w = b @ appendTag [] f w"
  unfolding appendTag_def by (rule appendVarint_acc)

lemma appendFields_acc:
  "appendStringField b f s = b @ appendStringField [] f s"
  "appendStringElement b f s = b @ appendStringElement [] f s"
  "appendMessageField b f d = b @ appendMessageField [] f d"
  "appendBoolField b f x = b @ appendBoolField [] f x"
  "appendInt64Field b f v = b @ appendInt64Field [] f v"
  "appendUint64Field b f v = b @ appendUint64Field [] f v"
  unfolding appendStringField_def appendStringElement_def appendMessageField_def
    appendBoolField_def appendInt64Field_def appendUint64Field_def Let_def
  by (simp_all add: appendVarint_acc [of "appendTag b f _"] appendVarint_acc [of "appendTag [] f _"]
      appendVarint_acc [of "b @ _"] appendTag_acc [of b])

lemma tag_parts:
  assumes "f < 2 ^ 61" and "w < 8"
  shows "tag_field (push_bit 3 (of_nat f) OR ucast (w :: byte)) = f"
    and "tag_wire (push_bit 3 (of_nat f) OR ucast w) = w"
proof -
  have w: "take_bit 3 w = w"
    using assms(2) less_mask_eq [of w 3] by (simp add: take_bit_eq_mask)
  have wb: "\<not> bit w n" if "3 \<le> n" for n
    using that by (subst w [symmetric]) (simp add: bit_take_bit_iff)
  have f: "take_bit 61 (of_nat f :: uint64) = of_nat f"
    using assms(1) by (simp add: take_bit_of_nat take_bit_nat_eq_self)
  have fb: "\<not> bit (of_nat f :: uint64) n" if "61 \<le> n" for n
    using that by (subst f [symmetric]) (simp add: bit_take_bit_iff)
  have "drop_bit 3 (push_bit 3 (of_nat f) OR ucast w) = (of_nat f :: uint64)"
    using wb fb by (intro bit_word_eqI) (auto simp: bit_simps not_less, meson not_le)
  then show "tag_field (push_bit 3 (of_nat f) OR ucast w) = f"
    using assms(1) by (simp add: tag_field_def unat_of_nat take_bit_nat_eq_self)
  have m: "7 = (mask 3 :: uint64)"
    by (simp add: mask_eq_exp_minus_1)
  show "tag_wire (push_bit 3 (of_nat f) OR ucast w) = w"
    using wb unfolding tag_wire_def m
    by (intro bit_word_eqI) (auto simp: bit_simps not_less, meson not_le)
qed

lemma appendStringField_eq:
  "appendStringField b f s = (if s = [] then b else appendMessageField b f (bytes_of s))"
  by (simp add: appendStringField_def appendMessageField_def Let_def)

lemma appendStringElement_eq: "appendStringElement b f s = appendMessageField b f (bytes_of s)"
  by (simp add: appendStringElement_def appendMessageField_def Let_def)

section \<open>The common contract of the Unmarshal loops\<close>

locale proto_message =
  fixes unm :: "byte list \<Rightarrow> 'm \<Rightarrow> wire_error + 'm"
    and on_field :: "nat \<Rightarrow> byte \<Rightarrow> byte list \<Rightarrow> 'm \<Rightarrow> wire_error + ('m \<times> byte list)"
    and known :: "nat \<Rightarrow> byte \<Rightarrow> bool"
  assumes unm_rec: "unm d m =
      (if d = [] then Inr m
       else bindE (varint d) (\<lambda>(tag, d).
         bindE (on_field (tag_field tag) (tag_wire tag) d m) (\<lambda>(m, d). unm d m)))"
    and on_field_append: "on_field f w d m = Inr (m', d') \<Longrightarrow>
      on_field f w (d @ x) m = Inr (m', d' @ x)"
    and on_field_length: "on_field f w d m = Inr (m', d') \<Longrightarrow> length d' \<le> length d"
    and on_field_unknown: "\<not> known f w \<Longrightarrow> on_field f w d m = skip_field w d m"
begin

lemma unm_Nil: "unm [] m = Inr m"
  by (simp add: unm_rec)

lemma unm_tag:
  "d \<noteq> [] \<Longrightarrow> varint d = Inr (tag, d1) \<Longrightarrow>
    unm d m = bindE (on_field (tag_field tag) (tag_wire tag) d1 m) (\<lambda>(m, d). unm d m)"
  by (subst unm_rec) simp

text \<open>
  The decoder merges: what follows a well-formed message is decoded on top of it.
\<close>

lemma unm_append: "unm a m = Inr m' \<Longrightarrow> unm (a @ b) m = unm b m'"
proof (induction "length a" arbitrary: a m rule: less_induct)
  case less
  show ?case
  proof (cases "a = []")
    case True
    with less.prems show ?thesis
      by (simp add: unm_Nil)
  next
    case False
    with less.prems obtain tag d1 m1 d2 where
      tag: "varint a = Inr (tag, d1)" and
      fld: "on_field (tag_field tag) (tag_wire tag) d1 m = Inr (m1, d2)" and
      rest: "unm d2 m1 = Inr m'"
      by (auto simp: unm_rec [of a] bindE_eq_Inr_iff)
    have "length d2 < length a"
      using varint_length [OF tag] on_field_length [OF fld] by simp
    with rest have "unm (d2 @ b) m1 = unm b m'"
      by (auto intro: less.hyps)
    with False show ?thesis
      by (simp add: unm_rec [of "a @ b"] varint_append [OF tag] on_field_append [OF fld])
  qed
qed

lemma unm_field:
  assumes "f < 2 ^ 61" and "w < 8"
    and "on_field f w (payload @ rest) m = Inr (m', rest)"
  shows "unm (appendTag [] f w @ payload @ rest) m = unm rest m'"
proof -
  have "varint (appendTag [] f w @ payload @ rest) =
      Inr (push_bit 3 (of_nat f) OR ucast w, payload @ rest)"
    by (simp add: appendTag_def varint_appendVarint)
  with assms show ?thesis
    by (subst unm_rec) (simp add: tag_parts appendTag_def appendVarint_nonempty)
qed

lemma unm_bytes_field:
  assumes "f < 2 ^ 61" and "go_len b"
    and "\<And>d. bytes d = Inr (b, rest) \<Longrightarrow> on_field f wireBytes d m = Inr (m', rest)"
  shows "unm (appendMessageField [] f b @ rest) m = unm rest m'"
proof -
  have "unm (appendTag [] f wireBytes @ (appendVarint [] (of_nat (length b)) @ b) @ rest) m = unm rest m'"
    using assms by (intro unm_field) (simp_all add: wireBytes_def bytes_appendVarint)
  then show ?thesis
    by (simp add: appendMessageField_def appendVarint_acc [of "appendTag _ _ _"])
qed

lemma unm_varint_field:
  assumes "f < 2 ^ 61"
    and "\<And>d. varint d = Inr (v, rest) \<Longrightarrow> on_field f wireVarint d m = Inr (m', rest)"
  shows "unm (appendVarint (appendTag [] f wireVarint) v @ rest) m = unm rest m'"
proof -
  have "unm (appendTag [] f wireVarint @ appendVarint [] v @ rest) m = unm rest m'"
    using assms by (intro unm_field) (simp_all add: wireVarint_def varint_appendVarint)
  then show ?thesis
    by (simp add: appendVarint_acc [of "appendTag _ _ _"])
qed

lemma unm_unknown_field:
  assumes "f < 2 ^ 61" and "w < 8" and "\<not> known f w" and "skip w payload = Inr []"
  shows "unm (appendTag [] f w @ payload @ rest) m = unm rest m"
proof (rule unm_field [OF assms(1,2)])
  show "on_field f w (payload @ rest) m = Inr (m, rest)"
    using skip_append [OF assms(4), of rest]
    by (simp add: on_field_unknown [OF assms(3)] skip_field_def)
qed

lemma unm_unsupported:
  assumes "f < 2 ^ 61" and "w < 8" and "\<not> known f w" and "skip w rest = Inl e"
  shows "unm (appendTag [] f w @ rest) m = Inl e"
proof -
  have "varint (appendTag [] f w @ rest) = Inr (push_bit 3 (of_nat f) OR ucast w, rest)"
    unfolding appendTag_def by (rule varint_appendVarint)
  then show ?thesis
    using unm_tag [of "appendTag [] f w @ rest" _ rest m] assms(3,4)
    by (simp add: tag_parts [OF assms(1,2)] on_field_unknown skip_field_def appendTag_def appendVarint_nonempty)
qed

lemma unm_error:
  "varint d = Inl e \<Longrightarrow> d \<noteq> [] \<Longrightarrow> unm d m = Inl e"
  by (subst unm_rec) simp

end

section \<open>The seven message types satisfy the contract\<close>

lemmas on_field_defs =
  Stat_field_def GetStatsRequest_field_def GetStatsResponse_field_def
  QueryStatsRequest_field_def QueryStatsResponse_field_def SysStatsResponse_field_def

lemmas on_field_appends = bytes_append varint_append skip_field_append

interpretation stat: proto_message Stat_Unmarshal Stat_field
  "\<lambda>f w. (f = 1 \<and> w = wireBytes) \<or> (f = 2 \<and> w = wireVarint)"
  by (unfold_locales, rule Stat_Unmarshal.simps,
      (auto simp: Stat_field_def bindE_eq_Inr_iff on_field_appends split: if_splits)[1],
      erule Stat_field_length, (auto simp: Stat_field_def)[1])

interpretation getq: proto_message GetStatsRequest_Unmarshal GetStatsRequest_field
  "\<lambda>f w. (f = 1 \<and> w = wireBytes) \<or> (f = 2 \<and> w = wireVarint)"
  by (unfold_locales, rule GetStatsRequest_Unmarshal.simps,
      (auto simp: GetStatsRequest_field_def bindE_eq_Inr_iff on_field_appends split: if_splits)[1],
      erule GetStatsRequest_field_length, (auto simp: GetStatsRequest_field_def)[1])

interpretation getr: proto_message GetStatsResponse_Unmarshal GetStatsResponse_field
  "\<lambda>f w. f = 1 \<and> w = wireBytes"
  by (unfold_locales, rule GetStatsResponse_Unmarshal.simps,
      (auto simp: GetStatsResponse_field_def bindE_eq_Inr_iff on_field_appends split: if_splits)[1],
      erule GetStatsResponse_field_length, (auto simp: GetStatsResponse_field_def)[1])

interpretation queryq: proto_message QueryStatsRequest_Unmarshal QueryStatsRequest_field
  "\<lambda>f w. (f \<in> {1, 3} \<and> w = wireBytes) \<or> (f \<in> {2, 4} \<and> w = wireVarint)"
  by (unfold_locales, rule QueryStatsRequest_Unmarshal.simps,
      (auto simp: QueryStatsRequest_field_def bindE_eq_Inr_iff on_field_appends split: if_splits)[1],
      erule QueryStatsRequest_field_length, (auto simp: QueryStatsRequest_field_def)[1])

interpretation queryr: proto_message QueryStatsResponse_Unmarshal QueryStatsResponse_field
  "\<lambda>f w. f = 1 \<and> w = wireBytes"
  by (unfold_locales, rule QueryStatsResponse_Unmarshal.simps,
      (auto simp: QueryStatsResponse_field_def bindE_eq_Inr_iff on_field_appends split: if_splits)[1],
      erule QueryStatsResponse_field_length, (auto simp: QueryStatsResponse_field_def)[1])

interpretation sysq: proto_message SysStatsRequest_Unmarshal "\<lambda>f. skip_field" "\<lambda>f w. False"
  by unfold_locales
    (rule SysStatsRequest_Unmarshal.simps, auto simp: skip_field_append dest!: skip_field_length)

interpretation sysr: proto_message SysStatsResponse_Unmarshal SysStatsResponse_field
  "\<lambda>f w. f \<in> {1..10} \<and> w = wireVarint"
  by (unfold_locales, rule SysStatsResponse_Unmarshal.simps,
      (auto simp: SysStatsResponse_field_def bindE_eq_Inr_iff on_field_appends split: if_splits)[1],
      erule SysStatsResponse_field_length, (auto simp: SysStatsResponse_field_def SysStatsResponse_set_def skip_field_def skip_def
        bindE_assoc case_prod_unfold)[1])


lemma go_len_bytes_of [simp]: "go_len (bytes_of s) = go_len s"
  by (simp add: go_len_def)

section \<open>Round trips\<close>

text \<open>One lemma per message: decoding its encoding, whatever follows, from the zero value.\<close>

lemma Stat_fields:
  "go_len s \<Longrightarrow> Stat_Unmarshal (appendStringField [] 1 s @ r) m =
    Stat_Unmarshal r (if s = [] then m else m\<lparr>stat_Name := s\<rparr>)"
  "Stat_Unmarshal (appendInt64Field [] 2 v @ r) m =
    Stat_Unmarshal r (if v = 0 then m else m\<lparr>stat_Value := v\<rparr>)"
  by (auto simp: appendStringField_eq appendInt64Field_def Stat_field_def
      intro: stat.unm_bytes_field stat.unm_varint_field)

lemma Stat_merge:
  "go_len (stat_Name s) \<Longrightarrow> Stat_Unmarshal (Stat_Marshal s @ r) zero_Stat = Stat_Unmarshal r s"
  by (cases s) (simp add: Stat_Marshal_def Let_def appendFields_acc [of "appendStringField _ _ _"]
      Stat_fields zero_Stat_def del: One_nat_def)

lemma Stat_roundtrip: "go_len (stat_Name s) \<Longrightarrow> Stat_Unmarshal (Stat_Marshal s) zero_Stat = Inr s"
  using Stat_merge [of s "[]"] by (simp add: stat.unm_Nil)

lemma GetStatsRequest_fields:
  "go_len s \<Longrightarrow> GetStatsRequest_Unmarshal (appendStringField [] 1 s @ r) m =
    GetStatsRequest_Unmarshal r (if s = [] then m else m\<lparr>gsq_Name := s\<rparr>)"
  "GetStatsRequest_Unmarshal (appendBoolField [] 2 v @ r) m =
    GetStatsRequest_Unmarshal r (if \<not> v then m else m\<lparr>gsq_Reset := True\<rparr>)"
  by (auto simp: appendStringField_eq appendBoolField_def GetStatsRequest_field_def
      intro: getq.unm_bytes_field getq.unm_varint_field)

lemma GetStatsRequest_merge:
  "go_len (gsq_Name q) \<Longrightarrow>
    GetStatsRequest_Unmarshal (GetStatsRequest_Marshal q @ r) \<lparr>gsq_Name = [], gsq_Reset = False\<rparr> =
    GetStatsRequest_Unmarshal r q"
  by (cases q) (simp add: GetStatsRequest_Marshal_def Let_def appendFields_acc [of "appendStringField _ _ _"]
      GetStatsRequest_fields del: One_nat_def)

lemma GetStatsResponse_merge:
  "pred_option stat_fits (gsr_Stat q) \<Longrightarrow>
    GetStatsResponse_Unmarshal (GetStatsResponse_Marshal q @ r) \<lparr>gsr_Stat = None\<rparr> =
    GetStatsResponse_Unmarshal r q"
  by (cases q)
    (auto simp: GetStatsResponse_Marshal_def GetStatsResponse_field_def stat_fits_def
      Stat_roundtrip split: option.split intro: getr.unm_bytes_field)

lemma QueryStatsRequest_fields:
  "go_len s \<Longrightarrow> QueryStatsRequest_Unmarshal (appendStringField [] 1 s @ r) m =
    QueryStatsRequest_Unmarshal r (if s = [] then m else m\<lparr>qsq_Pattern := s\<rparr>)"
  "QueryStatsRequest_Unmarshal (appendBoolField [] 2 v @ r) m =
    QueryStatsRequest_Unmarshal r (if \<not> v then m else m\<lparr>qsq_Reset := True\<rparr>)"
  "go_len s \<Longrightarrow> QueryStatsRequest_Unmarshal (appendStringElement [] 3 s @ r) m =
    QueryStatsRequest_Unmarshal r (m\<lparr>qsq_Patterns := qsq_Patterns m @ [s]\<rparr>)"
  "QueryStatsRequest_Unmarshal (appendBoolField [] 4 v @ r) m =
    QueryStatsRequest_Unmarshal r (if \<not> v then m else m\<lparr>qsq_Regexp := True\<rparr>)"
  by (auto simp: appendStringField_eq appendStringElement_eq appendBoolField_def
      QueryStatsRequest_field_def intro: queryq.unm_bytes_field queryq.unm_varint_field)

lemma foldl_append_concat:
  "(\<And>b x. f b x = b @ f [] x) \<Longrightarrow> foldl f b xs = b @ concat (map (f []) xs)"
  by (induction xs arbitrary: b) (simp, metis append_assoc concat.simps(2) foldl_Cons list.simps(9))

lemma QueryStatsRequest_patterns:
  "list_all go_len ps \<Longrightarrow>
    QueryStatsRequest_Unmarshal (concat (map (appendStringElement [] 3) ps) @ r) m =
    QueryStatsRequest_Unmarshal r (m\<lparr>qsq_Patterns := qsq_Patterns m @ ps\<rparr>)"
  by (induction ps arbitrary: m) (simp_all add: QueryStatsRequest_fields)

lemma QueryStatsRequest_merge:
  "go_len (qsq_Pattern q) \<Longrightarrow> list_all go_len (qsq_Patterns q) \<Longrightarrow>
    QueryStatsRequest_Unmarshal (QueryStatsRequest_Marshal q @ r)
      \<lparr>qsq_Pattern = [], qsq_Reset = False, qsq_Patterns = [], qsq_Regexp = False\<rparr> =
    QueryStatsRequest_Unmarshal r q"
  by (cases q) (simp add: QueryStatsRequest_Marshal_def Let_def QueryStatsRequest_fields
      QueryStatsRequest_patterns appendFields_acc(4) [of "_ @ _"]
      appendFields_acc(4) [of "appendStringField _ _ _"]
      foldl_append_concat [where f = "\<lambda>b. appendStringElement b 3", OF appendFields_acc(2)]
      del: One_nat_def)

lemma QueryStatsResponse_stats:
  "list_all stat_fits ss \<Longrightarrow>
    QueryStatsResponse_Unmarshal
      (concat (map (\<lambda>s. appendMessageField [] 1 (Stat_Marshal s)) ss) @ r) m =
    QueryStatsResponse_Unmarshal r (m\<lparr>qsr_Stat := qsr_Stat m @ ss\<rparr>)"
proof (induction ss arbitrary: m)
  case (Cons s ss)
  have "QueryStatsResponse_Unmarshal (appendMessageField [] 1 (Stat_Marshal s) @ r') m =
      QueryStatsResponse_Unmarshal r' (m\<lparr>qsr_Stat := qsr_Stat m @ [s]\<rparr>)" for r'
    using Cons.prems
    by (intro queryr.unm_bytes_field)
      (simp_all add: QueryStatsResponse_field_def stat_fits_def Stat_roundtrip)
  with Cons show ?case
    by simp
qed simp

lemma QueryStatsResponse_merge:
  "list_all stat_fits (qsr_Stat q) \<Longrightarrow>
    QueryStatsResponse_Unmarshal (QueryStatsResponse_Marshal q @ r) \<lparr>qsr_Stat = []\<rparr> =
    QueryStatsResponse_Unmarshal r q"
  by (cases q) (simp add: QueryStatsResponse_Marshal_def QueryStatsResponse_stats
      foldl_append_concat [where f = "\<lambda>b s. appendMessageField b 1 (Stat_Marshal s)",
        OF appendFields_acc(3)] del: One_nat_def)

lemma SysStatsResponse_step:
  "f \<in> {1..10} \<Longrightarrow> v = 0 \<longrightarrow> SysStatsResponse_set f v m = m \<Longrightarrow>
    SysStatsResponse_Unmarshal (appendUint64Field [] f v @ r) m =
    SysStatsResponse_Unmarshal r (SysStatsResponse_set f v m)"
  by (auto simp: appendUint64Field_def SysStatsResponse_field_def intro: sysr.unm_varint_field)

lemma ucast_u32_u64 [simp]: "ucast (ucast (v :: uint32) :: uint64) = v"
  by (rule bit_word_eqI) (simp add: bit_simps)

lemma SysStatsResponse_fields:
  "ssr_NumGoroutine m = 0 \<Longrightarrow> SysStatsResponse_Unmarshal (appendUint64Field [] 1 (ucast n) @ r) m =
    SysStatsResponse_Unmarshal r (m\<lparr>ssr_NumGoroutine := n\<rparr>)"
  "ssr_NumGC m = 0 \<Longrightarrow> SysStatsResponse_Unmarshal (appendUint64Field [] 2 (ucast n) @ r) m =
    SysStatsResponse_Unmarshal r (m\<lparr>ssr_NumGC := n\<rparr>)"
  "ssr_Alloc m = 0 \<Longrightarrow> SysStatsResponse_Unmarshal (appendUint64Field [] 3 v @ r) m =
    SysStatsResponse_Unmarshal r (m\<lparr>ssr_Alloc := v\<rparr>)"
  "ssr_TotalAlloc m = 0 \<Longrightarrow> SysStatsResponse_Unmarshal (appendUint64Field [] 4 v @ r) m =
    SysStatsResponse_Unmarshal r (m\<lparr>ssr_TotalAlloc := v\<rparr>)"
  "ssr_Sys m = 0 \<Longrightarrow> SysStatsResponse_Unmarshal (appendUint64Field [] 5 v @ r) m =
    SysStatsResponse_Unmarshal r (m\<lparr>ssr_Sys := v\<rparr>)"
  "ssr_Mallocs m = 0 \<Longrightarrow> SysStatsResponse_Unmarshal (appendUint64Field [] 6 v @ r) m =
    SysStatsResponse_Unmarshal r (m\<lparr>ssr_Mallocs := v\<rparr>)"
  "ssr_Frees m = 0 \<Longrightarrow> SysStatsResponse_Unmarshal (appendUint64Field [] 7 v @ r) m =
    SysStatsResponse_Unmarshal r (m\<lparr>ssr_Frees := v\<rparr>)"
  "ssr_LiveObjects m = 0 \<Longrightarrow> SysStatsResponse_Unmarshal (appendUint64Field [] 8 v @ r) m =
    SysStatsResponse_Unmarshal r (m\<lparr>ssr_LiveObjects := v\<rparr>)"
  "ssr_PauseTotalNs m = 0 \<Longrightarrow> SysStatsResponse_Unmarshal (appendUint64Field [] 9 v @ r) m =
    SysStatsResponse_Unmarshal r (m\<lparr>ssr_PauseTotalNs := v\<rparr>)"
  "ssr_Uptime m = 0 \<Longrightarrow> SysStatsResponse_Unmarshal (appendUint64Field [] 10 (ucast n) @ r) m =
    SysStatsResponse_Unmarshal r (m\<lparr>ssr_Uptime := n\<rparr>)"
  by (subst SysStatsResponse_step; simp add: SysStatsResponse_set_def; cases m; simp)+

lemma SysStatsResponse_merge:
  "zero_message (MSysStatsResponse q) = MSysStatsResponse z \<Longrightarrow>
    SysStatsResponse_Unmarshal (SysStatsResponse_Marshal q @ r) z = SysStatsResponse_Unmarshal r q"
  by (cases q) (auto simp: SysStatsResponse_Marshal_def Let_def appendFields_acc(6) [of "_ @ _"]
      appendFields_acc(6) [of "appendUint64Field _ _ _"] SysStatsResponse_fields
      simp del: One_nat_def)

section \<open>Properties\<close>

text \<open>
  C1.  Whatever message of the stats protocol the codec marshals, unmarshalling the bytes into a
  fresh message of the same type gives the message back: every field, every repeated element
  and its position, for all seven message types.
\<close>

theorem Codec_roundtrip:
  assumes "message_fits m"
  shows "bindE (Codec_Marshal m) (\<lambda>b. Codec_Unmarshal b (zero_message m)) = Inr m"
proof (cases m)
  case (MStat s)
  with assms show ?thesis
    by (simp add: Stat_roundtrip stat_fits_def)
next
  case (MGetStatsRequest q)
  with assms GetStatsRequest_merge [of q "[]"] show ?thesis
    by (simp add: getq.unm_Nil)
next
  case (MGetStatsResponse q)
  with assms GetStatsResponse_merge [of q "[]"] show ?thesis
    by (simp add: getr.unm_Nil)
next
  case (MQueryStatsRequest q)
  with assms QueryStatsRequest_merge [of q "[]"] show ?thesis
    by (simp add: queryq.unm_Nil)
next
  case (MQueryStatsResponse q)
  with assms QueryStatsResponse_merge [of q "[]"] show ?thesis
    by (simp add: queryr.unm_Nil)
next
  case MSysStatsRequest
  then show ?thesis
    by (simp add: SysStatsRequest_Marshal_def sysq.unm_Nil)
next
  case (MSysStatsResponse q)
  with SysStatsResponse_merge [of q _ "[]", OF zero_message.simps(7)] show ?thesis
    by (simp add: sysr.unm_Nil)
next
  case MOther
  with assms show ?thesis
    by simp
qed

theorem Codec_roundtrip_witness:
  "let m = MQueryStatsRequest \<lparr>qsq_Pattern = ''user'', qsq_Reset = True,
             qsq_Patterns = [''a'', []], qsq_Regexp = False\<rparr>
   in bindE (Codec_Marshal m) (\<lambda>b. Codec_Unmarshal b (zero_message m)) = Inr m"
  unfolding Let_def by (rule Codec_roundtrip) (simp add: go_len_def)

text \<open>
  The values of an unknown field, as the protobuf encoding defines them for its wire types: a varint is up to nine bytes with
  the high bit and one without, a 64-bit value is eight bytes and a 32-bit value four, a byte string is its length and its bytes.
  The other wire types (groups and two unassigned ones) are not supported by the agent.
\<close>

definition protobuf_value :: "byte \<Rightarrow> byte list \<Rightarrow> bool" where
  "protobuf_value w p \<longleftrightarrow>
     w = 0 \<and> (\<exists>bs b. p = bs @ [b] \<and> (\<forall>x \<in> set bs. 0x80 \<le> x) \<and> b < 0x80 \<and> length bs \<le> 9) \<or>
     w = 1 \<and> length p = 8 \<or>
     w = 2 \<and> (\<exists>d. go_len d \<and> p = appendVarint [] (of_nat (length d)) @ d) \<or>
     w = 5 \<and> length p = 4"

lemma varint_from_any:
  "\<forall>x \<in> set bs. 0x80 \<le> x \<Longrightarrow> b < 0x80 \<Longrightarrow> s + 7 * length bs < 64 \<Longrightarrow>
     \<exists>v'. varint_from v s (bs @ b # rest) = Inr (v', rest)"
proof (induction bs arbitrary: v s)
  case (Cons x bs)
  then show ?case
    using Cons.IH [of "s + 7"] by (simp add: Let_def leD)
qed simp

lemma skip_value:
  assumes "protobuf_value w p"
  shows "skip w p = Inr []"
  using assms unfolding protobuf_value_def
proof (elim disjE conjE exE)
  fix bs b
  assume "w = 0" "p = bs @ [b]" "\<forall>x \<in> set bs. 0x80 \<le> x" "b < 0x80" "length bs \<le> 9"
  with varint_from_any [of bs b 0 0 "[]"] show ?thesis
    by (auto simp: skip_def wireVarint_def varint_def)
next
  fix d
  assume "w = 2" "go_len d" "p = appendVarint [] (of_nat (length d)) @ d"
  with bytes_appendVarint [of d "[]"] show ?thesis
    by (simp add: skip_def wireVarint_def wireFixed64_def wireBytes_def)
qed (simp_all add: skip_def wireVarint_def wireFixed64_def wireBytes_def wireFixed32_def)

text \<open>
  C2.  Forward compatibility of the response the agent reads.  A field this version does not know, wherever it stands, with a
  value of one of the wire types 0 (varint), 1 (64-bit), 2 (bytes) and 5 (32-bit), is skipped without changing what is decoded
  from the bytes behind it.  A field of another wire type is an error that names this type, whatever follows.
\<close>

theorem QueryStatsResponse_skips_unknown:
  assumes "f < 2 ^ 61" and "w < 8" and "\<not> (f = 1 \<and> w = 2)" and "QueryStatsResponse_Unmarshal before m = Inr m'"
  shows "(protobuf_value w payload \<longrightarrow>
      QueryStatsResponse_Unmarshal (before @ appendTag [] f w @ payload @ after) m = QueryStatsResponse_Unmarshal (before @ after) m) \<and>
    (w \<notin> {0, 1, 2, 5} \<longrightarrow>
      QueryStatsResponse_Unmarshal (before @ appendTag [] f w @ payload @ after) m = Inl (UnsupportedWire w))"
proof -
  have unknown: "\<not> (f = 1 \<and> w = wireBytes)"
    using assms(3) by (simp add: wireBytes_def)
  have "skip w rest = Inl (UnsupportedWire w)" if "w \<notin> {0, 1, 2, 5}" for rest
    using that by (simp add: skip_def wireVarint_def wireFixed64_def wireBytes_def wireFixed32_def)
  then show ?thesis
    using queryr.unm_unknown_field [OF assms(1,2) unknown skip_value] queryr.unm_unsupported [OF assms(1,2) unknown] assms(4)
    by (simp add: queryr.unm_append)
qed

theorem QueryStatsResponse_skips_unknown_witness:
  "QueryStatsResponse_Unmarshal ([10, 0] @ appendTag [] 7 1 @ [1, 2, 3, 4, 5, 6, 7, 8] @ [10, 0]) \<lparr>qsr_Stat = []\<rparr> =
     QueryStatsResponse_Unmarshal ([10, 0] @ [10, 0]) \<lparr>qsr_Stat = []\<rparr> \<and>
   QueryStatsResponse_Unmarshal ([10, 0] @ appendTag [] 1 3 @ [] @ [10, 0]) \<lparr>qsr_Stat = []\<rparr> = Inl (UnsupportedWire 3)"
proof -
  have "QueryStatsResponse_Unmarshal [10, 0] \<lparr>qsr_Stat = []\<rparr> = Inr \<lparr>qsr_Stat = [\<lparr>stat_Name = [], stat_Value = 0\<rparr>]\<rparr>"
    by code_simp
  from QueryStatsResponse_skips_unknown [OF _ _ _ this, of 7 1 "[1, 2, 3, 4, 5, 6, 7, 8]" "[10, 0]"]
    QueryStatsResponse_skips_unknown [OF _ _ _ this, of 1 3 "[]" "[10, 0]"]
  show ?thesis
    by (simp add: protobuf_value_def)
qed

text \<open>
  C3.  The varint decoder inverts the encoder on every 64-bit value and consumes exactly the
  encoding, which takes at most ten bytes; on every proper prefix of an encoding it reports
  truncation instead of a wrong value.
\<close>

theorem varint_codec:
  "varint (appendVarint [] v @ rest) = Inr (v, rest) \<and>
   length (appendVarint [] v) \<le> 10 \<and>
   (n < length (appendVarint [] v) \<longrightarrow> varint (take n (appendVarint [] v)) = Inl Truncated)"
proof (intro conjI impI)
  have v: "unat v < 2 ^ 64"
    using unsigned_less [of v] by simp
  then show "length (appendVarint [] v) \<le> 10"
    by (intro length_appendVarint) (auto elim: less_trans)
  show "n < length (appendVarint [] v) \<Longrightarrow> varint (take n (appendVarint [] v)) = Inl Truncated"
    using v by (simp add: varint_def varint_from_prefix)
qed (rule varint_appendVarint)

theorem varint_codec_witness:
  "varint (appendVarint [] 300 @ [7]) = Inr (300, [7]) \<and> varint (take 1 (appendVarint [] 300)) = Inl Truncated"
proof -
  have "appendVarint [] 300 = [0xAC, 2]"
    by (simp add: appendVarint_large appendVarint_small)
  then show ?thesis
    using varint_codec [of 300 "[7]" 1] by simp
qed

end
