(* ===== verification/Stats.thy ===== *)
theory Stats
  imports Wire SingBoxClient Api
begin

text \<open>
  Traffic statistics: the client of sing-box's stats service (\<open>internal/singbox/v2ray_stats.go\<close>), the provider that joins its
  counters with the configuration (\<open>stats_provider.go\<close>), the REST handler (\<open>internal/handlers/stats.go\<close>), and the exported
  metrics with their collection loop (\<open>internal/metrics\<close>).

  A call of the stats service is a function from the bytes of the request to the bytes of the response, between which
  gRPC applies the codec of theory \<open>Wire\<close>; it may change the state \<open>'w\<close> of the outside.  A Prometheus gauge is the value last set, a
  Prometheus counter the sum of the values added to it.
\<close>

section \<open>The stats client\<close>

record 'w V2RayStatsClient =
  conn_call :: "byte list \<Rightarrow> 'w \<Rightarrow> 'w \<times> (string + byte list)"
  codec_error :: "wire_error \<Rightarrow> string"

text \<open>\<open>conn.Invoke\<close> with the method \<open>QueryStats\<close>.\<close>

definition Invoke :: "'w V2RayStatsClient \<Rightarrow> QueryStatsRequest \<Rightarrow> 'w \<Rightarrow> 'w \<times> (string + QueryStatsResponse)" where
  "Invoke c req w =
     (case conn_call c (QueryStatsRequest_Marshal req) w of
        (w', Inl err) \<Rightarrow> (w', Inl err)
      | (w', Inr data) \<Rightarrow>
          (w', case QueryStatsResponse_Unmarshal data \<lparr>qsr_Stat = []\<rparr> of
                 Inl err \<Rightarrow> Inl (codec_error c err)
               | Inr resp \<Rightarrow> Inr resp))"

definition patterns_request :: "string list \<Rightarrow> QueryStatsRequest" where
  "patterns_request ps = \<lparr>qsq_Pattern = [], qsq_Reset = False, qsq_Patterns = ps, qsq_Regexp = False\<rparr>"

definition queryStats :: "'w V2RayStatsClient \<Rightarrow> string \<Rightarrow> 'w \<Rightarrow> 'w \<times> (string + int64)" where
  "queryStats c pattern w =
     (case Invoke c (patterns_request [pattern]) w of
        (w', Inl err) \<Rightarrow> (w', Inl err)
      | (w', Inr resp) \<Rightarrow> (w', Inr (case GetStat (Some resp) of stat # _ \<Rightarrow> GetValue (Some stat) | [] \<Rightarrow> 0)))"

text \<open>\<open>if v > 0 { x = uint64(v) }\<close>, with the zero value otherwise.\<close>

definition positive :: "int64 \<Rightarrow> uint64" where
  "positive v = (if 0 < sint v then v else 0)"

definition InboundTraffic :: "'w V2RayStatsClient \<Rightarrow> string \<Rightarrow> 'w \<Rightarrow> 'w \<times> (string + uint64 \<times> uint64)" where
  "InboundTraffic c tag w =
     (case queryStats c (''inbound>>>'' @ tag @ ''>>>traffic>>>uplink'') w of
        (w, Inl err) \<Rightarrow> (w, Inl (''query uplink for '' @ tag @ '': '' @ err))
      | (w, Inr upVal) \<Rightarrow>
          (case queryStats c (''inbound>>>'' @ tag @ ''>>>traffic>>>downlink'') w of
             (w, Inl err) \<Rightarrow> (w, Inl (''query downlink for '' @ tag @ '': '' @ err))
           | (w, Inr downVal) \<Rightarrow> (w, Inr (positive upVal, positive downVal))))"

type_synonym traffic = "(string, uint64 \<times> uint64) gomap"

definition user_patterns :: "string list \<Rightarrow> string list" where
  "user_patterns ns =
     concat (map (\<lambda>name. [''user>>>'' @ name @ ''>>>traffic>>>uplink'', ''user>>>'' @ name @ ''>>>traffic>>>downlink'']) ns)"

definition stat_user :: "string \<Rightarrow> string" where
  "stat_user name =
     TrimSuffix (TrimSuffix (TrimPrefix name ''user>>>'') ''>>>traffic>>>uplink'') ''>>>traffic>>>downlink''"

definition add_stat :: "Stat \<Rightarrow> traffic \<Rightarrow> traffic" where
  "add_stat stat result =
     (let name = GetName (Some stat)
      in if \<not> HasPrefix name ''user>>>'' \<or> \<not> Contains name ''>>>traffic>>>'' then result
         else let userName = stat_user name;
                  entry = (case mget result userName of Some e \<Rightarrow> e | None \<Rightarrow> (0, 0));
                  entry = (if HasSuffix name ''>>>uplink'' then (GetValue (Some stat), snd entry)
                           else if HasSuffix name ''>>>downlink'' then (fst entry, GetValue (Some stat)) else entry)
              in mput userName entry result)"

definition UserTrafficBatch :: "'w V2RayStatsClient \<Rightarrow> string list \<Rightarrow> 'w \<Rightarrow> 'w \<times> (string + traffic)" where
  "UserTrafficBatch c ns w =
     (if ns = [] then (w, Inr [])
      else case Invoke c (patterns_request (user_patterns ns)) w of
             (w', Inl err) \<Rightarrow> (w', Inl err)
           | (w', Inr resp) \<Rightarrow> (w', Inr (fold add_stat (GetStat (Some resp)) [])))"

section \<open>The provider\<close>

record TrafficInboundStat =
  ti_Tag :: string
  ti_Type :: string
  ti_UpBytes :: uint64
  ti_DownBytes :: uint64

record TrafficUserStat =
  tu_SubID :: string
  tu_Inbound :: string
  tu_UpBytes :: uint64
  tu_DownBytes :: uint64

text \<open>A failing query counts as zero traffic.\<close>

definition inbound_stat :: "'w V2RayStatsClient option \<Rightarrow> Inbound \<Rightarrow> 'w \<Rightarrow> 'w \<times> TrafficInboundStat" where
  "inbound_stat statsClient ib w =
     (case statsClient of
        None \<Rightarrow> (w, \<lparr>ti_Tag = Tag ib, ti_Type = Type ib, ti_UpBytes = 0, ti_DownBytes = 0\<rparr>)
      | Some c \<Rightarrow>
          (case InboundTraffic c (Tag ib) w of
             (w', res) \<Rightarrow>
               let (up, down) = (case res of Inl _ \<Rightarrow> (0, 0) | Inr counters \<Rightarrow> counters)
               in (w', \<lparr>ti_Tag = Tag ib, ti_Type = Type ib, ti_UpBytes = up, ti_DownBytes = down\<rparr>)))"

fun inbound_stats :: "'w V2RayStatsClient option \<Rightarrow> string \<Rightarrow> Inbound list \<Rightarrow> 'w \<Rightarrow> 'w \<times> TrafficInboundStat list" where
  "inbound_stats statsClient inbound [] w = (w, [])"
| "inbound_stats statsClient inbound (ib # ibs) w =
     (if inbound \<noteq> [] \<and> Tag ib \<noteq> inbound then inbound_stats statsClient inbound ibs w
      else case inbound_stat statsClient ib w of
             (w, stat) \<Rightarrow> (case inbound_stats statsClient inbound ibs w of (w, stats) \<Rightarrow> (w, stat # stats)))"

definition sp_GetTrafficStats ::
  "'s SingBoxClient \<Rightarrow> 'w V2RayStatsClient option \<Rightarrow> string \<Rightarrow> 's \<times> 'w \<Rightarrow> ('s \<times> 'w) \<times> (string + TrafficInboundStat list)" where
  "sp_GetTrafficStats C statsClient inbound = (\<lambda>(s, w).
     case GetInbounds C s of
       Inl err \<Rightarrow> ((s, w), Inl err)
     | Inr inbounds \<Rightarrow> (case inbound_stats statsClient inbound inbounds w of (w', stats) \<Rightarrow> ((s, w'), Inr stats)))"

definition user_stat :: "traffic \<Rightarrow> User \<Rightarrow> TrafficUserStat" where
  "user_stat counters u =
     (let entry = (case mget counters (SubID u) of Some e \<Rightarrow> e | None \<Rightarrow> (0, 0))
      in \<lparr>tu_SubID = SubID u, tu_Inbound = InboundTag u, tu_UpBytes = fst entry, tu_DownBytes = snd entry\<rparr>)"

definition sp_GetUserTrafficStats ::
  "'s SingBoxClient \<Rightarrow> 'w V2RayStatsClient option \<Rightarrow> 's \<times> 'w \<Rightarrow> ('s \<times> 'w) \<times> (string + TrafficUserStat list)" where
  "sp_GetUserTrafficStats C statsClient = (\<lambda>(s, w).
     case GetUsers C s of
       Inl err \<Rightarrow> ((s, w), Inl err)
     | Inr users \<Rightarrow>
         (case statsClient of
            None \<Rightarrow> ((s, w), Inr [])
          | Some c \<Rightarrow>
              let named = filter (\<lambda>u. SubID u \<noteq> []) users
              in case UserTrafficBatch c (map SubID named) w of
                   (w', counters) \<Rightarrow>
                     ((s, w'), Inr (map (user_stat (case counters of Inl _ \<Rightarrow> [] | Inr m \<Rightarrow> m)) named))))"

text \<open>Online users are not tracked.\<close>

record OnlineUser =
  ou_SubID :: string
  ou_Inbound :: string
  ou_ConnectedAt :: time

definition sp_GetOnlineUsers :: "string + OnlineUser list" where
  "sp_GetOnlineUsers = Inr []"

section \<open>REST\<close>

text \<open>
  The query of a request is the function \<open>query\<close>; \<open>parse\<close> and \<open>fmt\<close> read and write RFC 3339.  There is always a provider, as
  \<open>server.New\<close> builds it.
\<close>

definition parseTimeRange :: "(string \<Rightarrow> time option) \<Rightarrow> (string \<Rightarrow> string) \<Rightarrow> string + (time option \<times> time option)" where
  "parseTimeRange parse query =
     (let startValue = query ''start''; endValue = query ''end''
      in if startValue = [] \<and> endValue = [] then Inr (None, None)
         else if startValue = [] \<or> endValue = [] then Inl ''both start and end are required when filtering by time range''
         else case parse startValue of
                None \<Rightarrow> Inl ''invalid start timestamp: use RFC3339''
              | Some start \<Rightarrow>
                  (case parse endValue of
                     None \<Rightarrow> Inl ''invalid end timestamp: use RFC3339''
                   | Some end' \<Rightarrow>
                       if end' < start then Inl ''end must be after or equal to start'' else Inr (Some start, Some end')))"

definition json_inbound_stat :: "TrafficInboundStat \<Rightarrow> jv" where
  "json_inbound_stat t =
     JObj ([(''tag'', JStr (ti_Tag t))] @ opt_string ''type'' (ti_Type t)
       @ [(''up_bytes'', JInt (uint (ti_UpBytes t))), (''down_bytes'', JInt (uint (ti_DownBytes t)))])"

definition json_user_stat :: "TrafficUserStat \<Rightarrow> jv" where
  "json_user_stat t =
     JObj ([(''subId'', JStr (tu_SubID t))] @ opt_string ''inbound'' (tu_Inbound t)
       @ [(''up'', JInt (uint (tu_UpBytes t))), (''down'', JInt (uint (tu_DownBytes t)))])"

text \<open>A nil slice is written as \<open>null\<close>.\<close>

definition json_nil_slice :: "jv list \<Rightarrow> jv" where
  "json_nil_slice vs = (if vs = [] then JNull else JArr vs)"

definition stats_unavailable :: "string \<Rightarrow> wop list" where
  "stats_unavailable message = sendError 503 ''SERVICE_UNAVAILABLE'' message"

definition GetTrafficStats ::
  "(string \<Rightarrow> time option) \<Rightarrow> (time \<Rightarrow> string) \<Rightarrow> 's SingBoxClient \<Rightarrow> 'w V2RayStatsClient option \<Rightarrow> (string \<Rightarrow> string)
     \<Rightarrow> ('s \<times> 'w) handler" where
  "GetTrafficStats parse fmt C statsClient query r s =
     (case parseTimeRange parse query of
        Inl err \<Rightarrow> (sendError 400 CodeInvalidRequest err, s)
      | Inr (start, end') \<Rightarrow>
          (case sp_GetTrafficStats C statsClient (query ''inbound'') s of
             (s, Inl err) \<Rightarrow> (stats_unavailable (''failed to fetch traffic stats: '' @ err), s)
           | (s, Inr stats) \<Rightarrow>
               let (s, users) =
                     (if start = None
                      then (case sp_GetUserTrafficStats C statsClient s of
                              (s, Inl _) \<Rightarrow> (s, [])
                            | (s, Inr users) \<Rightarrow> (s, [(''users'', JArr (map json_user_stat users))]))
                      else (s, []));
                   times = (case start of Some t \<Rightarrow> [(''start'', JStr (fmt t))] | None \<Rightarrow> [])
                           @ (case end' of Some t \<Rightarrow> [(''end'', JStr (fmt t))] | None \<Rightarrow> [])
               in (sendSuccess 200 (JObj ([(''inbounds'', json_nil_slice (map json_inbound_stat stats))] @ users @ times)), s)))"

definition GetOnlineUsers :: "(time \<Rightarrow> string) \<Rightarrow> 's handler" where
  "GetOnlineUsers fmt r s =
     (case sp_GetOnlineUsers of
        Inl err \<Rightarrow> (stats_unavailable (''failed to fetch online users: '' @ err), s)
      | Inr users \<Rightarrow>
          (sendSuccess 200 (JObj [(''count'', JInt (int (length users))),
             (''users'', JArr (map (\<lambda>u. JObj [(''subId'', JStr (ou_SubID u)), (''inbound'', JStr (ou_Inbound u)),
                (''connected_at'', JStr (fmt (ou_ConnectedAt u)))]) users))]), s))"

section \<open>Counters of a user\<close>

text \<open>
  The response a server gives that has both counters for every name, in the order of the request.  The patterns the
  client asks for and the way it reads the names of the counters agree: it finds the counters of every user whose name does not
  itself end like the name of a counter.
\<close>

definition user_stats :: "(string \<Rightarrow> uint64 \<times> uint64) \<Rightarrow> string list \<Rightarrow> Stat list" where
  "user_stats f ns =
     concat (map (\<lambda>n. [\<lparr>stat_Name = ''user>>>'' @ n @ ''>>>traffic>>>uplink'', stat_Value = fst (f n)\<rparr>,
                       \<lparr>stat_Name = ''user>>>'' @ n @ ''>>>traffic>>>downlink'', stat_Value = snd (f n)\<rparr>]) ns)"

definition plain_name :: "string \<Rightarrow> bool" where
  "plain_name n \<longleftrightarrow> \<not> HasSuffix n ''>>>traffic>>>downlink''"

lemma HasSuffix_append: "HasSuffix (a @ p) p"
  by (auto simp: HasSuffix_iff)

lemma add_user_stat:
  assumes "plain_name n"
  shows "add_stat \<lparr>stat_Name = ''user>>>'' @ n @ ''>>>traffic>>>uplink'', stat_Value = v\<rparr> m =
      mput n (v, snd (case mget m n of Some e \<Rightarrow> e | None \<Rightarrow> (0, 0))) m"
    and "add_stat \<lparr>stat_Name = ''user>>>'' @ n @ ''>>>traffic>>>downlink'', stat_Value = v\<rparr> m =
      mput n (fst (case mget m n of Some e \<Rightarrow> e | None \<Rightarrow> (0, 0)), v) m"
proof -
  have "TrimSuffix n ''>>>traffic>>>downlink'' = n"
    using assms by (simp add: TrimSuffix_def plain_name_def)
  then have user: "stat_user (''user>>>'' @ n @ ''>>>traffic>>>uplink'') = n" "stat_user (''user>>>'' @ n @ ''>>>traffic>>>downlink'') = n"
    by (simp_all only: stat_user_def TrimPrefix_append TrimSuffix_append) (simp add: TrimSuffix_def HasSuffix_def)
  have name: "HasPrefix (''user>>>'' @ n @ p) ''user>>>''" "Contains (''user>>>'' @ n @ ''>>>traffic>>>'' @ p) ''>>>traffic>>>''" for p
    by (auto simp only: HasPrefix_iff Contains_iff) (metis append.assoc)
  show "add_stat \<lparr>stat_Name = ''user>>>'' @ n @ ''>>>traffic>>>uplink'', stat_Value = v\<rparr> m =
      mput n (v, snd (case mget m n of Some e \<Rightarrow> e | None \<Rightarrow> (0, 0))) m"
    using user(1) name(1) name(2) [of "''uplink''"] by (simp add: add_stat_def HasSuffix_def)
  show "add_stat \<lparr>stat_Name = ''user>>>'' @ n @ ''>>>traffic>>>downlink'', stat_Value = v\<rparr> m =
      mput n (fst (case mget m n of Some e \<Rightarrow> e | None \<Rightarrow> (0, 0)), v) m"
    using user(2) name(1) name(2) [of "''downlink''"] by (simp add: add_stat_def HasSuffix_def)
qed

lemma user_stats_counted:
  assumes "\<forall>n \<in> set ns. plain_name n"
  shows "mget (fold add_stat (user_stats f ns) m) n = (if n \<in> set ns then Some (f n) else mget m n)"
  using assms
proof (induction ns arbitrary: m)
  case (Cons k ns)
  let ?m = "add_stat \<lparr>stat_Name = ''user>>>'' @ k @ ''>>>traffic>>>downlink'', stat_Value = snd (f k)\<rparr>
    (add_stat \<lparr>stat_Name = ''user>>>'' @ k @ ''>>>traffic>>>uplink'', stat_Value = fst (f k)\<rparr> m)"
  have "mget ?m n = (if n = k then Some (f k) else mget m n)"
    using Cons.prems by (simp add: add_user_stat del: append_Cons)
  moreover have "fold add_stat (user_stats f (k # ns)) m = fold add_stat (user_stats f ns) ?m"
    by (simp add: user_stats_def)
  moreover define m' where "m' = ?m"
  ultimately have "mget m' n = (if n = k then Some (f k) else mget m n)"
    "fold add_stat (user_stats f (k # ns)) m = fold add_stat (user_stats f ns) m'"
    by (simp_all only: m'_def)
  with Cons show ?case
    by auto
qed (simp add: user_stats_def)

end
