(* ===== verification/Core.thy ===== *)
theory Core
  imports Api
begin

text \<open>
  The sing-box service: the ways to reload it (\<open>internal/sync/reloader.go\<close>, \<open>buildReloader\<close> of
  \<open>internal/server/server.go\<close>, and the reload of \<open>internal/singbox/client.go\<close>), the adapter of
  \<open>internal/singbox/core_service.go\<close> and the REST handler of \<open>internal/handlers/core.go\<close> with its redaction of secrets.

  The operating system is a record of calls on a state \<open>'w\<close>: running a command (its output and its error), sending a
  signal, reading a file.  Waiting and time limits appear as the question whether the context is done.
\<close>

section \<open>Reloading\<close>

record 'w sys =
  sy_LookPath :: "string \<Rightarrow> 'w \<Rightarrow> bool"
  sy_run :: "string list \<Rightarrow> 'w \<Rightarrow> 'w \<times> string \<times> string option"
  sy_kill :: "int \<Rightarrow> int \<Rightarrow> 'w \<Rightarrow> 'w \<times> string option"
  sy_ReadFile :: "string \<Rightarrow> 'w \<Rightarrow> string + string"
  sy_config :: "string \<Rightarrow> 'w \<Rightarrow> string + content"
  sy_quote :: "string \<Rightarrow> string"
  sy_atoi_error :: "string \<Rightarrow> string"
  sy_json_error :: "content \<Rightarrow> string"
  sy_ctx_done :: "nat \<Rightarrow> 'w \<Rightarrow> bool"
  sy_ctx_error :: string

datatype Reloader = SystemctlReloader string | SignalReloader string int | CommandReloader string

definition SIGHUP :: int where "SIGHUP = 1"

definition NewSystemctlReloader :: "string \<Rightarrow> Reloader" where
  "NewSystemctlReloader service = SystemctlReloader (if service = [] then ''sing-box'' else service)"

definition NewSignalReloader :: "string \<Rightarrow> int \<Rightarrow> Reloader" where
  "NewSignalReloader pidFile sig = SignalReloader pidFile (if sig = 0 then SIGHUP else sig)"

definition NewCommandReloader :: "string \<Rightarrow> Reloader" where
  "NewCommandReloader command = CommandReloader command"

definition Systemctl_Reload :: "'w sys \<Rightarrow> string \<Rightarrow> 'w \<Rightarrow> 'w \<times> string option" where
  "Systemctl_Reload sys service w =
     (case sy_run sys [''systemctl'', ''restart'', service] w of
        (w', output, Some err) \<Rightarrow>
          (w', Some (''reload sing-box: systemctl restart '' @ service @ '': '' @ TrimSpace output @ '': '' @ err))
      | (w', output, None) \<Rightarrow> (w', None))"

definition Signal_Reload :: "'w sys \<Rightarrow> string \<Rightarrow> int \<Rightarrow> 'w \<Rightarrow> 'w \<times> string option" where
  "Signal_Reload sys pidFile sig w =
     (if pidFile = [] then (w, Some ''reload sing-box: PID file path is empty'')
      else case sy_ReadFile sys pidFile w of
             Inl err \<Rightarrow> (w, Some (''reload sing-box: read PID file '' @ pidFile @ '': '' @ err))
           | Inr data \<Rightarrow>
               (case ParseInt (TrimSpace data) of
                  Inl _ \<Rightarrow> (w, Some (''reload sing-box: parse PID from '' @ pidFile @ '': '' @ sy_atoi_error sys (TrimSpace data)))
                | Inr pid \<Rightarrow>
                    (case sy_kill sys pid sig w of
                       (w', Some err) \<Rightarrow>
                         (w', Some (''reload sing-box: signal '' @ Itoa sig @ '' to PID '' @ Itoa pid @ '': '' @ err))
                     | (w', None) \<Rightarrow> (w', None))))"

definition Command_Reload :: "'w sys \<Rightarrow> string \<Rightarrow> 'w \<Rightarrow> 'w \<times> string option" where
  "Command_Reload sys command w =
     (if TrimSpace command = [] then (w, Some ''reload sing-box: command is empty'')
      else case sy_run sys [''/bin/sh'', ''-c'', command] w of
             (w', output, Some err) \<Rightarrow>
               (w', Some (''reload sing-box: '' @ sy_quote sys command @ '': '' @ TrimSpace output @ '': '' @ err))
           | (w', output, None) \<Rightarrow> (w', None))"

fun Reloader_Reload :: "'w sys \<Rightarrow> Reloader \<Rightarrow> 'w \<Rightarrow> 'w \<times> string option" where
  "Reloader_Reload sys (SystemctlReloader service) = Systemctl_Reload sys service"
| "Reloader_Reload sys (SignalReloader pidFile sig) = Signal_Reload sys pidFile sig"
| "Reloader_Reload sys (CommandReloader command) = Command_Reload sys command"

text \<open>The strategy of the configuration.\<close>

record reload_config =
  rc_ReloadStrategy :: string
  rc_ReloadTarget :: string
  rc_ReloadCommand :: string

definition buildReloader :: "(string \<Rightarrow> string) \<Rightarrow> reload_config \<Rightarrow> string + Reloader" where
  "buildReloader quote cfg =
     (let strategy = ToLower (TrimSpace (rc_ReloadStrategy cfg)); target = TrimSpace (rc_ReloadTarget cfg)
      in if strategy \<in> {[], ''systemctl''} then Inr (NewSystemctlReloader (if target = [] then ''sing-box'' else target))
         else if strategy = ''signal'' then
           (if target = [] then Inl ''reload_strategy=signal requires reload_target to point at a PID file''
            else Inr (NewSignalReloader target SIGHUP))
         else if strategy = ''command'' then
           (if TrimSpace (rc_ReloadCommand cfg) = [] then Inl ''reload_strategy=command requires reload_command to be set''
            else Inr (NewCommandReloader (rc_ReloadCommand cfg)))
         else Inl (''unknown reload_strategy '' @ quote (rc_ReloadStrategy cfg) @ '' (expected systemctl|signal|command)''))"

text \<open>What \<open>server.New\<close> makes of it.\<close>

definition server_reloader :: "(string \<Rightarrow> string) \<Rightarrow> reload_config \<Rightarrow> Reloader" where
  "server_reloader quote cfg =
     (case buildReloader quote cfg of Inr r \<Rightarrow> r | Inl _ \<Rightarrow> NewSystemctlReloader ''sing-box'')"

text \<open>
  The reload of the client without a reloader: one \<open>try-reload-or-restart\<close>, then up to three restarts.  The waits are
  numbered: 0 for the minimal interval between reloads, then one for each restart.
\<close>

fun restart_loop :: "'w sys \<Rightarrow> nat list \<Rightarrow> string \<Rightarrow> 'w \<Rightarrow> 'w \<times> string option" where
  "restart_loop sys [] lastErr w = (w, Some lastErr)"
| "restart_loop sys (wait # backoff) lastErr w =
     (let w = fst (sy_run sys [''systemctl'', ''reset-failed'', ''sing-box''] w)
      in case sy_run sys [''systemctl'', ''restart'', ''sing-box''] w of
           (w', out, None) \<Rightarrow> (w', None)
         | (w', out, Some err) \<Rightarrow>
             if sy_ctx_done sys wait w' then (w', Some (sy_ctx_error sys))
             else restart_loop sys backoff (lastErr @ ''; restart failed ('' @ TrimSpace out @ ''): '' @ err) w')"

definition reloadSystemService :: "'w sys \<Rightarrow> bool \<Rightarrow> 'w \<Rightarrow> 'w \<times> string option" where
  "reloadSystemService sys must_wait w =
     (if \<not> sy_LookPath sys ''systemctl'' w then (w, None)
      else if must_wait \<and> sy_ctx_done sys 0 w then (w, Some (sy_ctx_error sys))
      else case sy_run sys [''systemctl'', ''try-reload-or-restart'', ''sing-box''] w of
             (w', out, None) \<Rightarrow> (w', None)
           | (w', out, Some err) \<Rightarrow>
               restart_loop sys [1, 2, 3] (''try-reload-or-restart failed ('' @ TrimSpace out @ ''): '' @ err) w')"

definition doReload :: "'w sys \<Rightarrow> Reloader option \<Rightarrow> bool \<Rightarrow> 'w \<Rightarrow> 'w \<times> string option" where
  "doReload sys reloader must_wait w =
     (case reloader of Some r \<Rightarrow> Reloader_Reload sys r w | None \<Rightarrow> reloadSystemService sys must_wait w)"

section \<open>The core service\<close>

record CoreServiceAdapter =
  cs_configPath :: string
  cs_serviceName :: string
  cs_pidFile :: string
  cs_reloader :: "Reloader option"

definition NewCoreServiceAdapter :: "string \<Rightarrow> CoreServiceAdapter" where
  "NewCoreServiceAdapter path =
     \<lparr>cs_configPath = path, cs_serviceName = ''sing-box'', cs_pidFile = [], cs_reloader = None\<rparr>"

definition WithReloader :: "Reloader \<Rightarrow> CoreServiceAdapter \<Rightarrow> CoreServiceAdapter" where
  "WithReloader r a = a\<lparr>cs_reloader := Some r\<rparr>"

definition WithPIDFile :: "string \<Rightarrow> CoreServiceAdapter \<Rightarrow> CoreServiceAdapter" where
  "WithPIDFile path a = a\<lparr>cs_pidFile := path\<rparr>"

definition core_Restart_as :: "string \<Rightarrow> 'w sys \<Rightarrow> CoreServiceAdapter \<Rightarrow> 'w \<Rightarrow> 'w \<times> string option" where
  "core_Restart_as verb sys a w =
     (case sy_run sys [''systemctl'', ''restart'', cs_serviceName a] w of
        (w', output, Some err) \<Rightarrow> (w', Some (verb @ '' sing-box: '' @ TrimSpace output @ '': '' @ err))
      | (w', output, None) \<Rightarrow> (w', None))"

definition core_Reload :: "'w sys \<Rightarrow> CoreServiceAdapter \<Rightarrow> 'w \<Rightarrow> 'w \<times> string option" where
  "core_Reload sys a w =
     (case cs_reloader a of
        Some r \<Rightarrow>
          (case Reloader_Reload sys r w of
             (w', Some err) \<Rightarrow> (w', Some (''reload sing-box: '' @ err))
           | (w', None) \<Rightarrow> (w', None))
      | None \<Rightarrow>
          (case sy_run sys [''systemctl'', ''reload'', cs_serviceName a] w of
             (w', output, None) \<Rightarrow> (w', None)
           | (w', output, Some err) \<Rightarrow> core_Restart_as ''reload'' sys a w'))"

definition core_Restart :: "'w sys \<Rightarrow> CoreServiceAdapter \<Rightarrow> 'w \<Rightarrow> 'w \<times> string option" where
  "core_Restart = core_Restart_as ''restart''"

text \<open>A file that holds \<open>null\<close> gives a nil map, here \<^term>\<open>None\<close>.\<close>

definition core_GetConfig :: "'w sys \<Rightarrow> CoreServiceAdapter \<Rightarrow> 'w \<Rightarrow> string + jobj option" where
  "core_GetConfig sys a w =
     (case sy_config sys (cs_configPath a) w of
        Inl err \<Rightarrow> Inl (''failed to read config: '' @ err)
      | Inr data \<Rightarrow>
          (case Unmarshal data of
             Some (JObj result) \<Rightarrow> Inr (Some result)
           | Some JNull \<Rightarrow> Inr None
           | _ \<Rightarrow> Inl (''failed to parse config: '' @ sy_json_error sys data)))"

definition IsActive :: "'w sys \<Rightarrow> CoreServiceAdapter \<Rightarrow> 'w \<Rightarrow> 'w \<times> bool" where
  "IsActive sys a w =
     (case sy_run sys [''systemctl'', ''is-active'', ''--quiet'', cs_serviceName a] w of
        (w', output, None) \<Rightarrow> (w', True)
      | (w', output, Some _) \<Rightarrow>
          if cs_pidFile a = [] then (w', False)
          else case sy_ReadFile sys (cs_pidFile a) w' of
                 Inl _ \<Rightarrow> (w', False)
               | Inr data \<Rightarrow>
                   (case ParseInt (TrimSpace data) of
                      Inl _ \<Rightarrow> (w', False)
                    | Inr pid \<Rightarrow>
                        if pid \<le> 0 then (w', False)
                        else case sy_kill sys pid 0 w' of (w'', err) \<Rightarrow> (w'', err = None)))"

section \<open>Redaction\<close>

definition redactedValue :: string where "redactedValue = ''***REDACTED***''"

definition secret_key :: "string \<Rightarrow> bool" where
  "secret_key key \<longleftrightarrow> key \<in> {''private_key'', ''password'', ''short_id''}"

text \<open>\<open>redactValue\<close>, \<open>redactSlice\<close> and \<open>redactMap\<close> in one recursion.\<close>

primrec redactValue :: "jv \<Rightarrow> jv" where
  "redactValue JNull = JNull"
| "redactValue (JBool b) = JBool b"
| "redactValue (JInt i) = JInt i"
| "redactValue (JFloat q) = JFloat q"
| "redactValue (JStr s) = JStr s"
| "redactValue (JArr vs) = JArr (map redactValue vs)"
| "redactValue (JObj m) = JObj (map (\<lambda>(key, v). (key, if secret_key key then JStr redactedValue else v)) (map (map_prod id redactValue) m))"

definition redactMap :: "jobj \<Rightarrow> jobj" where
  "redactMap m = map (\<lambda>(key, v). (key, if secret_key key then JStr redactedValue else redactValue v)) m"

definition redactConfig :: "jobj option \<Rightarrow> jobj option" where
  "redactConfig input = map_option redactMap input"

section \<open>REST\<close>

definition CodeStatsUnavailable :: string where "CodeStatsUnavailable = ''SERVICE_UNAVAILABLE''"

definition no_service :: "wop list" where
  "no_service = sendError 503 CodeStatsUnavailable ''core service not configured''"

definition ReloadConfig :: "'w sys \<Rightarrow> CoreServiceAdapter option \<Rightarrow> 'w handler" where
  "ReloadConfig sys service r w =
     (case service of
        None \<Rightarrow> (no_service, w)
      | Some a \<Rightarrow>
          (case core_Reload sys a w of
             (w', Some err) \<Rightarrow> (sendError 500 CodeInternalError (''failed to reload core: '' @ err), w')
           | (w', None) \<Rightarrow> (sendSuccess 200 (JObj [(''status'', JStr ''reloaded'')]), w')))"

definition RestartCore :: "'w sys \<Rightarrow> CoreServiceAdapter option \<Rightarrow> 'w handler" where
  "RestartCore sys service r w =
     (case service of
        None \<Rightarrow> (no_service, w)
      | Some a \<Rightarrow>
          (case core_Restart sys a w of
             (w', Some err) \<Rightarrow> (sendError 500 CodeInternalError (''failed to restart core: '' @ err), w')
           | (w', None) \<Rightarrow> (sendSuccess 200 (JObj [(''status'', JStr ''restarted'')]), w')))"

definition GetConfig :: "'w sys \<Rightarrow> CoreServiceAdapter option \<Rightarrow> 'w handler" where
  "GetConfig sys service r w =
     (case service of
        None \<Rightarrow> (no_service, w)
      | Some a \<Rightarrow>
          (case core_GetConfig sys a w of
             Inl err \<Rightarrow> (sendError 500 CodeInternalError (''failed to get core config: '' @ err), w)
           | Inr config \<Rightarrow>
               (sendSuccess 200 (case redactConfig config of Some m \<Rightarrow> JObj m | None \<Rightarrow> JNull), w)))"


section \<open>What redaction hides\<close>

text \<open>Two values that differ at most in what is stored under secret keys.\<close>

inductive same_but_secrets :: "jv \<Rightarrow> jv \<Rightarrow> bool" where
  null: "same_but_secrets JNull JNull"
| bool: "same_but_secrets (JBool b) (JBool b)"
| int: "same_but_secrets (JInt i) (JInt i)"
| float: "same_but_secrets (JFloat q) (JFloat q)"
| string: "same_but_secrets (JStr s) (JStr s)"
| arr: "list_all2 same_but_secrets vs ws \<Longrightarrow> same_but_secrets (JArr vs) (JArr ws)"
| obj: "list_all2 (\<lambda>p q. fst p = fst q \<and> (secret_key (fst p) \<or> same_but_secrets (snd p) (snd q))) m n \<Longrightarrow>
    same_but_secrets (JObj m) (JObj n)"

inductive_simps same_but_secrets_simps:
  "same_but_secrets JNull w" "same_but_secrets (JBool b) w" "same_but_secrets (JInt i) w" "same_but_secrets (JFloat q) w"
  "same_but_secrets (JStr s) w" "same_but_secrets (JArr vs) w" "same_but_secrets (JObj m) w"

lemma redactValue_JObj: "redactValue (JObj m) = JObj (redactMap m)"
  by (simp add: redactMap_def case_prod_unfold)

lemma map_eq_list_all2:
  assumes "\<And>x y. x \<in> set xs \<Longrightarrow> f x = f y \<longleftrightarrow> P x y"
  shows "map f xs = map f ys \<longleftrightarrow> list_all2 P xs ys"
  using assms by (induction xs arbitrary: ys) (auto simp: Cons_eq_map_conv list_all2_Cons1)

lemma redactValue_eq_iff: "redactValue v = redactValue w \<longleftrightarrow> same_but_secrets v w"
proof (induction v arbitrary: w)
  case (JArr vs)
  then have "map redactValue vs = map redactValue ws \<longleftrightarrow> list_all2 same_but_secrets vs ws" for ws
    by (intro map_eq_list_all2)
  then show ?case
    by (cases w) (auto simp: same_but_secrets_simps)
next
  case (JObj m)
  have "redactMap m = redactMap n \<longleftrightarrow>
      list_all2 (\<lambda>p q. fst p = fst q \<and> (secret_key (fst p) \<or> same_but_secrets (snd p) (snd q))) m n" for n
    unfolding redactMap_def
  proof (rule map_eq_list_all2)
    fix p q :: "string \<times> jv"
    assume p: "p \<in> set m"
    have "redactValue (snd p) = redactValue (snd q) \<longleftrightarrow> same_but_secrets (snd p) (snd q)"
      by (rule JObj [OF p]) (cases p, simp add: snds.simps)
    then show "(case p of (key, v) \<Rightarrow> (key, if secret_key key then JStr redactedValue else redactValue v)) =
        (case q of (key, v) \<Rightarrow> (key, if secret_key key then JStr redactedValue else redactValue v)) \<longleftrightarrow>
        fst p = fst q \<and> (secret_key (fst p) \<or> same_but_secrets (snd p) (snd q))"
      by (cases p; cases q) auto
  qed
  then show ?case
    by (cases w) (auto simp: same_but_secrets_simps redactValue_JObj simp del: redactValue.simps(7))
qed (case_tac w; auto simp: same_but_secrets_simps)+

text \<open>
  C38.  The configuration is shown without its secrets, and with everything else.  \<open>GET /core/config\<close> answers two
  states of the file alike exactly when they differ at most in the values stored under the keys \<open>private_key\<close>, \<open>password\<close> and
  \<open>short_id\<close>, at any depth: the answer reveals nothing about these values and hides no other difference.
\<close>

theorem GetConfig_hides_secrets:
  assumes "core_GetConfig sys a w = Inr (Some cfg)" and "core_GetConfig sys a w' = Inr (Some cfg')"
  shows "fst (GetConfig sys (Some a) r w) = fst (GetConfig sys (Some a) r w') \<longleftrightarrow> same_but_secrets (JObj cfg) (JObj cfg')"
  using assms redactValue_eq_iff [of "JObj cfg" "JObj cfg'"]
  by (auto simp: GetConfig_def redactConfig_def redactValue_JObj sendSuccess_def success_body_def json_reply_def
      simp del: redactValue.simps(7))

text \<open>A system whose state is the content of the file.\<close>

definition demo_sys :: "content sys" where
  "demo_sys = \<lparr>sy_LookPath = (\<lambda>p w. True), sy_run = (\<lambda>c w. (w, [], None)), sy_kill = (\<lambda>p s w. (w, None)),
     sy_ReadFile = (\<lambda>p w. Inl ''none''), sy_config = (\<lambda>p w. Inr w), sy_quote = id, sy_atoi_error = id,
     sy_json_error = (\<lambda>c. []), sy_ctx_done = (\<lambda>n w. False), sy_ctx_error = []\<rparr>"

definition demo_get :: request where
  "demo_get = \<lparr>r_method = ''GET'', r_path = ''/core/config'', r_header = [], r_body = NewReader []\<rparr>"

theorem GetConfig_hides_secrets_witness:
  "fst (GetConfig demo_sys (Some (NewCoreServiceAdapter ''c'')) demo_get (Doc (JObj [(''users'', JArr [JObj [(''password'', JStr ''x'')]])]))) =
   fst (GetConfig demo_sys (Some (NewCoreServiceAdapter ''c'')) demo_get (Doc (JObj [(''users'', JArr [JObj [(''password'', JStr ''y'')]])])))"
proof -
  have cfg: "core_GetConfig demo_sys (NewCoreServiceAdapter ''c'') (Doc (JObj m)) = Inr (Some m)" for m
    by (simp add: core_GetConfig_def demo_sys_def)
  show ?thesis
    by (subst GetConfig_hides_secrets [OF cfg cfg]) (simp add: same_but_secrets_simps secret_key_def)
qed
end
