(* ===== verification/Server.thy ===== *)
theory Server
  imports Idempotency UserHandler Engine Subscription Stats Core
begin

text \<open>
  The server (\<open>internal/server/server.go\<close>): the state that the handlers share, the routes with their middlewares, the
  metrics endpoint (\<open>metrics.go\<close>) and the logging middleware (\<open>middleware.go\<close>).

  The state of the application is the directory with the configuration file (shared by the client and the engine), the
  engine, the cache of subscriptions, and a state \<open>'w\<close> of the outside (sing-box, the operating system).  Beside it stand the
  nonce cache of the authentication and the store of the idempotency middleware.  Paths are taken without percent escapes.
\<close>

section \<open>Logging\<close>

text \<open>\<open>responseWriter\<close>: a second \<open>WriteHeader\<close> is dropped; the status is remembered.\<close>

record responseWriter =
  rw_status :: int
  rw_wroteHeader :: bool
  rw_ops :: "wop list"

fun rw_op :: "wop \<Rightarrow> responseWriter \<Rightarrow> responseWriter" where
  "rw_op (WriteHeader code) rw =
     (if rw_wroteHeader rw then rw
      else rw\<lparr>rw_wroteHeader := True, rw_status := code, rw_ops := rw_ops rw @ [WriteHeader code]\<rparr>)"
| "rw_op (Write d) rw = rw\<lparr>rw_wroteHeader := True, rw_ops := rw_ops rw @ [Write d]\<rparr>"
| "rw_op op rw = rw\<lparr>rw_ops := rw_ops rw @ [op]\<rparr>"

datatype level = LevelDebug | LevelInfo

record log_entry =
  le_level :: level
  le_method :: string
  le_path :: string
  le_status :: int

definition LoggingMiddleware :: "'s handler \<Rightarrow> request \<Rightarrow> 's \<Rightarrow> log_entry \<times> wop list \<times> 's" where
  "LoggingMiddleware nexth r s =
     (case nexth r s of
        (ops, s') \<Rightarrow>
          let rw = fold rw_op ops \<lparr>rw_status = 200, rw_wroteHeader = False, rw_ops = []\<rparr>
          in (\<lparr>le_level = (if r_path r \<in> {''/healthz'', ''/readyz''} then LevelDebug else LevelInfo), le_method = r_method r,
               le_path = r_path r, le_status = rw_status rw\<rparr>, rw_ops rw, s'))"

section \<open>State and environment\<close>

record 'w app =
  ap_client :: client
  ap_engine :: Engine
  ap_subs :: sub_store
  ap_world :: 'w

text \<open>What \<open>New\<close> was given, and the parameters of the components.\<close>

record 'w server_env =
  se_auth :: AuthConfig
  se_json :: json_env
  se_render :: "jv \<Rightarrow> string"
  se_format :: "time \<Rightarrow> string"
  se_parse :: "string \<Rightarrow> time option"
  se_sys :: "'w sys"
  se_stats :: "'w V2RayStatsClient option"
  se_core :: CoreServiceAdapter
  se_version :: string
  se_prometheus :: "wop list"
  se_MetricsUsername :: string
  se_MetricsPassword :: string

text \<open>
  What is known about one request besides the request itself: times, host, query, credentials, and what the environment will do
  while it is handled (fresh identifiers, the outcome of system calls and reloads).
\<close>

record arrival =
  ar_now :: time
  ar_nonce_now :: time
  ar_clocks :: clocks
  ar_sync :: sync_ctx
  ar_host :: string
  ar_query :: "string \<Rightarrow> string"
  ar_basic :: "(string \<times> string) option"
  ar_uptime :: rat
  ar_unix :: int
  ar_raw_query :: string
  ar_uuid :: string
  ar_client_uuid :: string
  ar_io :: save_io
  ar_writes :: "write_outcome list"
  ar_reloads :: "cm_error option list"

section \<open>Handlers on the application\<close>

definition on_client :: "arrival \<Rightarrow> client handler \<Rightarrow> 'w app handler" where
  "on_client ar h r a =
     (case h r ((ap_client a)\<lparr>c_io := ar_io ar, c_uuid := ar_client_uuid ar\<rparr>) of (ops, c) \<Rightarrow> (ops, a\<lparr>ap_client := c\<rparr>))"

text \<open>The engine works on the file in the directory of the client.\<close>

definition engine_in :: "arrival \<Rightarrow> 'w app \<Rightarrow> Engine" where
  "engine_in ar a =
     (let c = ap_client a; e = ap_engine a
      in e\<lparr>eg_env := (eg_env e)\<lparr>ev_file := mget (disk c) (configPath c), ev_writes := ar_writes ar, ev_reloads := ar_reloads ar\<rparr>\<rparr>)"

definition engine_out :: "Engine \<Rightarrow> 'w app \<Rightarrow> 'w app" where
  "engine_out e a =
     (let c = ap_client a
      in a\<lparr>ap_engine := e,
           ap_client := c\<lparr>disk := (case ev_file (eg_env e) of
                                     Some x \<Rightarrow> mput (configPath c) x (disk c)
                                   | None \<Rightarrow> mdel (configPath c) (disk c))\<rparr>\<rparr>)"

definition on_engine :: "arrival \<Rightarrow> Engine handler \<Rightarrow> 'w app handler" where
  "on_engine ar h r a = (case h r (engine_in ar a) of (ops, e) \<Rightarrow> (ops, engine_out e a))"

definition on_subs :: "string \<Rightarrow> client sub_handler \<Rightarrow> 'w app handler" where
  "on_subs host h r a =
     (case h host r (ap_client a, ap_subs a) of (ops, c, st) \<Rightarrow> (ops, a\<lparr>ap_client := c, ap_subs := st\<rparr>))"

definition on_stats :: "(client \<times> 'w) handler \<Rightarrow> 'w app handler" where
  "on_stats h r a =
     (case h r (ap_client a, ap_world a) of (ops, c, w) \<Rightarrow> (ops, a\<lparr>ap_client := c, ap_world := w\<rparr>))"

definition on_world :: "'w handler \<Rightarrow> 'w app handler" where
  "on_world h r a = (case h r (ap_world a) of (ops, w) \<Rightarrow> (ops, a\<lparr>ap_world := w\<rparr>))"

text \<open>The core service reads the configuration file from the same directory.\<close>

definition on_core :: "'w sys \<Rightarrow> ('w sys \<Rightarrow> 'w handler) \<Rightarrow> 'w app handler" where
  "on_core sys h r a =
     (let c = ap_client a
      in on_world (h (sys\<lparr>sy_config := \<lambda>path w. case mget (disk c) path of Some x \<Rightarrow> Inr x | None \<Rightarrow> Inl (c_oserr c)\<rparr>)) r a)"

definition reply :: "wop list \<Rightarrow> 's handler" where
  "reply ops r s = (ops, s)"

definition method_not_allowed :: "wop list" where
  "method_not_allowed = http_Error ''Method not allowed'' 405"

text \<open>\<open>if r.Method != m \<dots>\<close> of the smaller routes.\<close>

definition only :: "string \<Rightarrow> 's handler \<Rightarrow> 's handler" where
  "only m h r s = (if r_method r \<noteq> m then (method_not_allowed, s) else h r s)"

definition inbounds_route :: "'w server_env \<Rightarrow> arrival \<Rightarrow> 'w app handler" where
  "inbounds_route se ar r =
     (if r_method r = ''GET'' then on_client ar (ListInbounds config_client)
      else if r_method r = ''POST'' then on_client ar (h_CreateInbound (se_json se) config_client)
      else reply method_not_allowed) r"

definition inbound_route :: "'w server_env \<Rightarrow> arrival \<Rightarrow> 'w app handler" where
  "inbound_route se ar r =
     (let rest = TrimPrefix (r_path r) ''/inbounds/''; parts = Split rest CHR ''/''; m = r_method r
      in if rest = [] then reply http_NotFound
         else if length parts = 1 then
           (if m = ''GET'' then on_client ar (GetInbound config_client)
            else if m = ''PUT'' then on_client ar (h_UpdateInbound (se_json se) config_client)
            else if m = ''DELETE'' then on_client ar (h_DeleteInbound config_client)
            else reply method_not_allowed)
         else if length parts = 2 \<and> parts ! 1 = ''users'' then
           (if m = ''GET'' then on_client ar (ListUsers (Some config_client))
            else if m = ''POST'' then on_client ar (h_CreateUser (se_json se) (ar_uuid ar) (Some config_client))
            else reply method_not_allowed)
         else if length parts = 3 \<and> parts ! 1 = ''users'' then
           (if m = ''GET'' then on_client ar (GetUser (Some config_client))
            else if m = ''PUT'' then on_client ar (h_UpdateUser (se_json se) (ar_uuid ar) (Some config_client))
            else if m = ''DELETE'' then on_client ar (h_DeleteUser (Some config_client))
            else reply method_not_allowed)
         else reply http_NotFound) r"

section \<open>The metrics endpoint\<close>

definition MetricsHandler :: "wop list \<Rightarrow> string \<Rightarrow> string \<Rightarrow> (string \<times> string) option \<Rightarrow> 's handler" where
  "MetricsHandler prometheus username password basic r s =
     (if username = [] \<or> password = [] then (prometheus, s)
      else if basic = Some (username, password) then (prometheus, s)
      else (HSet ''WWW-Authenticate'' (''Basic realm='' @ in_quotes ''metrics'' @ '', charset='' @ in_quotes ''UTF-8'')
            # http_Error ''unauthorized'' 401, s))"


section \<open>Routes\<close>

text \<open>
  The patterns of the \<open>ServeMux\<close>.  A path is first cleaned, as \<open>path.Clean\<close> does with a rooted path, except that a final slash
  stays; a path that is not clean, or that lacks only the slash of a subtree, is redirected.  The HTML text that
  \<open>http.Redirect\<close> adds for \<open>GET\<close> is left out.
\<close>

definition public_paths :: "string list" where
  "public_paths = [''/healthz'', ''/readyz'', ''/status'', ''/metrics'']"

definition exact_paths :: "string list" where
  "exact_paths = public_paths @ [''/inbounds'', ''/stats/traffic'', ''/stats/online'', ''/sync/desired-state'', ''/sync/status'',
     ''/core/reload'', ''/core/restart'', ''/core/config'', ''/subscription/generate'']"

definition subtree_paths :: "string list" where
  "subtree_paths = [''/inbounds/'', ''/subscription/'']"

definition match_pattern :: "string \<Rightarrow> string option" where
  "match_pattern p = (if p \<in> set exact_paths then Some p else List.find (HasPrefix p) subtree_paths)"

fun clean_segments :: "string list \<Rightarrow> string list \<Rightarrow> string list" where
  "clean_segments acc [] = rev acc"
| "clean_segments acc (seg # segs) =
     (if seg = [] \<or> seg = ''.'' then clean_segments acc segs
      else if seg = ''..'' then clean_segments (tl acc) segs
      else clean_segments (seg # acc) segs)"

definition cleanPath :: "string \<Rightarrow> string" where
  "cleanPath p =
     (let p = (if HasPrefix p ''/'' then p else ''/'' @ p);
          np = ''/'' @ Join (clean_segments [] (Split (drop 1 p) CHR ''/'')) ''/''
      in if HasSuffix p ''/'' \<and> np \<noteq> ''/'' then np @ ''/'' else np)"

definition redirect :: "string \<Rightarrow> string \<Rightarrow> wop list" where
  "redirect location raw_query =
     [HSet ''Location'' (location @ (if raw_query = [] then [] else ''?'' @ raw_query)), WriteHeader 301]"

datatype mux_result = Redirected string | Matched string | NoMatch

definition find_handler :: "request \<Rightarrow> mux_result" where
  "find_handler r =
     (let p = (if r_method r = ''CONNECT'' then r_path r else cleanPath (r_path r))
      in if match_pattern p = None \<and> \<not> HasSuffix p ''/'' \<and> p @ ''/'' \<in> set subtree_paths then Redirected (p @ ''/'')
         else if p \<noteq> r_path r then Redirected p
         else case match_pattern p of Some pat \<Rightarrow> Matched pat | None \<Rightarrow> NoMatch)"

section \<open>The server\<close>

type_synonym 'w server = "NonceCache \<times> IdempotencyStore option \<times> 'w app"

definition public :: "'w app handler \<Rightarrow> request \<Rightarrow> 'w server \<Rightarrow> (wop list \<times> 'w server) option" where
  "public h r = (\<lambda>(nc, is, a). case h r a of (ops, a') \<Rightarrow> Some (ops, nc, is, a'))"

definition authenticated ::
  "'w server_env \<Rightarrow> arrival \<Rightarrow> (IdempotencyStore option \<times> 'w app) handler \<Rightarrow> request \<Rightarrow> 'w server \<Rightarrow> (wop list \<times> 'w server) option"
  where
  "authenticated se ar h = AuthMiddleware (se_auth se) h (ar_now ar) (ar_nonce_now ar)"

definition plain :: "'w app handler \<Rightarrow> (IdempotencyStore option \<times> 'w app) handler" where
  "plain h r = (\<lambda>(is, a). case h r a of (ops, a') \<Rightarrow> (ops, is, a'))"

definition idempotent :: "arrival \<Rightarrow> 'w app handler \<Rightarrow> (IdempotencyStore option \<times> 'w app) handler" where
  "idempotent ar h = IdempotencyMiddleware h (ar_clocks ar)"

definition readyz :: "'w server_env \<Rightarrow> 'w app handler" where
  "readyz se r a =
     (case IsActive (se_sys se) (se_core se) (ap_world a) of
        (w, active) \<Rightarrow> (fst (ReadyzHandler (se_format se) (Some active) r (Some (ap_engine a))), a\<lparr>ap_world := w\<rparr>))"

definition public_route :: "'w server_env \<Rightarrow> arrival \<Rightarrow> string \<Rightarrow> 'w app handler" where
  "public_route se ar pat r a =
     (if pat = ''/healthz'' then HealthHandler r a
      else if pat = ''/readyz'' then readyz se r a
      else if pat = ''/status'' then
        (fst (StatusHandler (se_format se) (ar_uptime ar) (ar_unix ar) (se_version se) r (Some (ap_engine a))), a)
      else MetricsHandler (se_prometheus se) (se_MetricsUsername se) (se_MetricsPassword se) (ar_basic ar) r a)"

definition protected_route ::
  "'w server_env \<Rightarrow> arrival \<Rightarrow> string \<Rightarrow> (IdempotencyStore option \<times> 'w app) handler" where
  "protected_route se ar pat =
     (if pat = ''/inbounds'' then idempotent ar (inbounds_route se ar)
      else if pat = ''/inbounds/'' then idempotent ar (inbound_route se ar)
      else if pat = ''/stats/traffic'' then
        plain (only ''GET'' (on_stats (GetTrafficStats (se_parse se) (se_format se) config_client (se_stats se) (ar_query ar))))
      else if pat = ''/stats/online'' then plain (only ''GET'' (on_world (GetOnlineUsers (se_format se))))
      else if pat = ''/sync/desired-state'' then
        idempotent ar (only ''POST'' (on_engine ar (ApplyDesiredState (se_json se) (ar_sync ar) (se_format se 0))))
      else if pat = ''/sync/status'' then plain (only ''GET'' (on_engine ar (GetSyncStatus (se_format se))))
      else if pat = ''/core/reload'' then idempotent ar (only ''POST'' (on_core (se_sys se) (\<lambda>sys. ReloadConfig sys (Some (se_core se)))))
      else if pat = ''/core/restart'' then idempotent ar (only ''POST'' (on_core (se_sys se) (\<lambda>sys. RestartCore sys (Some (se_core se)))))
      else if pat = ''/core/config'' then plain (only ''GET'' (on_core (se_sys se) (\<lambda>sys. GetConfig sys (Some (se_core se)))))
      else if pat = ''/subscription/generate'' then
        idempotent ar (only ''POST'' (on_subs (ar_host ar) (GenerateSubscription (se_json se) (se_render se) (Some config_client))))
      else plain (only ''GET'' (on_subs (ar_host ar) (GetSubscription (se_render se) (Some config_client)))))"

definition ServeHTTP :: "'w server_env \<Rightarrow> arrival \<Rightarrow> request \<Rightarrow> 'w server \<Rightarrow> (wop list \<times> 'w server) option" where
  "ServeHTTP se ar r s =
     (case find_handler r of
        Redirected location \<Rightarrow> Some (redirect location (ar_raw_query ar), s)
      | NoMatch \<Rightarrow> Some (http_NotFound, s)
      | Matched pat \<Rightarrow>
          if pat \<in> set public_paths then public (public_route se ar pat) r s
          else authenticated se ar (protected_route se ar pat) r s)"

text \<open>A fresh server: empty nonce cache, empty idempotency store, empty subscription cache, a new engine.\<close>

definition New :: "client \<Rightarrow> env \<Rightarrow> sync_metrics \<Rightarrow> 'w \<Rightarrow> 'w server" where
  "New c env metrics w =
     (NewNonceCache, Some NewIdempotencyStore,
      \<lparr>ap_client = c, ap_engine = NewEngine env (Manager True) metrics (c_oserr c), ap_subs = [], ap_world = w\<rparr>)"

section \<open>Nothing changes without authentication\<close>

lemma authenticateRequest_Inl:
  assumes "authenticateRequest config t1 t2 r nc = Some (nc', Inl err)"
  shows "nc' = nc"
  using assms
  by (auto simp: authenticateRequest_def CheckAndStoreNonce_def Let_def split: sum.splits option.splits if_splits)

lemma status_sendErrorResponse: "status (sendErrorResponse err) = 401"
  by (simp add: sendErrorResponse_def Let_def)

lemma public_route_state:
  "pat \<in> set public_paths \<Longrightarrow> \<exists>w. snd (public_route se ar pat r a) = a\<lparr>ap_world := w\<rparr> \<and> (w = ap_world a \<or> pat = ''/readyz'')"
  by (auto simp: public_route_def public_paths_def readyz_def HealthHandler_def MetricsHandler_def split: prod.split)

lemma public_not_redirected: "match_pattern p = Some pat \<Longrightarrow> pat \<in> set public_paths \<Longrightarrow> p = pat"
  by (auto simp: match_pattern_def subtree_paths_def public_paths_def split: if_splits)

text \<open>
  C40.  Nothing changes without authentication.  Whatever request the server handles, either the request passed the
  authentication (and its nonce has been stored), or everything is as before: the nonces, the idempotency store, the
  configuration file, the engine and the cached subscriptions; the outside is touched at most by the check of \<open>/readyz\<close>.  A
  request that does not pass is answered with 401 unless its path is one of the four public ones, unknown, or redirected.
\<close>

theorem change_requires_authentication:
  assumes "ServeHTTP se ar r (nc, is, a) = Some (ops, nc', is', a')"
  shows "(\<exists>r'. authenticateRequest (se_auth se) (ar_now ar) (ar_nonce_now ar) r nc = Some (nc', Inr r')) \<or>
    nc' = nc \<and> is' = is \<and> ap_client a' = ap_client a \<and> ap_engine a' = ap_engine a \<and> ap_subs a' = ap_subs a \<and>
    (ap_world a' = ap_world a \<or> r_path r = ''/readyz'') \<and>
    (status ops = 401 \<or> r_path r \<in> set public_paths \<or> find_handler r = NoMatch \<or> (\<exists>l. find_handler r = Redirected l))"
proof (cases "find_handler r")
  case (Matched pat)
  then have pat: "match_pattern (r_path r) = Some pat"
    by (auto simp: find_handler_def Let_def split: if_splits option.splits)
  show ?thesis
  proof (cases "pat \<in> set public_paths")
    case True
    with assms Matched public_route_state [OF True, of se ar r a] public_not_redirected [OF pat True] show ?thesis
      by (auto simp: ServeHTTP_def public_def split: prod.splits)
  next
    case False
    with assms Matched show ?thesis
      by (auto simp: ServeHTTP_def authenticated_def AuthMiddleware_def status_sendErrorResponse
          split: option.splits sum.splits prod.splits dest!: authenticateRequest_Inl)
  qed
qed (use assms in \<open>auto simp: ServeHTTP_def\<close>)

text \<open>A request without credentials, to a fresh server.\<close>

definition server_demo_env :: "content server_env" where
  "server_demo_env = \<lparr>se_auth = \<lparr>cfg_Token = ''t'', cfg_Secret = ''s''\<rparr>, se_json = sub_json, se_render = (\<lambda>v. []),
     se_format = (\<lambda>t. []), se_parse = (\<lambda>s. None), se_sys = demo_sys, se_stats = None, se_core = NewCoreServiceAdapter ''config.json'',
     se_version = ''dev'', se_prometheus = [], se_MetricsUsername = [], se_MetricsPassword = []\<rparr>"

definition server_demo_arrival :: arrival where
  "server_demo_arrival = \<lparr>ar_now = 0, ar_nonce_now = 0, ar_clocks = \<lparr>clk_get = 0, clk_cleanup = 0, clk_store = 0\<rparr>, ar_sync = demo_ctx,
     ar_host = ''h'', ar_query = (\<lambda>k. []), ar_basic = None, ar_uptime = 0, ar_unix = 0, ar_raw_query = [], ar_uuid = ''u'',
     ar_client_uuid = ''v'', ar_io = demo_io, ar_writes = [], ar_reloads = []\<rparr>"

definition server_demo_request :: request where
  "server_demo_request = \<lparr>r_method = ''DELETE'', r_path = ''/inbounds/a'', r_header = [], r_body = NewReader []\<rparr>"

definition server_demo :: "content server" where
  "server_demo = New demo_client (eg_env demo_engine) (eg_metrics demo_engine) (Doc JNull)"

lemma server_demo_route: "find_handler server_demo_request = Matched ''/inbounds/''"
  by (simp add: find_handler_def server_demo_request_def cleanPath_def HasSuffix_def match_pattern_def exact_paths_def
      public_paths_def subtree_paths_def)

lemma server_demo_rejected:
  "\<exists>err. authenticateRequest (se_auth server_demo_env) t1 t2 server_demo_request nc = Some (nc, Inl err)"
  by (simp add: authenticateRequest_def verifyRequest_def server_demo_request_def Header_Get_def ExtractBearerToken_def)

theorem change_requires_authentication_witness:
  "\<exists>ops s'. ServeHTTP server_demo_env server_demo_arrival server_demo_request server_demo = Some (ops, s') \<and> status ops = 401 \<and>
     fst s' = NewNonceCache \<and> ap_client (snd (snd s')) = demo_client"
proof -
  obtain nc "is" a where demo: "server_demo = (nc, is, a)" "nc = NewNonceCache" "ap_client a = demo_client"
    by (simp add: server_demo_def New_def)
  obtain err where rej: "authenticateRequest (se_auth server_demo_env) (ar_now server_demo_arrival) (ar_nonce_now server_demo_arrival)
      server_demo_request nc = Some (nc, Inl err)"
    using server_demo_rejected by blast
  have guarded: "''/inbounds/'' \<notin> set public_paths" "r_path server_demo_request \<notin> set public_paths"
    by (simp_all add: public_paths_def server_demo_request_def)
  obtain ops nc' is' a' where run: "ServeHTTP server_demo_env server_demo_arrival server_demo_request (nc, is, a) = Some (ops, nc', is', a')"
    using rej guarded(1) by (simp add: ServeHTTP_def server_demo_route authenticated_def AuthMiddleware_def)
  from change_requires_authentication [OF run] rej guarded(2) run demo show ?thesis
    by (auto simp: server_demo_route)
qed

section \<open>Logging is transparent\<close>

lemma rw_simulates:
  assumes "fold conn_op (rw_ops rw) conn_new = c" and "rw_wroteHeader rw \<longleftrightarrow> c_sent c \<noteq> None"
    and "\<forall>code h. c_sent c = Some (code, h) \<longrightarrow> rw_status rw = code" and "c_sent c = None \<longrightarrow> rw_status rw = 200"
  shows "let rw' = fold rw_op ops rw; c' = fold conn_op ops c
    in fold conn_op (rw_ops rw') conn_new = c' \<and> (\<forall>code h. c_sent c' = Some (code, h) \<longrightarrow> rw_status rw' = code) \<and>
       (c_sent c' = None \<longrightarrow> rw_status rw' = 200)"
  using assms
proof (induction ops arbitrary: rw c)
  case (Cons op ops)
  show ?case
    unfolding fold_simps
    by (rule Cons.IH; cases op) (use Cons.prems in \<open>auto simp: conn_WriteHeader_def Let_def split: option.splits\<close>)
qed simp

text \<open>The response is the one of the handler, and the status in the log is the status of the response.\<close>

lemma LoggingMiddleware_transparent:
  assumes "LoggingMiddleware h r s = (entry, ops, s')"
  shows "serve ops = serve (fst (h r s))" and "s' = snd (h r s)" and "le_status entry = status ops"
proof -
  let ?rw = "fold rw_op (fst (h r s)) \<lparr>rw_status = 200, rw_wroteHeader = False, rw_ops = []\<rparr>"
  let ?c = "fold conn_op (fst (h r s)) conn_new"
  have run: "ops = rw_ops ?rw" "s' = snd (h r s)" "le_status entry = rw_status ?rw"
    using assms by (auto simp: LoggingMiddleware_def Let_def split: prod.splits)
  have sim: "fold conn_op ops conn_new = ?c" "\<forall>code h. c_sent ?c = Some (code, h) \<longrightarrow> rw_status ?rw = code"
    "c_sent ?c = None \<longrightarrow> rw_status ?rw = 200"
    using rw_simulates [of "\<lparr>rw_status = 200, rw_wroteHeader = False, rw_ops = []\<rparr>" conn_new "fst (h r s)"] run(1)
    by (simp_all add: conn_new_def Let_def)
  show "s' = snd (h r s)"
    by (fact run)
  show "serve ops = serve (fst (h r s))"
    by (simp add: serve_def sim(1))
  show "le_status entry = status ops"
    using sim(2,3) by (auto simp: status_def serve_def sim(1) run(3) conn_WriteHeader_def Let_def split: option.split)
qed
end
