(* ===== verification/Config.thy ===== *)
theory Config
  imports GoStrings
begin

text \<open>
  The configuration of the agent (\<open>internal/config\<close>): defaults, loading with overrides from the environment, and validation.
  Parsing YAML is a parameter: a function that changes a configuration according to the text, or fails.  \<open>%q\<close> is the argument \<open>quote\<close>.
\<close>

record Config =
  APIPort :: int
  MetricsPort :: int
  MetricsUsername :: string
  MetricsPassword :: string
  Token :: string
  Secret :: string
  SingBoxConfigPath :: string
  LogLevel :: string
  TLSCertPath :: string
  TLSKeyPath :: string
  FastifyBaseURL :: string
  ServerID :: string
  ReloadStrategy :: string
  ReloadTarget :: string
  ReloadCommand :: string
  StatsAPIAddress :: string

definition Config_String :: "Config \<Rightarrow> string" where
  "Config_String c =
     ''Config{APIPort='' @ Itoa (APIPort c) @ '', MetricsPort='' @ Itoa (MetricsPort c)
     @ '', Token=[REDACTED], Secret=[REDACTED], SingBoxConfigPath='' @ SingBoxConfigPath c @ '', LogLevel='' @ LogLevel c
     @ '', TLS='' @ (if TLSCertPath c \<noteq> [] \<and> TLSKeyPath c \<noteq> [] then ''enabled'' else ''disabled'') @ ''}''"

section \<open>Loading\<close>

definition DefaultConfigPath :: string where "DefaultConfigPath = ''/etc/sing-box-agent/config.yaml''"

definition Defaults :: Config where
  "Defaults = \<lparr>APIPort = 8080, MetricsPort = 9090, MetricsUsername = [], MetricsPassword = [], Token = [], Secret = [],
     SingBoxConfigPath = ''/etc/sing-box/config.json'', LogLevel = ''info'', TLSCertPath = [], TLSKeyPath = [],
     FastifyBaseURL = [], ServerID = [], ReloadStrategy = ''systemctl'', ReloadTarget = ''sing-box'', ReloadCommand = [],
     StatsAPIAddress = ''127.0.0.1:9091''\<rparr>"

text \<open>\<open>fmt.Sscanf(s, "%d", &n)\<close>: blanks, a sign, digits; what follows is ignored.\<close>

definition is_digit :: "char \<Rightarrow> bool" where
  "is_digit c \<longleftrightarrow> 48 \<le> (of_char c :: nat) \<and> (of_char c :: nat) \<le> 57"

definition digits_value :: "string \<Rightarrow> int" where
  "digits_value s = foldl (\<lambda>n c. n * 10 + (of_char c - 48)) 0 s"

definition Sscanf_d :: "string \<Rightarrow> int option" where
  "Sscanf_d s =
     (let s = dropWhile (\<lambda>c. c = CHR '' '' \<or> c = CHR 0x09) s;
          neg = HasPrefix s ''-''; s = (if neg \<or> HasPrefix s ''+'' then tl s else s);
          ds = takeWhile is_digit s; n = (if neg then - digits_value ds else digits_value ds)
      in if ds = [] \<or> n < - (2 ^ 63) \<or> 2 ^ 63 \<le> n then None else Some n)"

text \<open>\<open>applyEnvOverrides\<close>: an unset or empty variable changes nothing, nor does a number that cannot be read.\<close>

definition env_string :: "(string \<Rightarrow> string) \<Rightarrow> string \<Rightarrow> string \<Rightarrow> string" where
  "env_string getenv tag old = (if getenv tag = [] then old else getenv tag)"

definition env_int :: "(string \<Rightarrow> string) \<Rightarrow> string \<Rightarrow> int \<Rightarrow> int" where
  "env_int getenv tag old =
     (if getenv tag = [] then old else case Sscanf_d (getenv tag) of Some n \<Rightarrow> n | None \<Rightarrow> old)"

definition applyEnvOverrides :: "(string \<Rightarrow> string) \<Rightarrow> Config \<Rightarrow> Config" where
  "applyEnvOverrides getenv c =
     \<lparr>APIPort = env_int getenv ''SINGBOX_AGENT_API_PORT'' (APIPort c),
      MetricsPort = env_int getenv ''SINGBOX_AGENT_METRICS_PORT'' (MetricsPort c),
      MetricsUsername = env_string getenv ''SINGBOX_AGENT_METRICS_USERNAME'' (MetricsUsername c),
      MetricsPassword = env_string getenv ''SINGBOX_AGENT_METRICS_PASSWORD'' (MetricsPassword c),
      Token = env_string getenv ''SINGBOX_AGENT_TOKEN'' (Token c),
      Secret = env_string getenv ''SINGBOX_AGENT_SECRET'' (Secret c),
      SingBoxConfigPath = env_string getenv ''SINGBOX_AGENT_SINGBOX_CONFIG_PATH'' (SingBoxConfigPath c),
      LogLevel = env_string getenv ''SINGBOX_AGENT_LOG_LEVEL'' (LogLevel c),
      TLSCertPath = env_string getenv ''SINGBOX_AGENT_TLS_CERT_PATH'' (TLSCertPath c),
      TLSKeyPath = env_string getenv ''SINGBOX_AGENT_TLS_KEY_PATH'' (TLSKeyPath c),
      FastifyBaseURL = env_string getenv ''SINGBOX_AGENT_FASTIFY_URL'' (FastifyBaseURL c),
      ServerID = env_string getenv ''SINGBOX_AGENT_SERVER_ID'' (ServerID c),
      ReloadStrategy = env_string getenv ''SINGBOX_AGENT_RELOAD_STRATEGY'' (ReloadStrategy c),
      ReloadTarget = env_string getenv ''SINGBOX_AGENT_RELOAD_TARGET'' (ReloadTarget c),
      ReloadCommand = env_string getenv ''SINGBOX_AGENT_RELOAD_COMMAND'' (ReloadCommand c),
      StatsAPIAddress = env_string getenv ''SINGBOX_AGENT_STATS_API_ADDRESS'' (StatsAPIAddress c)\<rparr>"

record config_io =
  cio_stat_ok :: "string \<Rightarrow> bool"
  cio_not_exist :: "string \<Rightarrow> bool"
  cio_ReadFile :: "string \<Rightarrow> string + string"
  cio_yaml :: "string \<Rightarrow> Config \<Rightarrow> string + Config"
  cio_Getenv :: "string \<Rightarrow> string"

definition loadFromYAML :: "config_io \<Rightarrow> Config \<Rightarrow> string \<Rightarrow> string + Config" where
  "loadFromYAML io cfg path =
     (case cio_ReadFile io path of
        Inl err \<Rightarrow> Inl (''failed to read config file: '' @ err)
      | Inr data \<Rightarrow>
          (case cio_yaml io data cfg of
             Inl err \<Rightarrow> Inl (''failed to parse YAML: '' @ err)
           | Inr cfg' \<Rightarrow> Inr cfg'))"

definition Load :: "config_io \<Rightarrow> string \<Rightarrow> string + Config" where
  "Load io configPath =
     (let path = (if configPath = [] then DefaultConfigPath else configPath)
      in if cio_stat_ok io path
         then (case loadFromYAML io Defaults path of
                 Inl err \<Rightarrow> Inl (''failed to load YAML config from '' @ path @ '': '' @ err)
               | Inr cfg \<Rightarrow> Inr (applyEnvOverrides (cio_Getenv io) cfg))
         else Inr (applyEnvOverrides (cio_Getenv io) Defaults))"

definition LoadFromEnv :: "config_io \<Rightarrow> string + Config" where
  "LoadFromEnv io = Inr (applyEnvOverrides (cio_Getenv io) Defaults)"

section \<open>Validation\<close>

definition error_if :: "bool \<Rightarrow> string \<Rightarrow> string list" where
  "error_if b msg = (if b then [msg] else [])"

definition port_error :: "string \<Rightarrow> int \<Rightarrow> string list" where
  "port_error name p = error_if (p < 1 \<or> 65535 < p) (name @ '' must be between 1 and 65535 (got '' @ Itoa p @ '')'')"

definition validLogLevels :: "string list" where
  "validLogLevels = [''debug'', ''info'', ''warn'', ''error'']"

definition validation_errors :: "config_io \<Rightarrow> (string \<Rightarrow> string) \<Rightarrow> Config \<Rightarrow> string list" where
  "validation_errors io quote c =
     (if Token c = [] then [''Token is required'']
      else error_if (length (Token c) < 32) (''Token must be at least 32 characters (got '' @ Itoa (int (length (Token c))) @ '')''))
     @ error_if (Secret c = []) ''Secret is required''
     @ port_error ''APIPort'' (APIPort c) @ port_error ''MetricsPort'' (MetricsPort c)
     @ error_if (APIPort c = MetricsPort c) (''APIPort and MetricsPort must be different (both are '' @ Itoa (APIPort c) @ '')'')
     @ error_if (ToLower (LogLevel c) \<notin> set validLogLevels)
         (''LogLevel must be one of: debug, info, warn, error (got '' @ quote (LogLevel c) @ '')'')
     @ error_if ((TLSCertPath c = []) \<noteq> (TLSKeyPath c = [])) ''TLSCertPath and TLSKeyPath must both be specified or both empty''
     @ error_if (TLSCertPath c \<noteq> [] \<and> cio_not_exist io (TLSCertPath c)) (''TLSCertPath file does not exist: '' @ TLSCertPath c)
     @ error_if (TLSKeyPath c \<noteq> [] \<and> cio_not_exist io (TLSKeyPath c)) (''TLSKeyPath file does not exist: '' @ TLSKeyPath c)
     @ (if SingBoxConfigPath c = [] then [''SingBoxConfigPath is required'']
        else error_if (cio_not_exist io (SingBoxConfigPath c)) (''SingBoxConfigPath file does not exist: '' @ SingBoxConfigPath c))"

definition Config_Validate :: "config_io \<Rightarrow> (string \<Rightarrow> string) \<Rightarrow> Config \<Rightarrow> string option" where
  "Config_Validate io quote c =
     (let errors = validation_errors io quote c; bullet = [CHR 0x0A] @ ''  - ''
      in if errors = [] then None else Some (''configuration validation failed:'' @ bullet @ Join errors bullet))"

definition IsProductionReady :: "config_io \<Rightarrow> Config \<Rightarrow> string option" where
  "IsProductionReady io c =
     (if TLSCertPath c = [] \<or> TLSKeyPath c = []
      then Some ''TLS is required for production (TLSCertPath and TLSKeyPath must be specified)''
      else if cio_not_exist io (TLSCertPath c) then Some (''TLSCertPath file does not exist: '' @ TLSCertPath c)
      else if cio_not_exist io (TLSKeyPath c) then Some (''TLSKeyPath file does not exist: '' @ TLSKeyPath c)
      else None)"

section \<open>What a valid configuration guarantees\<close>

lemma error_if_Nil [simp]: "error_if b msg = [] \<longleftrightarrow> \<not> b"
  by (simp add: error_if_def)

text \<open>
  A configuration is accepted exactly when it has a token of at least 32 bytes, a secret, two different ports in
  range, a known log level, the files it names, and a certificate together with its key or neither.
\<close>

lemma Config_Validate_iff:
  "Config_Validate io quote c = None \<longleftrightarrow>
     32 \<le> length (Token c) \<and> Secret c \<noteq> [] \<and> APIPort c \<in> {1..65535} \<and> MetricsPort c \<in> {1..65535} \<and> APIPort c \<noteq> MetricsPort c \<and>
     ToLower (LogLevel c) \<in> set validLogLevels \<and> (TLSCertPath c = [] \<longleftrightarrow> TLSKeyPath c = []) \<and>
     (\<forall>p \<in> {TLSCertPath c, TLSKeyPath c} - {[]}. \<not> cio_not_exist io p) \<and>
     SingBoxConfigPath c \<noteq> [] \<and> \<not> cio_not_exist io (SingBoxConfigPath c)"
  by (auto simp: Config_Validate_def validation_errors_def port_error_def Let_def split: if_splits)

text \<open>With TLS configured, a valid configuration is ready for production.\<close>

lemma valid_with_TLS_is_ready:
  "Config_Validate io quote c = None \<Longrightarrow> TLSCertPath c \<noteq> [] \<Longrightarrow> IsProductionReady io c = None"
  unfolding Config_Validate_iff by (simp add: IsProductionReady_def)

text \<open>Variables that are set win over the file, the file over the defaults; loading never fails without a file.\<close>

lemma Load_overrides: "Load io path = Inr c \<Longrightarrow> \<exists>c0. c = applyEnvOverrides (cio_Getenv io) c0"
  by (auto simp: Load_def Let_def split: if_splits sum.splits)

lemma applyEnvOverrides_Token: "Token (applyEnvOverrides getenv c) = env_string getenv ''SINGBOX_AGENT_TOKEN'' (Token c)"
  by (simp add: applyEnvOverrides_def)

lemma Load_precedence:
  assumes "Load io path = Inr c" and "cio_Getenv io ''SINGBOX_AGENT_TOKEN'' \<noteq> []"
  shows "Token c = cio_Getenv io ''SINGBOX_AGENT_TOKEN''"
proof -
  obtain c0 where "c = applyEnvOverrides (cio_Getenv io) c0"
    using Load_overrides [OF assms(1)] by (rule exE)
  with assms(2) show ?thesis
    by (simp only: applyEnvOverrides_Token env_string_def if_False)
qed

lemma Load_without_file:
  "\<forall>p. \<not> cio_stat_ok io p \<Longrightarrow> Load io path = LoadFromEnv io"
  by (simp add: Load_def LoadFromEnv_def Let_def)

text \<open>The printed form of a configuration does not depend on its token and its secret.\<close>

lemma Config_String_redacted: "Config_String (c\<lparr>Token := t, Secret := s, MetricsPassword := p\<rparr>) = Config_String c"
  by (simp add: Config_String_def)

end
