(* ===== verification/Metrics.thy ===== *)
theory Metrics
  imports Stats
begin

text \<open>
  The exported inbound metrics (\<open>internal/metrics/collector.go\<close>) and the loop that collects them (\<open>loop.go\<close>).  Registration
  with Prometheus is a parameter: it succeeds, finds an existing collector, or fails.
\<close>

section \<open>Registration\<close>

datatype 'c registration = Registered | AlreadyRegistered "'c option" | RegisterError string

text \<open>
  \<open>registerGaugeVec\<close>, \<open>registerCounterVec\<close> and \<open>registerGauge\<close>: an existing collector of the right type is used instead,
  one of another type (\<^term>\<open>AlreadyRegistered None\<close>) is an error.
\<close>

fun register_collector :: "'c registration \<Rightarrow> 'c \<Rightarrow> string + 'c" where
  "register_collector Registered collector = Inr collector"
| "register_collector (AlreadyRegistered (Some existing)) collector = Inr existing"
| "register_collector (AlreadyRegistered None) collector = Inl ''existing collector has unexpected type''"
| "register_collector (RegisterError err) collector = Inl err"

section \<open>The collector\<close>

record InboundStat =
  is_Tag :: string
  is_Type :: string
  is_Users :: int
  is_Connections :: int
  is_UpBytes :: uint64
  is_DownBytes :: uint64

type_synonym 'k vec = "('k, rat) gomap"

record Collector =
  agentInfo :: "(string \<times> string) vec"
  syncStatus :: "string vec"
  syncTimestamp :: rat
  inboundUsers :: "(string \<times> string) vec"
  inboundConnections :: "string vec"
  trafficUp :: "string vec"
  trafficDown :: "string vec"
  lastUp :: "(string, uint64) gomap"
  lastDown :: "(string, uint64) gomap"

record registrations =
  rg_agentInfo :: "(string \<times> string) vec registration"
  rg_syncStatus :: "string vec registration"
  rg_syncTimestamp :: "rat registration"
  rg_inboundUsers :: "(string \<times> string) vec registration"
  rg_inboundConnections :: "string vec registration"
  rg_trafficUp :: "string vec registration"
  rg_trafficDown :: "string vec registration"

definition NewCollector :: "registrations \<Rightarrow> string + Collector" where
  "NewCollector rg =
     bindE (register_collector (rg_agentInfo rg) []) (\<lambda>info.
     bindE (register_collector (rg_syncStatus rg) []) (\<lambda>sync.
     bindE (register_collector (rg_syncTimestamp rg) 0) (\<lambda>stamp.
     bindE (register_collector (rg_inboundUsers rg) []) (\<lambda>users.
     bindE (register_collector (rg_inboundConnections rg) []) (\<lambda>conns.
     bindE (register_collector (rg_trafficUp rg) []) (\<lambda>up.
     bindE (register_collector (rg_trafficDown rg) []) (\<lambda>down.
       Inr \<lparr>agentInfo = info, syncStatus = sync, syncTimestamp = stamp, inboundUsers = users, inboundConnections = conns,
            trafficUp = up, trafficDown = down, lastUp = [], lastDown = []\<rparr>)))))))"

definition SetAgentInfo :: "string \<Rightarrow> string \<Rightarrow> Collector \<Rightarrow> Collector" where
  "SetAgentInfo version singBoxVersion c = c\<lparr>agentInfo := [((version, singBoxVersion), 1)]\<rparr>"

definition SetSyncStatus :: "string \<Rightarrow> time \<Rightarrow> Collector \<Rightarrow> Collector" where
  "SetSyncStatus state lastSync c =
     (let c = c\<lparr>syncStatus := [(state, 1)]\<rparr>
      in if lastSync \<noteq> 0 then c\<lparr>syncTimestamp := float64_of_int (lastSync div Second - unixToInternal)\<rparr> else c)"

definition deltaCounter :: "uint64 \<Rightarrow> uint64 \<Rightarrow> uint64" where
  "deltaCounter previous current = (if previous \<le> current then current - previous else current)"

text \<open>A counter starts at zero.\<close>

definition counter :: "string vec \<Rightarrow> string \<Rightarrow> rat" where
  "counter m tag = (case mget m tag of Some x \<Rightarrow> x | None \<Rightarrow> 0)"

definition last_seen :: "(string, uint64) gomap \<Rightarrow> string \<Rightarrow> uint64" where
  "last_seen m tag = (case mget m tag of Some x \<Rightarrow> x | None \<Rightarrow> 0)"

definition add_delta :: "string \<Rightarrow> uint64 \<Rightarrow> string vec \<Rightarrow> string vec" where
  "add_delta tag delta m = (if 0 < delta then mput tag (counter m tag + float64_of_int (uint delta)) m else m)"

definition observe :: "InboundStat \<Rightarrow> Collector \<Rightarrow> Collector" where
  "observe stat c =
     (let tag = is_Tag stat
      in if tag = [] then c
         else c\<lparr>inboundUsers := mput (tag, is_Type stat) (float64_of_int (is_Users stat)) (inboundUsers c),
                inboundConnections := mput tag (float64_of_int (is_Connections stat)) (inboundConnections c),
                trafficUp := add_delta tag (deltaCounter (last_seen (lastUp c) tag) (is_UpBytes stat)) (trafficUp c),
                lastUp := mput tag (is_UpBytes stat) (lastUp c),
                trafficDown := add_delta tag (deltaCounter (last_seen (lastDown c) tag) (is_DownBytes stat)) (trafficDown c),
                lastDown := mput tag (is_DownBytes stat) (lastDown c)\<rparr>)"

definition ObserveInbounds :: "InboundStat list \<Rightarrow> Collector \<Rightarrow> Collector" where
  "ObserveInbounds stats c = fold observe stats (c\<lparr>inboundUsers := [], inboundConnections := []\<rparr>)"

section \<open>The loop\<close>

definition StatsCollectionInterval :: duration where "StatsCollectionInterval = 30 * Second"

fun collect_stats :: "'w V2RayStatsClient \<Rightarrow> Inbound list \<Rightarrow> 'w \<Rightarrow> 'w \<times> InboundStat list" where
  "collect_stats sc [] w = (w, [])"
| "collect_stats sc (ib # ibs) w =
     (case InboundTraffic sc (Tag ib) w of
        (w, Inl err) \<Rightarrow> collect_stats sc ibs w
      | (w, Inr (up, down)) \<Rightarrow>
          (case collect_stats sc ibs w of
             (w, stats) \<Rightarrow> (w, \<lparr>is_Tag = Tag ib, is_Type = Type ib, is_Users = 0, is_Connections = 0, is_UpBytes = up,
                               is_DownBytes = down\<rparr> # stats)))"

definition collect :: "'s SingBoxClient \<Rightarrow> 'w V2RayStatsClient \<Rightarrow> 's \<Rightarrow> 'w \<times> Collector \<Rightarrow> 'w \<times> Collector" where
  "collect C sc s = (\<lambda>(w, c).
     case GetInbounds C s of
       Inl err \<Rightarrow> (w, c)
     | Inr inbounds \<Rightarrow> (case collect_stats sc inbounds w of (w', stats) \<Rightarrow> (w', ObserveInbounds stats c)))"

text \<open>
  \<open>RunStatsLoop\<close>: a collection at the start and one for every tick before the context is done; the list has the states of
  the configuration at these times.  Without a stats client nothing is collected.
\<close>

definition RunStatsLoop ::
  "registrations \<Rightarrow> string \<Rightarrow> 's SingBoxClient \<Rightarrow> 'w V2RayStatsClient option \<Rightarrow> 's \<Rightarrow> 's list \<Rightarrow> 'w \<Rightarrow> 'w \<times> (string + Collector)" where
  "RunStatsLoop rg version C statsClient s ticks w =
     (case NewCollector rg of
        Inl err \<Rightarrow> (w, Inl err)
      | Inr c \<Rightarrow>
          let c = SetAgentInfo version [] c
          in case statsClient of
               None \<Rightarrow> (w, Inr c)
             | Some sc \<Rightarrow> (case fold (collect C sc) (s # ticks) (w, c) of (w', c') \<Rightarrow> (w', Inr c')))"

section \<open>The counters do not overcount\<close>

text \<open>
  What happens to one inbound between readings: traffic, a restart of sing-box (its counter starts again), a reading.
  \<open>cur\<close> is the counter inside sing-box, \<open>total\<close> all the traffic so far.
\<close>

datatype event = Traffic nat | Restart | Reading

record inbound_run =
  cur :: nat
  total :: nat
  coll :: Collector

definition reading :: "string \<Rightarrow> nat \<Rightarrow> InboundStat" where
  "reading tag n = \<lparr>is_Tag = tag, is_Type = [], is_Users = 0, is_Connections = 0, is_UpBytes = of_nat n, is_DownBytes = 0\<rparr>"

fun happens :: "string \<Rightarrow> event \<Rightarrow> inbound_run \<Rightarrow> inbound_run" where
  "happens tag (Traffic n) s = s\<lparr>cur := cur s + n, total := total s + n\<rparr>"
| "happens tag Restart s = s\<lparr>cur := 0\<rparr>"
| "happens tag Reading s = s\<lparr>coll := ObserveInbounds [reading tag (cur s)] (coll s)\<rparr>"

text \<open>\<open>e\<close> is what has been exported, \<open>l\<close> the last reading.\<close>

definition counted :: "bool \<Rightarrow> string \<Rightarrow> inbound_run \<Rightarrow> bool" where
  "counted restarts tag s \<longleftrightarrow> (\<exists>e. counter (trafficUp (coll s)) tag = of_nat e \<and>
     (let l = unat (last_seen (lastUp (coll s)) tag)
      in cur s \<le> total s \<and> e + (cur s - l) \<le> total s \<and> (l \<le> cur s \<or> e + cur s \<le> total s) \<and>
         (\<not> restarts \<longrightarrow> l \<le> cur s \<and> e + (cur s - l) = total s)))"

lemma unat_small: "n < 2 ^ 53 \<Longrightarrow> unat (of_nat n :: uint64) = n"
  by (simp add: unat_of_nat)

lemma deltaCounter_nat:
  assumes "n < 2 ^ 53"
  shows "unat (deltaCounter l (of_nat n)) = (if unat l \<le> n then n - unat l else n)"
  using assms by (simp add: deltaCounter_def word_le_nat_alt unat_sub unat_small)

lemma counter_add_delta:
  assumes "unat d < 2 ^ 53"
  shows "counter (add_delta tag d m) tag = counter m tag + of_nat (unat d)"
proof -
  have "float64_of_int (uint d) = of_int (uint d)"
    using assms by (intro float64_of_int_exact) (simp add: uint_nat del: of_nat_unat)
  then have "float64_of_int (uint d) = of_nat (unat d)"
    by (simp only: uint_nat of_int_of_nat_eq)
  then show ?thesis
    by (auto simp: add_delta_def counter_def word_gt_0)
qed

lemma observe_reading:
  assumes "tag \<noteq> []" and "n < 2 ^ 53"
  shows "last_seen (lastUp (ObserveInbounds [reading tag n] c)) tag = of_nat n"
    and "counter (trafficUp (ObserveInbounds [reading tag n] c)) tag =
      counter (trafficUp c) tag + of_nat (let l = unat (last_seen (lastUp c) tag) in if l \<le> n then n - l else n)"
  using assms deltaCounter_nat [OF assms(2), of "last_seen (lastUp c) tag"]
  by (auto simp: ObserveInbounds_def observe_def reading_def last_seen_def counter_add_delta Let_def)

lemma counted_step:
  assumes "counted restarts tag s" and "tag \<noteq> []" and "total (happens tag ev s) < 2 ^ 53" and "restarts \<or> ev \<noteq> Restart"
  shows "counted restarts tag (happens tag ev s)"
proof -
  obtain e where e: "counter (trafficUp (coll s)) tag = of_nat e"
    "let l = unat (last_seen (lastUp (coll s)) tag)
     in cur s \<le> total s \<and> e + (cur s - l) \<le> total s \<and> (l \<le> cur s \<or> e + cur s \<le> total s) \<and>
        (\<not> restarts \<longrightarrow> l \<le> cur s \<and> e + (cur s - l) = total s)"
    using assms(1) by (auto simp: counted_def)
  define l where "l = unat (last_seen (lastUp (coll s)) tag)"
  show ?thesis
  proof (cases ev)
    case (Traffic n)
    with e show ?thesis
      by (auto simp: counted_def Let_def intro!: exI [of _ e])
  next
    case Restart
    with e assms(4) show ?thesis
      by (auto simp: counted_def Let_def intro!: exI [of _ e])
  next
    case Reading
    with assms(3) e(2) have "cur s < 2 ^ 53"
      by (simp add: Let_def)
    note obs = observe_reading [OF assms(2) this, of "coll s"]
    from Reading e show ?thesis
      unfolding counted_def
      by (intro exI [of _ "e + (if l \<le> cur s then cur s - l else cur s)"])
        (auto simp: obs l_def unat_small [OF \<open>cur s < 2 ^ 53\<close>] Let_def)
  qed
qed

definition new_run :: "Collector \<Rightarrow> inbound_run" where
  "new_run c = \<lparr>cur = 0, total = 0, coll = c\<rparr>"

lemma total_happens: "total s \<le> total (fold (happens tag) evs s)"
proof (induction evs arbitrary: s)
  case (Cons ev evs)
  have "total s \<le> total (happens tag ev s)"
    by (cases ev) simp_all
  with Cons [of "happens tag ev s"] show ?case
    by simp
qed simp

lemma counted_run:
  assumes "tag \<noteq> []" and "counted restarts tag s" and "total (fold (happens tag) evs s) < 2 ^ 53"
    and "restarts \<or> Restart \<notin> set evs"
  shows "counted restarts tag (fold (happens tag) evs s)"
  using assms(2-)
proof (induction evs arbitrary: s)
  case (Cons ev evs)
  have "total (happens tag ev s) < 2 ^ 53"
    using total_happens [of "happens tag ev s" tag evs] Cons.prems(2) by simp
  with Cons assms(1) show ?case
    by (auto intro!: counted_step Cons.IH)
qed simp

text \<open>
  The exported counter of an inbound never exceeds its traffic, whatever restarts there are; without restarts it is the traffic
  up to the last reading, exactly.
\<close>

lemma traffic_never_overcounted:
  assumes "tag \<noteq> []" and "counter (trafficUp c) tag = 0" and "last_seen (lastUp c) tag = 0"
    and "s = fold (happens tag) evs (new_run c)" and "total s < 2 ^ 53"
  shows "counter (trafficUp (coll s)) tag \<le> of_nat (total s)"
    and "Restart \<notin> set evs \<Longrightarrow> evs \<noteq> [] \<Longrightarrow> last evs = Reading \<Longrightarrow> counter (trafficUp (coll s)) tag = of_nat (total s)"
proof -
  have init: "counted r tag (new_run c)" for r
    using assms(2,3) by (auto simp: counted_def new_run_def intro!: exI [of _ 0])
  have "counted True tag s"
    unfolding assms(4) using assms(1,4,5) by (intro counted_run init) simp_all
  then show "counter (trafficUp (coll s)) tag \<le> of_nat (total s)"
    by (auto simp: counted_def Let_def)
next
  assume nr: "Restart \<notin> set evs" and evs: "evs \<noteq> []" "last evs = Reading"
  have "counted False tag (new_run c)"
    using assms(2,3) by (auto simp: counted_def new_run_def intro!: exI [of _ 0])
  moreover define s0 where "s0 = fold (happens tag) (butlast evs) (new_run c)"
  have s: "s = happens tag Reading s0"
    using evs append_butlast_last_id [of evs] by (metis assms(4) fold_append fold_simps(1,2) o_apply s0_def)
  ultimately have s0: "counted False tag s0"
    unfolding s0_def using assms(1,5) nr s by (intro counted_run) (auto simp: s0_def dest: in_set_butlastD)
  then have small: "cur s0 < 2 ^ 53"
    using assms(5) s by (auto simp: counted_def Let_def)
  define l where "l = unat (last_seen (lastUp (coll s0)) tag)"
  obtain e where e: "counter (trafficUp (coll s0)) tag = of_nat e" "l \<le> cur s0" "e + (cur s0 - l) = total s0"
    using s0 by (auto simp: counted_def Let_def l_def)
  have "counter (trafficUp (coll s)) tag = of_nat e + of_nat (cur s0 - l)"
    unfolding s using e(1,2) observe_reading(2) [OF assms(1) small] by (simp add: Let_def l_def [symmetric])
  moreover have "total s = e + (cur s0 - l)"
    using e(3) by (simp add: s)
  ultimately show "counter (trafficUp (coll s)) tag = of_nat (total s)"
    by (simp only: of_nat_add)
qed

end
