(* ===== verification/Agent.thy ===== *)
theory Agent
  imports Lifecycle Server Config Metrics
begin

text \<open>
  The processes: the life of the server (\<open>Start\<close>, \<open>Shutdown\<close> and the wiring in \<open>New\<close>, \<open>internal/server/server.go\<close>), the agent
  (\<open>cmd/agent/main.go\<close>) and the probe of the stats service (\<open>cmd/statsprobe/main.go\<close>).

  What happens before the goroutines run is a function of the flags, the configuration and the answers of the environment.
  From then on the agent is a step relation: signals, the serving goroutine, the goroutines of the lifecycle, \<open>Start\<close> and \<open>main\<close> take
  steps in any order.  \<open>Start\<close> and \<open>main\<close> both call \<open>shutdownServer\<close>; its calls are separate steps under \<open>shutdownMu\<close>, so that
  everything that does not take this lock, as \<open>lifecycle.Start\<close>, may come in between.  \<open>main\<close> ends the process: nothing happens after it
  has returned.
\<close>

section \<open>Wiring\<close>

text \<open>\<open>strings.EqualFold\<close> folds the case of letters as the lookup of JSON fields does.\<close>

definition EqualFold :: "string \<Rightarrow> string \<Rightarrow> bool" where
  "EqualFold s t \<longleftrightarrow> names s t"

record 'w ServerOptions =
  so_Version :: string
  so_FastifyClient :: "Client option"
  so_StatsClient :: "'w V2RayStatsClient option"

definition reload_config_of :: "Config \<Rightarrow> reload_config" where
  "reload_config_of cfg =
     \<lparr>rc_ReloadStrategy = ReloadStrategy cfg, rc_ReloadTarget = ReloadTarget cfg, rc_ReloadCommand = ReloadCommand cfg\<rparr>"

definition new_coreService :: "(string \<Rightarrow> string) \<Rightarrow> Config \<Rightarrow> CoreServiceAdapter" where
  "new_coreService quoted cfg =
     (let coreService = NewCoreServiceAdapter (SingBoxConfigPath cfg);
          coreService = (if EqualFold (ReloadStrategy cfg) ''signal'' \<and> ReloadTarget cfg \<noteq> []
                         then WithPIDFile (ReloadTarget cfg) coreService else coreService)
      in WithReloader (server_reloader quoted (reload_config_of cfg)) coreService)"

text \<open>What \<open>New\<close> takes from the configuration and the options; \<open>se\<close> has the parameters that stand for libraries.\<close>

definition new_env :: "'w server_env \<Rightarrow> (string \<Rightarrow> string) \<Rightarrow> Config \<Rightarrow> 'w ServerOptions \<Rightarrow> 'w server_env" where
  "new_env se quoted cfg opts =
     se\<lparr>se_auth := \<lparr>cfg_Token = Config.Token cfg, cfg_Secret = Config.Secret cfg\<rparr>,
        se_stats := so_StatsClient opts,
        se_core := new_coreService quoted cfg,
        se_version := (if so_Version opts = [] then ''dev'' else so_Version opts),
        se_MetricsUsername := MetricsUsername cfg, se_MetricsPassword := MetricsPassword cfg\<rparr>"

text \<open>
  The calls that start and end parts of the server are logged in their order; \<open>APIClosed\<close> is the return of the \<open>Shutdown\<close> of the API
  server with its error, if any.  \<open>srv_locked\<close>: \<open>shutdownMu\<close> is held.
\<close>

datatype act = StartLifecycle | StopLifecycle | ShutdownAPI | APIClosed "string option" | ShutdownMetrics

record 'w Server =
  httpServer_Addr :: string
  metricsServer_Addr :: "string option"
  srv_TLS :: "(string \<times> string) option"
  srv_locked :: bool
  srv_shutdown :: bool
  srv_lifecycle :: "'w lifecycle"
  srv_acts :: "act list"

definition NewServer :: "Config \<Rightarrow> Client option \<Rightarrow> 'w \<Rightarrow> Engine \<Rightarrow> 'w Server" where
  "NewServer cfg fastify w e =
     \<lparr>httpServer_Addr = '':'' @ Itoa (APIPort cfg),
      metricsServer_Addr = (if 0 < MetricsPort cfg then Some ('':'' @ Itoa (MetricsPort cfg)) else None),
      srv_TLS = (if TLSCertPath cfg \<noteq> [] \<and> TLSKeyPath cfg \<noteq> [] then Some (TLSCertPath cfg, TLSKeyPath cfg) else None),
      srv_locked = False, srv_shutdown = False, srv_lifecycle = NewLifecycle fastify w e, srv_acts = []\<rparr>"

definition Addr :: "'w Server \<Rightarrow> string" where
  "Addr s = httpServer_Addr s"

section \<open>Shutdown\<close>

definition act :: "act \<Rightarrow> 'w Server \<Rightarrow> 'w Server" where
  "act x s = s\<lparr>srv_acts := srv_acts s @ [x]\<rparr>"

definition stop_lifecycle :: "'w Server \<Rightarrow> 'w Server" where
  "stop_lifecycle s = act StopLifecycle (s\<lparr>srv_lifecycle := Lifecycle_Stop (srv_lifecycle s)\<rparr>)"

definition unlock :: "'w Server \<Rightarrow> 'w Server" where
  "unlock s = s\<lparr>srv_locked := False\<rparr>"

text \<open>
  The points of \<open>shutdownServer\<close> and its steps: before \<open>Lock\<close>, before \<open>lifecycle.Stop\<close>, before and in the call of the API server's
  \<open>Shutdown\<close>, and before the one of the metrics server.  A step is \<^term>\<open>None\<close> while the lock is held by another caller and after the return.
  \<open>api_err\<close> is the error of the API server's \<open>Shutdown\<close>, which ends at the latest with its time limit; the error of the metrics server's is
  only logged.
\<close>

datatype shutdown_pc = Locking | Stopping | CallAPI | AwaitAPI | ClosingMetrics | ShutdownReturned "string option"

fun shutdown_step :: "string option \<Rightarrow> shutdown_pc \<Rightarrow> 'w Server \<Rightarrow> (shutdown_pc \<times> 'w Server) option" where
  "shutdown_step api_err Locking s =
     (if srv_locked s then None
      else if srv_shutdown s then Some (ShutdownReturned None, s)
      else Some (Stopping, s\<lparr>srv_locked := True, srv_shutdown := True\<rparr>))"
| "shutdown_step api_err Stopping s = Some (CallAPI, stop_lifecycle s)"
| "shutdown_step api_err CallAPI s = Some (AwaitAPI, act ShutdownAPI s)"
| "shutdown_step api_err AwaitAPI s =
     (let s = act (APIClosed api_err) s
      in case api_err of
           Some err \<Rightarrow> Some (ShutdownReturned (Some (''shutdown error: '' @ err)), unlock s)
         | None \<Rightarrow> if metricsServer_Addr s = None then Some (ShutdownReturned None, unlock s) else Some (ClosingMetrics, s))"
| "shutdown_step api_err ClosingMetrics s = Some (ShutdownReturned None, unlock (act ShutdownMetrics s))"
| "shutdown_step api_err (ShutdownReturned err) s = None"

text \<open>The function as a whole, when nothing comes in between; \<open>shutdown_runs\<close> below relates the two.\<close>

definition shutdownServer :: "string option \<Rightarrow> 'w Server \<Rightarrow> 'w Server \<times> string option" where
  "shutdownServer api_err s =
     (if srv_shutdown s then (s, None)
      else let s = act (APIClosed api_err) (act ShutdownAPI (stop_lifecycle (s\<lparr>srv_shutdown := True\<rparr>)))
           in case api_err of
                Some err \<Rightarrow> (s, Some (''shutdown error: '' @ err))
              | None \<Rightarrow> (if metricsServer_Addr s = None then s else act ShutdownMetrics s, None))"

definition Shutdown :: "string option \<Rightarrow> 'w Server \<Rightarrow> 'w Server \<times> string option" where
  "Shutdown = shutdownServer"

section \<open>The running agent\<close>

text \<open>
  What \<open>Serve\<close> or \<open>ServeTLS\<close> has put into \<open>serverErr\<close>: \<^term>\<open>None\<close> stands for \<open>http.ErrServerClosed\<close>.  \<open>Start\<close> is before \<open>net.Listen\<close>,
  before \<open>signal.NotifyContext\<close>, before \<open>lifecycle.Start\<close>, before the serving goroutine is launched, in its \<open>select\<close>, in
  \<open>shutdownServer\<close>, or back; \<open>main\<close> is in its \<open>select\<close>, in \<open>Shutdown\<close>, or back.
\<close>

datatype serving = NotServing | Serving | ServeReturned "string option"
datatype start_phase = StartListen | StartNotify | StartTasks | StartServe | StartSelect
  | StartShutdown shutdown_pc | StartReturned "string option"
datatype main_phase = MainSelect | MainShutdown shutdown_pc | MainReturned

record 'w agent =
  ag_server :: "'w Server"
  ag_sigCh :: bool
  ag_ctx_done :: bool
  ag_serving :: serving
  ag_start :: start_phase
  ag_main :: main_phase

text \<open>The context of \<open>Start\<close> ends with a signal and when \<open>Start\<close> returns; the context of the goroutines is derived from it.\<close>

definition end_context :: "'w Server \<Rightarrow> 'w Server" where
  "end_context s = s\<lparr>srv_lifecycle := Lifecycle_Stop (srv_lifecycle s)\<rparr>"

definition start_returns :: "string option \<Rightarrow> 'w agent \<Rightarrow> 'w agent" where
  "start_returns err a = a\<lparr>ag_start := StartReturned err, ag_ctx_done := True, ag_server := end_context (ag_server a)\<rparr>"

text \<open>\<open>signal.NotifyContext\<close> has been called and its \<open>stop\<close> has not.\<close>

fun notified :: "start_phase \<Rightarrow> bool" where
  "notified StartListen = False"
| "notified StartNotify = False"
| "notified (StartReturned err) = False"
| "notified _ = True"

text \<open>A signal reaches the channel of \<open>main\<close> and, while it is registered, the context of \<open>Start\<close>.\<close>

definition deliver_signal :: "'w agent \<Rightarrow> 'w agent" where
  "deliver_signal a =
     (if notified (ag_start a)
      then a\<lparr>ag_sigCh := True, ag_ctx_done := True, ag_server := end_context (ag_server a)\<rparr>
      else a\<lparr>ag_sigCh := True\<rparr>)"

definition start_tasks :: "bool \<Rightarrow> 'w Server \<Rightarrow> 'w Server" where
  "start_tasks parent_done s = act StartLifecycle (s\<lparr>srv_lifecycle := Lifecycle_Start parent_done (srv_lifecycle s)\<rparr>)"

inductive agent_step :: "json_env \<Rightarrow> 'w agent \<Rightarrow> 'w agent \<Rightarrow> bool" for je where
  signal: "ag_main a \<noteq> MainReturned \<Longrightarrow> agent_step je a (deliver_signal a)"
| listen_fails: "ag_main a \<noteq> MainReturned \<Longrightarrow> ag_start a = StartListen \<Longrightarrow>
    agent_step je a (a\<lparr>ag_start := StartReturned (Some (''failed to listen: '' @ err))\<rparr>)"
| listen: "ag_main a \<noteq> MainReturned \<Longrightarrow> ag_start a = StartListen \<Longrightarrow> agent_step je a (a\<lparr>ag_start := StartNotify\<rparr>)"
| notify: "ag_main a \<noteq> MainReturned \<Longrightarrow> ag_start a = StartNotify \<Longrightarrow> agent_step je a (a\<lparr>ag_start := StartTasks\<rparr>)"
| tasks: "ag_main a \<noteq> MainReturned \<Longrightarrow> ag_start a = StartTasks \<Longrightarrow>
    agent_step je a (a\<lparr>ag_start := StartServe, ag_server := start_tasks (ag_ctx_done a) (ag_server a)\<rparr>)"
| serve: "ag_main a \<noteq> MainReturned \<Longrightarrow> ag_start a = StartServe \<Longrightarrow>
    agent_step je a (a\<lparr>ag_start := StartSelect, ag_serving := Serving\<rparr>)"
| background: "ag_main a \<noteq> MainReturned \<Longrightarrow> lifecycle_step je (srv_lifecycle (ag_server a)) l \<Longrightarrow>
    lc_cancel l = lc_cancel (srv_lifecycle (ag_server a)) \<Longrightarrow> lc_done l = lc_done (srv_lifecycle (ag_server a)) \<Longrightarrow>
    agent_step je a (a\<lparr>ag_server := (ag_server a)\<lparr>srv_lifecycle := l\<rparr>\<rparr>)"
| serve_fails: "ag_main a \<noteq> MainReturned \<Longrightarrow> ag_serving a = Serving \<Longrightarrow> agent_step je a (a\<lparr>ag_serving := ServeReturned (Some err)\<rparr>)"
| serve_closed: "ag_main a \<noteq> MainReturned \<Longrightarrow> ag_serving a = Serving \<Longrightarrow> ShutdownAPI \<in> set (srv_acts (ag_server a)) \<Longrightarrow>
    agent_step je a (a\<lparr>ag_serving := ServeReturned None\<rparr>)"
| start_signalled: "ag_main a \<noteq> MainReturned \<Longrightarrow> ag_start a = StartSelect \<Longrightarrow> ag_ctx_done a \<Longrightarrow>
    agent_step je a (a\<lparr>ag_start := StartShutdown Locking\<rparr>)"
| start_shutdown: "ag_main a \<noteq> MainReturned \<Longrightarrow> ag_start a = StartShutdown pc \<Longrightarrow>
    shutdown_step api_err pc (ag_server a) = Some (pc', s) \<Longrightarrow>
    agent_step je a (a\<lparr>ag_server := s, ag_start := StartShutdown pc'\<rparr>)"
| start_shut_down: "ag_main a \<noteq> MainReturned \<Longrightarrow> ag_start a = StartShutdown (ShutdownReturned err) \<Longrightarrow>
    agent_step je a (start_returns err a)"
| start_served: "ag_main a \<noteq> MainReturned \<Longrightarrow> ag_start a = StartSelect \<Longrightarrow> ag_serving a = ServeReturned res \<Longrightarrow>
    agent_step je a (start_returns (map_option (\<lambda>err. ''server error: '' @ err) res) a)"
| main_signalled: "ag_main a = MainSelect \<Longrightarrow> ag_sigCh a \<Longrightarrow>
    agent_step je a (a\<lparr>ag_main := MainShutdown Locking, ag_sigCh := False\<rparr>)"
| main_start_returned: "ag_main a = MainSelect \<Longrightarrow> ag_start a = StartReturned res \<Longrightarrow>
    agent_step je a (a\<lparr>ag_main := MainShutdown Locking\<rparr>)"
| main_shutdown: "ag_main a = MainShutdown pc \<Longrightarrow> shutdown_step api_err pc (ag_server a) = Some (pc', s) \<Longrightarrow>
    agent_step je a (a\<lparr>ag_server := s, ag_main := MainShutdown pc'\<rparr>)"
| main_returns: "ag_main a = MainShutdown (ShutdownReturned err) \<Longrightarrow> agent_step je a (a\<lparr>ag_main := MainReturned\<rparr>)"

definition agent_new :: "'w Server \<Rightarrow> 'w agent" where
  "agent_new s = \<lparr>ag_server = s, ag_sigCh = False, ag_ctx_done = False, ag_serving = NotServing, ag_start = StartListen, ag_main = MainSelect\<rparr>"

section \<open>Start-up\<close>

datatype slog_level = SlogDebug | SlogInfo | SlogWarn | SlogError

definition newLogger :: "string \<Rightarrow> slog_level" where
  "newLogger level =
     (if level = ''debug'' then SlogDebug else if level = ''warn'' then SlogWarn else if level = ''error'' then SlogError else SlogInfo)"

text \<open>\<open>dial\<close> is \<open>grpc.NewClient\<close>.\<close>

definition NewV2RayStatsClient :: "(string \<Rightarrow> string + 'w V2RayStatsClient) \<Rightarrow> string \<Rightarrow> string + 'w V2RayStatsClient" where
  "NewV2RayStatsClient dial address =
     (case dial address of Inl err \<Rightarrow> Inl (''dial v2ray stats api '' @ address @ '': '' @ err) | Inr c \<Rightarrow> Inr c)"

record flags =
  fl_config :: string
  fl_version :: bool

record build_info =
  Version :: string
  BuildTime :: string
  GitCommit :: string

record 'w run_setup =
  su_cfg :: Config
  su_level :: slog_level
  su_opts :: "'w ServerOptions"
  su_collect :: "'w V2RayStatsClient option"

datatype 'w startup = Printed string | Fatal string | Running "'w run_setup"

definition fastify_options :: "Config \<Rightarrow> ClientOptions" where
  "fastify_options cfg =
     \<lparr>opt_BaseURL = FastifyBaseURL cfg, opt_Token = Config.Token cfg, opt_Secret = Config.Secret cfg, opt_CACertPath = [],
      opt_ServerName = [], opt_Timeout = 0, opt_Retry = \<lparr>MaxRetries = 0, BaseDelay = 0, MaxDelay = 0\<rparr>, opt_HTTPClient = False\<rparr>"

definition stats_client :: "(string \<Rightarrow> string + 'w V2RayStatsClient) \<Rightarrow> string \<Rightarrow> 'w V2RayStatsClient option" where
  "stats_client dial address = (case NewV2RayStatsClient dial address of Inl _ \<Rightarrow> None | Inr c \<Rightarrow> Some c)"

text \<open>
  \<open>main\<close> up to the goroutines.  The handlers get a client of the stats service only when an address is configured; the loop that
  collects the metrics dials by itself.
\<close>

definition agent_main ::
  "config_io \<Rightarrow> (string \<Rightarrow> string) \<Rightarrow> (string \<Rightarrow> string + 'w V2RayStatsClient) \<Rightarrow> tls_env \<Rightarrow> build_info \<Rightarrow> flags \<Rightarrow> 'w startup" where
  "agent_main io quoted dial te build fl =
     (if fl_version fl
      then Printed (''sing-box-agent: '' @ Version build @ '' ('' @ GitCommit build @ '') built '' @ BuildTime build @ [CHR 0x0A])
      else case Load io (fl_config fl) of
             Inl err \<Rightarrow> Fatal (''failed to load config: '' @ err)
           | Inr cfg \<Rightarrow>
               (case Config_Validate io quoted cfg of
                  Some err \<Rightarrow> Fatal (''invalid config: '' @ err)
                | None \<Rightarrow>
                    let opts = \<lparr>so_Version = Version build, so_FastifyClient = None,
                                so_StatsClient = (if StatsAPIAddress cfg = [] then None else stats_client dial (StatsAPIAddress cfg))\<rparr>;
                        run = (\<lambda>opts. Running \<lparr>su_cfg = cfg, su_level = newLogger (LogLevel cfg), su_opts = opts,
                                               su_collect = stats_client dial (StatsAPIAddress cfg)\<rparr>)
                    in if FastifyBaseURL cfg = [] then run opts
                       else case NewFastifyClient te (fastify_options cfg) of
                              Inl err \<Rightarrow> Fatal (''failed to create fastify client: '' @ err)
                            | Inr c \<Rightarrow> run (opts\<lparr>so_FastifyClient := Some c\<rparr>)))"

text \<open>The exit status: \<open>log.Fatalf\<close> ends the process with 1, a return from \<open>main\<close> with 0.\<close>

definition startup_exit :: "'w startup \<Rightarrow> nat option" where
  "startup_exit s = (case s of Printed _ \<Rightarrow> Some 0 | Fatal _ \<Rightarrow> Some 1 | Running _ \<Rightarrow> None)"

definition agent_exit :: "'w agent \<Rightarrow> nat option" where
  "agent_exit a = (if ag_main a = MainReturned then Some 0 else None)"

definition agent_of :: "'w run_setup \<Rightarrow> 'w \<Rightarrow> Engine \<Rightarrow> 'w agent" where
  "agent_of su w e = agent_new (NewServer (su_cfg su) (so_FastifyClient (su_opts su)) w e)"

inductive agent_reachable :: "json_env \<Rightarrow> 'w agent \<Rightarrow> bool" for je where
  start: "agent_reachable je (agent_of su w (NewEngine env m metrics oserr))"
| step: "agent_reachable je a \<Longrightarrow> agent_step je a a' \<Longrightarrow> agent_reachable je a'"

section \<open>The probe\<close>

text \<open>
  \<open>statsprobe\<close>: what it prints, line by line, and the reason for which it panics, if it does.  \<open>call\<close> is \<open>conn.Invoke\<close> on bytes.
\<close>

record 'w connection =
  cn_call :: "string \<Rightarrow> byte list \<Rightarrow> 'w \<Rightarrow> 'w \<times> (string + byte list)"
  cn_codec_error :: "wire_error \<Rightarrow> string"

definition conn_Invoke :: "'w connection \<Rightarrow> string \<Rightarrow> message \<Rightarrow> message \<Rightarrow> 'w \<Rightarrow> 'w \<times> (string + message)" where
  "conn_Invoke c method req resp w =
     (case Codec_Marshal req of
        Inl err \<Rightarrow> (w, Inl (cn_codec_error c err))
      | Inr data \<Rightarrow>
          (case cn_call c method data w of
             (w', Inl err) \<Rightarrow> (w', Inl err)
           | (w', Inr data) \<Rightarrow>
               (w', case Codec_Unmarshal data resp of Inl err \<Rightarrow> Inl (cn_codec_error c err) | Inr m \<Rightarrow> Inr m)))"

definition queryStatsMethod :: string where
  "queryStatsMethod = ''/v2ray.core.app.stats.command.StatsService/QueryStats''"

definition sysStatsMethod :: string where
  "sysStatsMethod = ''/v2ray.core.app.stats.command.StatsService/GetSysStats''"

definition stat_line :: "Stat \<Rightarrow> string" where
  "stat_line s = GetName (Some s) @ '' = '' @ Itoa (sint (GetValue (Some s)))"

fun response_stats :: "message \<Rightarrow> Stat list" where
  "response_stats (MQueryStatsResponse r) = GetStat (Some r)"
| "response_stats _ = []"

definition statsprobe :: "(string \<Rightarrow> string + 'w connection) \<Rightarrow> SysStatsResponse \<Rightarrow> string list \<Rightarrow> 'w \<Rightarrow> 'w \<times> string list \<times> string option" where
  "statsprobe dial zero args w =
     (if length args < 2 then (w, [], Some ''index out of range'')
      else case dial (args ! 1) of
             Inl err \<Rightarrow> (w, [], Some err)
           | Inr c \<Rightarrow>
               (case conn_Invoke c queryStatsMethod
                       (MQueryStatsRequest \<lparr>qsq_Pattern = [], qsq_Reset = False, qsq_Patterns = [''>>>''], qsq_Regexp = False\<rparr>)
                       (MQueryStatsResponse \<lparr>qsr_Stat = []\<rparr>) w of
                  (w', Inl err) \<Rightarrow> (w', [], Some err)
                | (w', Inr resp) \<Rightarrow>
                    let stats = response_stats resp;
                        lines = (''stats len: '' @ Itoa (int (length stats))) # map stat_line stats
                    in case conn_Invoke c sysStatsMethod MSysStatsRequest (MSysStatsResponse zero) w' of
                         (w'', res) \<Rightarrow>
                           (w'', lines @ [''second call err: '' @ (case res of Inl err \<Rightarrow> err | Inr _ \<Rightarrow> ''<nil>'')], None)))"

section \<open>Shutting down\<close>

lemma Lifecycle_Stop_simps [simp]:
  "lc_cancel (Lifecycle_Stop l) = lc_cancel l" "lc_done (Lifecycle_Stop l) \<longleftrightarrow> lc_done l \<or> lc_cancel l"
  "lc_fastify (Lifecycle_Stop l) = lc_fastify l"
  by (simp_all add: Lifecycle_Stop_def)

text \<open>A caller that holds the lock.\<close>

definition holds_lock :: "shutdown_pc \<Rightarrow> bool" where
  "holds_lock pc \<longleftrightarrow> pc \<in> {Stopping, CallAPI, AwaitAPI, ClosingMetrics}"

text \<open>
  The calls that shut the server down, in their order: the metrics server is left alone when the API server has not been shut down in time.
\<close>

definition shutdown_order :: "bool \<Rightarrow> string option \<Rightarrow> act list" where
  "shutdown_order metrics err = [StopLifecycle, ShutdownAPI, APIClosed err] @ (if err = None \<and> metrics then [ShutdownMetrics] else [])"

definition shutdown_acts :: "'w Server \<Rightarrow> act list" where
  "shutdown_acts s = filter (\<lambda>x. x \<noteq> StartLifecycle) (srv_acts s)"

abbreviation has_metrics :: "'w Server \<Rightarrow> bool" where
  "has_metrics s \<equiv> metricsServer_Addr s \<noteq> None"

text \<open>What has been done when a caller is at a point of \<open>shutdownServer\<close>.\<close>

fun done_at :: "shutdown_pc \<Rightarrow> 'w Server \<Rightarrow> bool" where
  "done_at Stopping s \<longleftrightarrow> shutdown_acts s = []"
| "done_at CallAPI s \<longleftrightarrow> shutdown_acts s = [StopLifecycle]"
| "done_at AwaitAPI s \<longleftrightarrow> shutdown_acts s = [StopLifecycle, ShutdownAPI]"
| "done_at ClosingMetrics s \<longleftrightarrow> shutdown_acts s = [StopLifecycle, ShutdownAPI, APIClosed None] \<and> has_metrics s"
| "done_at pc s \<longleftrightarrow> True"

text \<open>\<open>lifecycle.Start\<close> after \<open>lifecycle.Stop\<close>.\<close>

definition started_late :: "act list \<Rightarrow> bool" where
  "started_late acts \<longleftrightarrow> (\<exists>p q. acts = p @ StartLifecycle # q \<and> StopLifecycle \<in> set p)"

definition goroutines_stopped :: "'w Server \<Rightarrow> bool" where
  "goroutines_stopped s \<longleftrightarrow> (lc_cancel (srv_lifecycle s) \<longrightarrow> lc_done (srv_lifecycle s)) \<or> started_late (srv_acts s)"

text \<open>The points of \<open>Start\<close> and \<open>main\<close> in \<open>shutdownServer\<close>, and what holds when two callers are at two points.\<close>

fun start_pc :: "start_phase \<Rightarrow> shutdown_pc" where
  "start_pc (StartShutdown pc) = pc"
| "start_pc _ = Locking"

fun main_pc :: "main_phase \<Rightarrow> shutdown_pc" where
  "main_pc (MainShutdown pc) = pc"
| "main_pc MainSelect = Locking"
| "main_pc MainReturned = ShutdownReturned None"

definition lock_inv :: "shutdown_pc \<Rightarrow> shutdown_pc \<Rightarrow> 'w Server \<Rightarrow> bool" where
  "lock_inv p q s \<longleftrightarrow>
     (srv_locked s \<longleftrightarrow> holds_lock p \<or> holds_lock q) \<and> \<not> (holds_lock p \<and> holds_lock q) \<and> (srv_locked s \<longrightarrow> srv_shutdown s) \<and>
     done_at p s \<and> done_at q s \<and> (\<not> srv_shutdown s \<longrightarrow> shutdown_acts s = []) \<and>
     (srv_shutdown s \<and> \<not> srv_locked s \<longrightarrow> (\<exists>err. shutdown_acts s = shutdown_order (has_metrics s) err)) \<and>
     ((\<exists>err. ShutdownReturned err \<in> {p, q}) \<longrightarrow> srv_shutdown s \<and> \<not> srv_locked s)"

definition agent_inv :: "'w agent \<Rightarrow> bool" where
  "agent_inv a \<longleftrightarrow>
     lock_inv (start_pc (ag_start a)) (main_pc (ag_main a)) (ag_server a) \<and>
     (ag_start a \<in> {StartListen, StartNotify, StartTasks} \<longrightarrow> \<not> lc_cancel (srv_lifecycle (ag_server a))) \<and>
     (StopLifecycle \<in> set (srv_acts (ag_server a)) \<longrightarrow> goroutines_stopped (ag_server a))"

lemma shutdown_acts_simps [simp]:
  "shutdown_acts (act x s) = (if x = StartLifecycle then shutdown_acts s else shutdown_acts s @ [x])"
  "shutdown_acts (unlock s) = shutdown_acts s" "shutdown_acts (stop_lifecycle s) = shutdown_acts s @ [StopLifecycle]"
  "shutdown_acts (end_context s) = shutdown_acts s" "shutdown_acts (start_tasks b s) = shutdown_acts s"
  "shutdown_acts (s\<lparr>srv_lifecycle := l\<rparr>) = shutdown_acts s" "shutdown_acts (s\<lparr>srv_locked := b\<rparr>) = shutdown_acts s"
  "shutdown_acts (s\<lparr>srv_shutdown := b\<rparr>) = shutdown_acts s"
  by (simp_all add: shutdown_acts_def act_def unlock_def stop_lifecycle_def end_context_def start_tasks_def)

lemma server_simps [simp]:
  "srv_locked (act x s) = srv_locked s" "srv_shutdown (act x s) = srv_shutdown s" "metricsServer_Addr (act x s) = metricsServer_Addr s"
  "srv_lifecycle (act x s) = srv_lifecycle s" "srv_acts (act x s) = srv_acts s @ [x]"
  "\<not> srv_locked (unlock s)" "srv_shutdown (unlock s) = srv_shutdown s" "metricsServer_Addr (unlock s) = metricsServer_Addr s"
  "srv_lifecycle (unlock s) = srv_lifecycle s" "srv_acts (unlock s) = srv_acts s"
  "srv_locked (end_context s) = srv_locked s" "srv_shutdown (end_context s) = srv_shutdown s"
  "metricsServer_Addr (end_context s) = metricsServer_Addr s" "srv_lifecycle (end_context s) = Lifecycle_Stop (srv_lifecycle s)"
  "srv_acts (end_context s) = srv_acts s"
  by (simp_all add: act_def unlock_def end_context_def)

lemma server_calls [simp]:
  "srv_locked (stop_lifecycle s) = srv_locked s" "srv_shutdown (stop_lifecycle s) = srv_shutdown s"
  "metricsServer_Addr (stop_lifecycle s) = metricsServer_Addr s" "srv_lifecycle (stop_lifecycle s) = Lifecycle_Stop (srv_lifecycle s)"
  "srv_acts (stop_lifecycle s) = srv_acts s @ [StopLifecycle]"
  "srv_locked (start_tasks b s) = srv_locked s" "srv_shutdown (start_tasks b s) = srv_shutdown s"
  "metricsServer_Addr (start_tasks b s) = metricsServer_Addr s"
  "srv_lifecycle (start_tasks b s) = Lifecycle_Start b (srv_lifecycle s)" "srv_acts (start_tasks b s) = srv_acts s @ [StartLifecycle]"
  by (simp_all add: stop_lifecycle_def start_tasks_def)

text \<open>The invariant of the lock does not depend on the rest of the server.\<close>

lemma done_at_cong: "shutdown_acts s' = shutdown_acts s \<Longrightarrow> metricsServer_Addr s' = metricsServer_Addr s \<Longrightarrow> done_at p s' \<longleftrightarrow> done_at p s"
  by (cases p) simp_all

lemma lock_inv_cong:
  assumes "lock_inv p q s" and "srv_locked s' = srv_locked s" "srv_shutdown s' = srv_shutdown s"
    "shutdown_acts s' = shutdown_acts s" "metricsServer_Addr s' = metricsServer_Addr s"
  shows "lock_inv p q s'"
  using assms(1) unfolding lock_inv_def assms(2-5) done_at_cong [OF assms(4,5)] .

lemma lock_inv_returned:
  "lock_inv (ShutdownReturned err) q s \<Longrightarrow> lock_inv Locking q s"
  "lock_inv p (ShutdownReturned err) s \<Longrightarrow> lock_inv p (ShutdownReturned err') s"
  by (auto simp: lock_inv_def holds_lock_def)

lemma lock_inv_swap: "lock_inv p q s \<longleftrightarrow> lock_inv q p s"
  by (auto simp: lock_inv_def)

lemma not_holding: "\<not> holds_lock p \<Longrightarrow> done_at p s"
  by (cases p) (simp_all add: holds_lock_def)

lemma lock_inv_step:
  assumes "shutdown_step api_err p s = Some (p', s')" and "lock_inv p q s"
  shows "lock_inv p' q s'"
proof -
  have q: "\<not> holds_lock q"
    using assms by (cases p) (auto simp: lock_inv_def holds_lock_def)
  show ?thesis
    using assms q not_holding [OF q]
    by (cases p) (auto simp: lock_inv_def holds_lock_def shutdown_order_def Let_def split: if_splits option.splits)
qed

lemma shutdown_step_stops:
  assumes "shutdown_step api_err p s = Some (p', s')" and "StopLifecycle \<in> set (srv_acts s) \<longrightarrow> goroutines_stopped s"
  shows "StopLifecycle \<in> set (srv_acts s') \<longrightarrow> goroutines_stopped s'"
    and "lc_cancel (srv_lifecycle s') = lc_cancel (srv_lifecycle s)" and "metricsServer_Addr s' = metricsServer_Addr s"
proof -
  have late: "started_late (acts @ [x])" if "started_late acts" for acts x
    using that by (auto simp: started_late_def) (metis append.assoc append_Cons)
  show "StopLifecycle \<in> set (srv_acts s') \<longrightarrow> goroutines_stopped s'"
    using assms late by (cases p) (auto simp: goroutines_stopped_def Let_def split: if_splits option.splits)
  show "lc_cancel (srv_lifecycle s') = lc_cancel (srv_lifecycle s)" "metricsServer_Addr s' = metricsServer_Addr s"
    using assms(1) by (cases p; auto simp: Let_def split: if_splits option.splits)+
qed

lemma agent_inv_start: "agent_inv (agent_of su w e)"
  by (simp add: agent_inv_def agent_of_def agent_new_def NewServer_def NewLifecycle_def lock_inv_def holds_lock_def shutdown_acts_def)

lemma agent_inv_step:
  assumes "agent_step je a a'" and "agent_inv a"
  shows "agent_inv a'"
  using assms
proof (induction rule: agent_step.induct)
  case (signal a)
  then show ?case
    by (auto simp: agent_inv_def deliver_signal_def goroutines_stopped_def elim: lock_inv_cong)
next
  case (tasks a)
  have "goroutines_stopped (start_tasks b s)" if "StopLifecycle \<in> set (srv_acts s)" for b and s :: "'a Server"
    using that by (auto simp: goroutines_stopped_def started_late_def)
  with tasks show ?case
    by (auto simp: agent_inv_def elim: lock_inv_cong)
next
  case (background a l)
  then show ?case
    by (auto simp: agent_inv_def goroutines_stopped_def elim: lock_inv_cong)
next
  case (start_shutdown a pc api_err pc' s)
  then show ?case
    using lock_inv_step [OF start_shutdown(3)] shutdown_step_stops [OF start_shutdown(3)] by (auto simp: agent_inv_def)
next
  case (main_shutdown a pc api_err pc' s)
  then show ?case
    using lock_inv_step [OF main_shutdown(2)] shutdown_step_stops [OF main_shutdown(2)]
    by (simp add: agent_inv_def lock_inv_swap [of "start_pc (ag_start a)"])
next
  case (start_shut_down a err)
  then show ?case
    by (auto simp: agent_inv_def start_returns_def goroutines_stopped_def intro: lock_inv_cong [OF lock_inv_returned(1)])
next
  case (start_served a res)
  then show ?case
    by (auto simp: agent_inv_def start_returns_def goroutines_stopped_def elim: lock_inv_cong)
next
  case (main_returns a err)
  then show ?case
    by (auto simp: agent_inv_def intro: lock_inv_returned(2))
qed (simp_all add: agent_inv_def)

lemma agent_reachable_inv: "agent_reachable je a \<Longrightarrow> agent_inv a"
  by (induction rule: agent_reachable.induct) (rule agent_inv_start, rule agent_inv_step)

text \<open>What the agent does with its goroutines are steps of the lifecycle.\<close>

lemma lifecycle_reachable_stop: "lifecycle_reachable je fastify l \<Longrightarrow> lifecycle_reachable je fastify (Lifecycle_Stop l)"
  by (rule lifecycle_reachable.step [OF _ lifecycle_step.stop])

lemma shutdown_step_lifecycle:
  "shutdown_step api_err p s = Some (p', s') \<Longrightarrow> srv_lifecycle s' \<in> {srv_lifecycle s, Lifecycle_Stop (srv_lifecycle s)}"
  by (cases p) (auto simp: Let_def split: if_splits option.splits)

lemma agent_step_lifecycle:
  assumes "agent_step je a a'" and "agent_inv a" and "lifecycle_reachable je fastify (srv_lifecycle (ag_server a))"
  shows "lifecycle_reachable je fastify (srv_lifecycle (ag_server a'))"
  using assms
proof (induction rule: agent_step.induct)
  case (start_shutdown a pc api_err pc' s)
  then show ?case
    using shutdown_step_lifecycle [OF start_shutdown(3)] lifecycle_reachable_stop by auto
next
  case (main_shutdown a pc api_err pc' s)
  then show ?case
    using shutdown_step_lifecycle [OF main_shutdown(2)] lifecycle_reachable_stop by auto
next
  case (tasks a)
  then have "\<not> lc_cancel (srv_lifecycle (ag_server a))"
    by (simp add: agent_inv_def)
  from lifecycle_reachable.step [OF tasks(4) lifecycle_step.start [OF this]] show ?case
    by simp
next
  case (background a l)
  from lifecycle_reachable.step [OF background(6) background(2)] show ?case
    by simp
qed (simp_all add: deliver_signal_def start_returns_def lifecycle_reachable_stop)

lemma agent_lifecycle:
  assumes "agent_reachable je a"
  shows "\<exists>fastify. lifecycle_reachable je fastify (srv_lifecycle (ag_server a))"
  using assms
proof (induction rule: agent_reachable.induct)
  case (start su w env m metrics oserr)
  then show ?case
    by (auto simp: agent_of_def agent_new_def NewServer_def intro: lifecycle_reachable.new)
next
  case (step a a')
  then show ?case
    using agent_step_lifecycle agent_reachable_inv by blast
qed

text \<open>How many steps a shutdown can still take.\<close>

fun pc_work :: "shutdown_pc \<Rightarrow> nat" where
  "pc_work Stopping = 4"
| "pc_work CallAPI = 3"
| "pc_work AwaitAPI = 2"
| "pc_work ClosingMetrics = 1"
| "pc_work _ = 0"

fun main_work :: "main_phase \<Rightarrow> nat" where
  "main_work MainSelect = 3"
| "main_work (MainShutdown Locking) = 2"
| "main_work (MainShutdown _) = 1"
| "main_work MainReturned = 0"

definition lock_work :: "shutdown_pc \<Rightarrow> shutdown_pc \<Rightarrow> 'w Server \<Rightarrow> nat" where
  "lock_work p q s = (if srv_shutdown s then pc_work p + pc_work q else 5)"

definition shutdown_work :: "'w agent \<Rightarrow> nat" where
  "shutdown_work a = main_work (ag_main a) + lock_work (start_pc (ag_start a)) (main_pc (ag_main a)) (ag_server a)"

text \<open>\<open>main\<close> has a reason to shut down, or does so.\<close>

definition ending :: "'w agent \<Rightarrow> bool" where
  "ending a \<longleftrightarrow> ag_sigCh a \<or> (\<exists>r. ag_start a = StartReturned r) \<or> ag_main a \<noteq> MainSelect"

lemma lock_work_swap: "lock_work p q s = lock_work q p s"
  by (simp add: lock_work_def)

lemma pc_work_holds: "\<not> holds_lock p \<Longrightarrow> pc_work p = 0"
  by (cases p) (simp_all add: holds_lock_def)

lemma lock_work_step:
  assumes "shutdown_step api_err p s = Some (p', s')" and "lock_inv p q s"
  shows "lock_work p' q s' \<le> lock_work p q s" and "holds_lock p \<Longrightarrow> lock_work p' q s' < lock_work p q s"
proof -
  have "\<not> holds_lock q"
    using assms by (cases p) (auto simp: lock_inv_def holds_lock_def)
  note q = pc_work_holds [OF this]
  show "lock_work p' q s' \<le> lock_work p q s"
    using assms q by (cases p) (auto simp: lock_work_def lock_inv_def Let_def split: if_splits option.splits)
  show "lock_work p' q s' < lock_work p q s" if "holds_lock p"
    using that assms q by (cases p) (auto simp: lock_work_def lock_inv_def holds_lock_def Let_def split: if_splits option.splits)
qed

lemma shutdown_step_enabled: "holds_lock p \<or> p = Locking \<and> \<not> srv_locked s \<Longrightarrow> \<exists>p' s'. shutdown_step None p s = Some (p', s')"
  by (cases p) (auto simp: holds_lock_def Let_def)

lemma main_work_step:
  assumes "shutdown_step api_err p s = Some (p', s')"
  shows "main_work (MainShutdown p') \<le> main_work (MainShutdown p)" and "p = Locking \<Longrightarrow> main_work (MainShutdown p') = 1"
  using assms by (cases p; auto simp: Let_def split: if_splits option.splits)+

text \<open>Nothing makes a shutdown longer.\<close>

lemma agent_step_work:
  assumes "agent_step je a a'" and "agent_inv a"
  shows "shutdown_work a' \<le> shutdown_work a"
  using assms
proof (induction rule: agent_step.induct)
  case (start_shutdown a pc api_err pc' s)
  then show ?case
    using lock_work_step(1) [OF start_shutdown(3), of "main_pc (ag_main a)"] by (simp add: shutdown_work_def agent_inv_def)
next
  case (main_shutdown a pc api_err pc' s)
  have "lock_inv pc (start_pc (ag_start a)) (ag_server a)"
    using main_shutdown(1,3) by (simp add: agent_inv_def lock_inv_swap [of pc])
  from lock_work_step(1) [OF main_shutdown(2) this] main_work_step(1) [OF main_shutdown(2)] main_shutdown(1) show ?case
    by (simp add: shutdown_work_def lock_work_swap [of "start_pc _"])
qed (simp_all add: shutdown_work_def lock_work_def deliver_signal_def start_returns_def)

lemma shutdown_work_bound: "agent_inv a \<Longrightarrow> shutdown_work a \<le> 8"
proof -
  assume "agent_inv a"
  then have "\<not> (holds_lock (start_pc (ag_start a)) \<and> holds_lock (main_pc (ag_main a)))"
    by (simp add: agent_inv_def lock_inv_def)
  moreover have "pc_work p \<le> 4" for p
    by (cases p) simp_all
  then have "pc_work (start_pc (ag_start a)) \<le> 4" "pc_work (main_pc (ag_main a)) \<le> 4"
    by blast+
  moreover have "main_work (ag_main a) \<le> 3"
    by (cases "ag_main a" rule: main_work.cases) simp_all
  ultimately show "shutdown_work a \<le> 8"
    using pc_work_holds [of "start_pc (ag_start a)"] pc_work_holds [of "main_pc (ag_main a)"]
    by (auto simp: shutdown_work_def lock_work_def)
qed

lemma main_shutdown_progress:
  assumes "agent_inv a" and main: "ag_main a = MainShutdown pc" and free: "\<not> holds_lock (start_pc (ag_start a))"
  shows "\<exists>a'. agent_step je a a' \<and> ending a' \<and> shutdown_work a' < shutdown_work a"
proof -
  have inv: "lock_inv pc (start_pc (ag_start a)) (ag_server a)"
    using assms(1) main by (simp add: agent_inv_def lock_inv_swap [of pc])
  show ?thesis
  proof (cases "\<exists>err. pc = ShutdownReturned err")
    case True
    with main agent_step.main_returns [of a _ je] show ?thesis
      by (intro exI [of _ "a\<lparr>ag_main := MainReturned\<rparr>"]) (auto simp: ending_def shutdown_work_def lock_work_def)
  next
    case False
    then have pc: "pc = Locking \<or> holds_lock pc"
      by (cases pc) (auto simp: holds_lock_def)
    then obtain pc' s where step: "shutdown_step None pc (ag_server a) = Some (pc', s)"
      using shutdown_step_enabled [of pc "ag_server a"] inv free unfolding lock_inv_def by blast
    have "main_work (MainShutdown pc') + lock_work pc' (start_pc (ag_start a)) s <
        main_work (MainShutdown pc) + lock_work pc (start_pc (ag_start a)) (ag_server a)"
      using pc main_work_step [OF step] lock_work_step [OF step inv] by auto
    with agent_step.main_shutdown [OF main step, of je] main show ?thesis
      by (intro exI conjI) (assumption, auto simp: ending_def shutdown_work_def lock_work_swap [of "start_pc _"])
  qed
qed

lemma ending_progress:
  assumes "agent_inv a" and "ending a" and "ag_main a \<noteq> MainReturned"
  shows "\<exists>a'. agent_step je a a' \<and> ending a' \<and> shutdown_work a' < shutdown_work a"
proof (cases "holds_lock (start_pc (ag_start a))")
  case True
  then obtain pc where pc: "ag_start a = StartShutdown pc" "holds_lock pc"
    by (cases "ag_start a") (auto simp: holds_lock_def)
  then obtain pc' s where step: "shutdown_step None pc (ag_server a) = Some (pc', s)"
    using shutdown_step_enabled by blast
  have "lock_work pc' (main_pc (ag_main a)) s < lock_work pc (main_pc (ag_main a)) (ag_server a)"
    using lock_work_step(2) [OF step _ pc(2)] assms(1) pc(1) by (simp add: agent_inv_def)
  with agent_step.start_shutdown [OF assms(3) pc(1) step] pc(1) assms(2) show ?thesis
    by (intro exI conjI) (assumption, auto simp: ending_def shutdown_work_def)
next
  case free: False
  show ?thesis
  proof (cases "ag_main a")
    case MainSelect
    have "\<exists>a'. agent_step je a a' \<and> ag_main a' = MainShutdown Locking \<and> ag_start a' = ag_start a \<and> ag_server a' = ag_server a"
    proof (cases "ag_sigCh a")
      case True
      from agent_step.main_signalled [OF MainSelect True, of je] show ?thesis
        by (intro exI conjI) (assumption, simp_all)
    next
      case False
      with assms(2) MainSelect obtain r where "ag_start a = StartReturned r"
        by (auto simp: ending_def)
      from agent_step.main_start_returned [OF MainSelect this, of je] show ?thesis
        by (intro exI conjI) (assumption, simp_all)
    qed
    with MainSelect show ?thesis
      by (auto simp: ending_def shutdown_work_def lock_work_def intro: exI)
  next
    case (MainShutdown pc)
    with main_shutdown_progress [OF assms(1) _ free] show ?thesis
      by blast
  qed (use assms(3) in simp)
qed

lemma ending_exits:
  assumes "agent_inv a" and "ending a"
  shows "\<exists>n a'. n \<le> shutdown_work a \<and> (agent_step je ^^ n) a a' \<and> agent_exit a' = Some 0"
  using assms
proof (induction "shutdown_work a" arbitrary: a rule: less_induct)
  case less
  show ?case
  proof (cases "ag_main a = MainReturned")
    case True
    then show ?thesis
      by (intro exI [of _ "0::nat"]) (auto simp: agent_exit_def)
  next
    case False
    with ending_progress [OF less.prems] obtain a1 where a1: "agent_step je a a1" "ending a1" "shutdown_work a1 < shutdown_work a"
      by blast
    from less.hyps [OF a1(3) agent_inv_step [OF a1(1) less.prems(1)] a1(2)] obtain n a'
      where "n \<le> shutdown_work a1" "(agent_step je ^^ n) a1 a'" "agent_exit a' = Some 0"
      by blast
    with a1 show ?thesis
      by (intro exI [of _ "Suc n"] exI [of _ a'] conjI relpowp_Suc_I2 [of _ a a1]) simp_all
  qed
qed

text \<open>What has been logged at any time is a beginning of the calls in their order.\<close>

lemma shutdown_order_prefix:
  assumes "lock_inv p q s"
  shows "\<exists>err n. shutdown_acts s = take n (shutdown_order (has_metrics s) err)"
proof -
  have at: "\<exists>n. shutdown_acts s = take n (shutdown_order (has_metrics s) None)" if "holds_lock r" "done_at r s" for r
    using that
    by (cases r) (auto simp: holds_lock_def shutdown_order_def intro: exI [of _ "0::nat"] exI [of _ "1::nat"] exI [of _ "2::nat"] exI [of _ "3::nat"])
  consider "\<not> srv_shutdown s" | "holds_lock p" | "holds_lock q" | "srv_shutdown s" "\<not> srv_locked s"
    using assms by (auto simp: lock_inv_def)
  then show ?thesis
  proof cases
    case 1
    with assms show ?thesis
      by (intro exI [of _ None] exI [of _ "0::nat"]) (simp add: lock_inv_def)
  next
    case 4
    with assms obtain err where "shutdown_acts s = shutdown_order (has_metrics s) err"
      by (auto simp: lock_inv_def)
    then show ?thesis
      by (intro exI [of _ err] exI [of _ "length (shutdown_order (has_metrics s) err)"]) simp
  qed (use assms at in \<open>auto simp: lock_inv_def\<close>)
qed

text \<open>
  C25.  The agent shuts down once, in order, and does not hang.  Whatever signals, failures of the listener and of the server, steps of
  \<open>Start\<close> and steps of the goroutines come between the calls of \<open>shutdownServer\<close>, which \<open>Start\<close> and \<open>main\<close> both run: the calls that were
  made are at any time a beginning of one sequence, namely \<open>lifecycle.Stop\<close>, \<open>Shutdown\<close> of the API server, its return, and
  \<open>Shutdown\<close> of the metrics server; so each is made at most once.  The last one is left out exactly when there is no metrics server or
  the API server's \<open>Shutdown\<close> returned an error.  When the process ends, the sequence is complete, and the context of all goroutines that
  were started is done, unless \<open>lifecycle.Start\<close> came after \<open>lifecycle.Stop\<close>, which nothing prevents (\<open>goroutines_outlive_stop\<close>
  below).  Once a signal has come, \<open>Start\<close> has returned or \<open>main\<close> shuts down, at most eight further steps end the process, provided the
  two \<open>Shutdown\<close> calls return (they have a time limit); no step of anything else makes this longer.
\<close>

theorem agent_shuts_down_once:
  assumes "agent_reachable je a"
  shows "(\<exists>err n. shutdown_acts (ag_server a) = take n (shutdown_order (has_metrics (ag_server a)) err)) \<and>
    (agent_exit a \<noteq> None \<longrightarrow>
       (\<exists>err. shutdown_acts (ag_server a) = shutdown_order (has_metrics (ag_server a)) err) \<and> goroutines_stopped (ag_server a)) \<and>
    (ending a \<longrightarrow> (\<exists>n a'. n \<le> shutdown_work a \<and> (agent_step je ^^ n) a a' \<and> agent_exit a' = Some 0)) \<and>
    shutdown_work a \<le> 8 \<and> (\<forall>a'. agent_step je a a' \<longrightarrow> shutdown_work a' \<le> shutdown_work a)"
proof (intro conjI impI allI)
  have inv: "agent_inv a"
    by (rule agent_reachable_inv [OF assms])
  note lock = inv [unfolded agent_inv_def, THEN conjunct1]
  show "\<exists>err n. shutdown_acts (ag_server a) = take n (shutdown_order (has_metrics (ag_server a)) err)"
    by (rule shutdown_order_prefix [OF lock])
  {
    assume "agent_exit a \<noteq> None"
    then have "ag_main a = MainReturned"
      by (auto simp: agent_exit_def split: if_splits)
    with lock have "srv_shutdown (ag_server a) \<and> \<not> srv_locked (ag_server a)"
      unfolding lock_inv_def by auto
    with lock show order: "\<exists>err. shutdown_acts (ag_server a) = shutdown_order (has_metrics (ag_server a)) err"
      by (simp add: lock_inv_def)
    then have "StopLifecycle \<in> set (shutdown_acts (ag_server a))"
      by (auto simp: shutdown_order_def)
    with inv show "goroutines_stopped (ag_server a)"
      by (simp add: agent_inv_def shutdown_acts_def)
  }
  show "\<exists>n a'. n \<le> shutdown_work a \<and> (agent_step je ^^ n) a a' \<and> agent_exit a' = Some 0" if "ending a"
    by (rule ending_exits [OF inv that])
  show "shutdown_work a \<le> 8"
    by (rule shutdown_work_bound [OF inv])
  show "shutdown_work a' \<le> shutdown_work a" if "agent_step je a a'" for a'
    by (rule agent_step_work [OF that inv])
qed

text \<open>An agent that listens, gets a signal and ends.\<close>

definition demo_setup :: "unit run_setup" where
  "demo_setup = \<lparr>su_cfg = Defaults, su_level = SlogInfo, su_opts = \<lparr>so_Version = [], so_FastifyClient = Some demo_fastify, so_StatsClient = None\<rparr>,
     su_collect = None\<rparr>"

definition demo_agent :: "unit agent" where
  "demo_agent = agent_of demo_setup () demo_engine"

lemma demo_agent_reachable: "agent_reachable je demo_agent"
  unfolding demo_agent_def demo_engine_def by (rule agent_reachable.start)

lemma demo_agent_fields:
  "ag_main demo_agent = MainSelect" "ag_start demo_agent = StartListen" "srv_acts (ag_server demo_agent) = []"
  "\<not> srv_shutdown (ag_server demo_agent)" "\<not> srv_locked (ag_server demo_agent)" "\<not> ag_ctx_done demo_agent"
  "metricsServer_Addr (ag_server demo_agent) \<noteq> None" "lc_fastify (srv_lifecycle (ag_server demo_agent)) = Some demo_fastify"
  "\<not> lc_cancel (srv_lifecycle (ag_server demo_agent))"
  by (simp_all add: demo_agent_def agent_of_def agent_new_def NewServer_def demo_setup_def Defaults_def NewLifecycle_def)

text \<open>A call of \<open>Shutdown\<close> with nothing in between is \<open>shutdownServer\<close>.\<close>

definition shutdown_rel :: "string option \<Rightarrow> shutdown_pc \<times> 'w Server \<Rightarrow> shutdown_pc \<times> 'w Server \<Rightarrow> bool" where
  "shutdown_rel api_err x y \<longleftrightarrow> shutdown_step api_err (fst x) (snd x) = Some y"

lemma unlock_calls:
  assumes "\<not> srv_locked s"
  shows "unlock (act (APIClosed r) (act ShutdownAPI (stop_lifecycle (s\<lparr>srv_locked := True, srv_shutdown := True\<rparr>)))) =
      act (APIClosed r) (act ShutdownAPI (stop_lifecycle (s\<lparr>srv_shutdown := True\<rparr>)))"
    and "unlock (act ShutdownMetrics x) = act ShutdownMetrics (unlock x)"
  using assms by (simp_all add: unlock_def act_def stop_lifecycle_def)

lemma shutdown_runs:
  assumes "\<not> srv_locked s" and "shutdownServer api_err s = (s', err)"
  shows "(shutdown_rel api_err)\<^sup>*\<^sup>* (Locking, s) (ShutdownReturned err, s')"
proof (cases "srv_shutdown s")
  case True
  with assms show ?thesis
    by (intro r_into_rtranclp) (simp add: shutdown_rel_def shutdownServer_def)
next
  case False
  let ?s1 = "s\<lparr>srv_locked := True, srv_shutdown := True\<rparr>"
  let ?s3 = "act ShutdownAPI (stop_lifecycle ?s1)"
  have "(shutdown_rel api_err)\<^sup>*\<^sup>* (Locking, s) (Stopping, ?s1)"
    using assms(1) False by (intro r_into_rtranclp) (simp add: shutdown_rel_def)
  also have "shutdown_rel api_err (Stopping, ?s1) (CallAPI, stop_lifecycle ?s1)"
    by (simp add: shutdown_rel_def)
  also have "shutdown_rel api_err (CallAPI, stop_lifecycle ?s1) (AwaitAPI, ?s3)"
    by (simp add: shutdown_rel_def)
  finally have await: "(shutdown_rel api_err)\<^sup>*\<^sup>* (Locking, s) (AwaitAPI, ?s3)" .
  note unlocked = unlock_calls [OF assms(1)]
  show ?thesis
  proof (cases "api_err = None \<and> has_metrics s")
    case True
    then have "shutdown_rel api_err (AwaitAPI, ?s3) (ClosingMetrics, act (APIClosed api_err) ?s3)"
      by (auto simp: shutdown_rel_def Let_def)
    from rtranclp.rtrancl_into_rtrancl [OF await this]
    have "(shutdown_rel api_err)\<^sup>*\<^sup>* (Locking, s) (ClosingMetrics, act (APIClosed api_err) ?s3)" .
    moreover have "shutdown_rel api_err (ClosingMetrics, act (APIClosed api_err) ?s3) (ShutdownReturned err, s')"
      using True False assms(2) by (auto simp: shutdown_rel_def shutdownServer_def unlocked Let_def)
    ultimately show ?thesis
      by (rule rtranclp.rtrancl_into_rtrancl)
  next
    case False
    then have "shutdown_rel api_err (AwaitAPI, ?s3) (ShutdownReturned err, s')"
      using \<open>\<not> srv_shutdown s\<close> assms(2)
      by (cases api_err) (auto simp: shutdown_rel_def shutdownServer_def Let_def simp flip: unlocked)
    with await show ?thesis
      by (rule rtranclp.rtrancl_into_rtrancl)
  qed
qed

lemma main_runs:
  assumes "(shutdown_rel api_err)\<^sup>*\<^sup>* (pc, ag_server a) (pc', s')" and "ag_main a = MainShutdown pc" and "agent_reachable je a"
  shows "agent_reachable je (a\<lparr>ag_server := s', ag_main := MainShutdown pc'\<rparr>)"
  using assms(1)
proof (induction rule: rtranclp_induct2)
  case refl
  have "a\<lparr>ag_server := ag_server a, ag_main := MainShutdown pc\<rparr> = a"
    using assms(2) by simp
  then show ?case
    using assms(3) by (simp only:)
next
  case (step pc1 s1 pc2 s2)
  from agent_reachable.step [OF step.IH agent_step.main_shutdown [of "a\<lparr>ag_server := s1, ag_main := MainShutdown pc1\<rparr>" pc1 api_err pc2 s2]]
    step.hyps(2) show ?case
    by (simp add: shutdown_rel_def)
qed

text \<open>\<open>main\<close> gets a signal and shuts down by itself.\<close>

lemma main_shuts_down:
  assumes "agent_reachable je a" and "ag_main a = MainSelect" and "\<not> srv_locked (ag_server a)"
    and "Shutdown api_err (ag_server (deliver_signal a)) = (s', err)"
  shows "agent_reachable je ((deliver_signal a)\<lparr>ag_sigCh := False, ag_server := s', ag_main := MainShutdown (ShutdownReturned err)\<rparr>)"
proof -
  let ?a1 = "deliver_signal a"
  let ?a2 = "?a1\<lparr>ag_main := MainShutdown Locking, ag_sigCh := False\<rparr>"
  have a1: "ag_main ?a1 = MainSelect" "ag_sigCh ?a1" "\<not> srv_locked (ag_server ?a2)"
    using assms(2,3) by (simp_all add: deliver_signal_def)
  have "agent_reachable je ?a1"
    using agent_reachable.step [OF assms(1) agent_step.signal] assms(2) by simp
  then have a2: "agent_reachable je ?a2"
    by (rule agent_reachable.step) (rule agent_step.main_signalled [OF a1(1,2)])
  have "(shutdown_rel api_err)\<^sup>*\<^sup>* (Locking, ag_server ?a2) (ShutdownReturned err, s')"
    using shutdown_runs [OF a1(3)] assms(4) by (simp add: Shutdown_def)
  from main_runs [OF this _ a2] show ?thesis
    by simp
qed

text \<open>The agent up to the \<open>select\<close> of \<open>Start\<close>.\<close>

definition demo_selecting :: "unit agent" where
  "demo_selecting = demo_agent\<lparr>ag_server := start_tasks False (ag_server demo_agent), ag_start := StartSelect, ag_serving := Serving\<rparr>"

lemma demo_selecting_reachable: "agent_reachable je demo_selecting"
proof -
  let ?a1 = "demo_agent\<lparr>ag_start := StartTasks\<rparr>"
  let ?a2 = "?a1\<lparr>ag_start := StartServe, ag_server := start_tasks False (ag_server demo_agent)\<rparr>"
  have "agent_reachable je (demo_agent\<lparr>ag_start := StartNotify\<rparr>)"
    by (rule agent_reachable.step [OF demo_agent_reachable agent_step.listen]) (simp_all add: demo_agent_fields)
  from agent_reachable.step [OF this agent_step.notify] have "agent_reachable je ?a1"
    by (simp add: demo_agent_fields)
  from agent_reachable.step [OF this agent_step.tasks] have "agent_reachable je ?a2"
    by (simp add: demo_agent_fields)
  from agent_reachable.step [OF this agent_step.serve] show ?thesis
    by (simp add: demo_agent_fields demo_selecting_def)
qed

lemma demo_agent_ends:
  obtains a :: "unit agent" where "agent_reachable je a" "agent_exit a = Some 0" "lc_cancel (srv_lifecycle (ag_server a))"
    "srv_acts (ag_server a) = [StartLifecycle, StopLifecycle, ShutdownAPI, APIClosed None, ShutdownMetrics]"
proof -
  let ?a1 = "deliver_signal demo_selecting"
  let ?r = "Shutdown None (ag_server ?a1)"
  let ?a2 = "?a1\<lparr>ag_sigCh := False, ag_server := fst ?r, ag_main := MainShutdown (ShutdownReturned (snd ?r))\<rparr>"
  have "agent_reachable je ?a2"
    by (rule main_shuts_down [OF demo_selecting_reachable _ _ surjective_pairing])
      (simp_all add: demo_selecting_def demo_agent_fields)
  from agent_reachable.step [OF this agent_step.main_returns] have "agent_reachable je (?a2\<lparr>ag_main := MainReturned\<rparr>)"
    by simp
  moreover have "srv_acts (fst ?r) = [StartLifecycle, StopLifecycle, ShutdownAPI, APIClosed None, ShutdownMetrics]"
    "lc_cancel (srv_lifecycle (fst ?r))"
    using demo_agent_fields
    by (auto simp: demo_selecting_def deliver_signal_def Shutdown_def shutdownServer_def Let_def stop_lifecycle_def Lifecycle_Start_def)
  ultimately show ?thesis
    by (intro that [of "?a2\<lparr>ag_main := MainReturned\<rparr>"]) (simp_all add: agent_exit_def)
qed

theorem agent_shuts_down_once_witness:
  "\<exists>a :: unit agent. agent_reachable demo_sync_json a \<and> agent_exit a = Some 0 \<and> lc_cancel (srv_lifecycle (ag_server a)) \<and>
     srv_acts (ag_server a) = [StartLifecycle, StopLifecycle, ShutdownAPI, APIClosed None, ShutdownMetrics] \<and>
     lc_done (srv_lifecycle (ag_server a)) \<and> shutdown_acts (ag_server a) = shutdown_order True None"
proof -
  obtain a :: "unit agent" where a: "agent_reachable demo_sync_json a" "agent_exit a = Some 0" "lc_cancel (srv_lifecycle (ag_server a))"
    "srv_acts (ag_server a) = [StartLifecycle, StopLifecycle, ShutdownAPI, APIClosed None, ShutdownMetrics]"
    by (rule demo_agent_ends)
  have "\<not> started_late (srv_acts (ag_server a))"
    unfolding a(4) started_late_def by (auto simp: Cons_eq_append_conv)
  with agent_shuts_down_once [OF a(1)] a have "lc_done (srv_lifecycle (ag_server a))"
    by (simp add: goroutines_stopped_def)
  with a show ?thesis
    by (auto simp: shutdown_acts_def shutdown_order_def)
qed

text \<open>
  \<open>lifecycle.Start\<close> does not take the lock and does not look at \<open>shutdown\<close>: a signal that comes before \<open>Start\<close> has called
  \<open>signal.NotifyContext\<close> reaches only \<open>main\<close>, whose \<open>Shutdown\<close> finds nothing to stop; \<open>Start\<close> then launches goroutines whose
  context is not done when the process ends.
\<close>

lemma goroutines_outlive_stop:
  "\<exists>a :: unit agent. agent_reachable je a \<and> agent_exit a = Some 0 \<and> lc_cancel (srv_lifecycle (ag_server a)) \<and>
     \<not> lc_done (srv_lifecycle (ag_server a)) \<and>
     srv_acts (ag_server a) = [StopLifecycle, ShutdownAPI, APIClosed None, ShutdownMetrics, StartLifecycle]"
proof -
  let ?r = "Shutdown None (ag_server (deliver_signal demo_agent))"
  let ?a1 = "(deliver_signal demo_agent)\<lparr>ag_sigCh := False, ag_server := fst ?r, ag_main := MainShutdown (ShutdownReturned (snd ?r))\<rparr>"
  let ?a2 = "?a1\<lparr>ag_start := StartTasks\<rparr>"
  let ?a3 = "?a2\<lparr>ag_start := StartServe, ag_server := start_tasks (ag_ctx_done ?a2) (ag_server ?a2)\<rparr>"
  have fields: "ag_start ?a1 = StartListen" "ag_main ?a1 \<noteq> MainReturned" "ag_ctx_done ?a1 = False"
    by (simp_all add: deliver_signal_def demo_agent_fields)
  have "agent_reachable je ?a1"
    by (rule main_shuts_down [OF demo_agent_reachable _ _ surjective_pairing]) (simp_all add: demo_agent_fields)
  from agent_reachable.step [OF this agent_step.listen [OF fields(2,1)]] have "agent_reachable je (?a1\<lparr>ag_start := StartNotify\<rparr>)" .
  from agent_reachable.step [OF this agent_step.notify] have "agent_reachable je ?a2"
    by simp
  from agent_reachable.step [OF this agent_step.tasks] have "agent_reachable je ?a3"
    by simp
  from agent_reachable.step [OF this agent_step.main_returns] have "agent_reachable je (?a3\<lparr>ag_main := MainReturned\<rparr>)"
    by simp
  then show ?thesis
    using demo_agent_fields fields(3)
    by (intro exI [of _ "?a3\<lparr>ag_main := MainReturned\<rparr>"] conjI)
      (auto simp: agent_exit_def deliver_signal_def Shutdown_def shutdownServer_def Let_def stop_lifecycle_def Lifecycle_Start_def Lifecycle_Stop_def)
qed

section \<open>Starting\<close>

text \<open>
  An agent that starts has a valid configuration: its requests are authenticated with a token of at least 32 bytes and a secret,
  and its two servers have different addresses.
\<close>

lemma agent_main_Running:
  assumes "agent_main io quoted dial te build fl = Running su"
  shows "Config_Validate io quoted (su_cfg su) = None" and "su_level su = newLogger (LogLevel (su_cfg su))"
    and "so_FastifyClient (su_opts su) = None \<longleftrightarrow> FastifyBaseURL (su_cfg su) = []"
  using assms by (auto simp: agent_main_def Let_def split: if_splits sum.splits option.splits)

lemma different_addresses:
  assumes "agent_main io quoted dial te build fl = Running su"
  shows "\<exists>m. metricsServer_Addr (NewServer (su_cfg su) c w e) = Some m \<and> m \<noteq> Addr (NewServer (su_cfg su) c w e)"
proof -
  let ?c = "su_cfg su"
  have ports: "APIPort ?c \<in> {1..65535}" "MetricsPort ?c \<in> {1..65535}" "APIPort ?c \<noteq> MetricsPort ?c"
    using agent_main_Running(1) [OF assms] by (simp_all add: Config_Validate_iff)
  then have "ParseInt (Itoa (APIPort ?c)) \<noteq> ParseInt (Itoa (MetricsPort ?c))"
    by (simp add: ParseInt_Itoa)
  then have "Itoa (APIPort ?c) \<noteq> Itoa (MetricsPort ?c)"
    by metis
  with ports(2) show ?thesis
    by (simp add: NewServer_def Addr_def)
qed

lemma started_agent_authenticates:
  assumes "agent_main io quoted dial te build fl = Running su"
  shows "32 \<le> length (cfg_Token (se_auth (new_env se quoted (su_cfg su) (su_opts su))))"
    and "cfg_Secret (se_auth (new_env se quoted (su_cfg su) (su_opts su))) \<noteq> []"
  using agent_main_Running(1) [OF assms] by (simp_all add: Config_Validate_iff new_env_def)

text \<open>A failure to listen ends the process with status 0.\<close>

lemma failed_start_exits_zero:
  "\<exists>a :: unit agent. agent_reachable je a \<and> ag_start a = StartReturned (Some (''failed to listen: '' @ err)) \<and> agent_exit a = Some 0"
proof -
  let ?a1 = "demo_agent\<lparr>ag_start := StartReturned (Some (''failed to listen: '' @ err))\<rparr>"
  let ?a2 = "?a1\<lparr>ag_main := MainShutdown Locking\<rparr>"
  let ?r = "shutdownServer None (ag_server ?a2)"
  let ?a3 = "?a2\<lparr>ag_server := fst ?r, ag_main := MainShutdown (ShutdownReturned (snd ?r))\<rparr>"
  have "agent_reachable je ?a1"
    by (rule agent_reachable.step [OF demo_agent_reachable agent_step.listen_fails]) (simp_all add: demo_agent_fields)
  then have a2: "agent_reachable je ?a2"
    by (rule agent_reachable.step) (rule agent_step.main_start_returned, simp_all add: demo_agent_fields)
  have "(shutdown_rel None)\<^sup>*\<^sup>* (Locking, ag_server ?a2) (ShutdownReturned (snd ?r), fst ?r)"
    by (rule shutdown_runs [OF _ surjective_pairing]) (simp add: demo_agent_fields)
  from main_runs [OF this _ a2] have "agent_reachable je ?a3"
    by simp
  from agent_reachable.step [OF this agent_step.main_returns] have "agent_reachable je (?a3\<lparr>ag_main := MainReturned\<rparr>)"
    by simp
  then show ?thesis
    by (intro exI [of _ "?a3\<lparr>ag_main := MainReturned\<rparr>"]) (simp add: agent_exit_def)
qed

text \<open>The validation of the log level ignores case, the logger does not.\<close>

lemma upper_case_level: "ToLower ''DEBUG'' \<in> set validLogLevels" "newLogger ''DEBUG'' = SlogInfo"
  by (simp_all add: ToLower_ascii lower_char_def char_of_def validLogLevels_def newLogger_def bit_Suc_0_iff del: ToLower.simps(2))

section \<open>What the probe prints\<close>

text \<open>The probe prints the counters that the service sent, one line for each.\<close>

lemma statsprobe_prints:
  assumes "length args = 2" and "dial (args ! 1) = Inr c"
    and "cn_call c queryStatsMethod = (\<lambda>data w. (w, Inr (QueryStatsResponse_Marshal r)))" and "list_all stat_fits (qsr_Stat r)"
  shows "\<exists>w' final. statsprobe dial zero args w = (w', (''stats len: '' @ Itoa (int (length (qsr_Stat r)))) # map stat_line (qsr_Stat r) @ [final], None)"
proof -
  have "Codec_Unmarshal (QueryStatsResponse_Marshal r) (MQueryStatsResponse \<lparr>qsr_Stat = []\<rparr>) = Inr (MQueryStatsResponse r)"
    using QueryStatsResponse_merge [OF assms(4), of "[]"] by (simp add: queryr.unm_Nil)
  with assms show ?thesis
    by (auto simp: statsprobe_def conn_Invoke_def Let_def split: prod.split sum.split)
qed

end
