(* ===== verification/Spec2Isabelle.thy ===== *)
theory Spec2Isabelle
  imports Debounce Concurrency Convergence Agent
begin

text \<open>
  Verification of sing-box-agent, a daemon that manages the configuration file of a sing-box proxy on one host.

  \<^bold>\<open>The program.\<close>  A REST server (\<open>src/internal/server\<close>) authenticates requests (\<open>auth\<close>, \<open>middleware/auth.go\<close>), makes
  mutating requests idempotent (\<open>store\<close>, \<open>middleware/idempotency.go\<close>) and hands them to handlers (\<open>handlers\<close>).  The handlers
  change the configuration through \<open>ConfigClient\<close> (\<open>singbox/client.go\<close>), which rewrites the file atomically and reloads
  sing-box after a quiet period.  A control plane can push a complete desired state; the agent also fetches it (\<open>client\<close>,
  \<open>server/lifecycle.go\<close>).  The sync engine (\<open>sync\<close>) computes the difference to the file, turns it into an ordered plan and
  executes it through \<open>ConfigManager\<close>, with rollback.  Traffic counters come from sing-box over gRPC with a
  hand-written protobuf codec (\<open>v2rayapi\<close>, \<open>singbox/v2ray_stats.go\<close>) and are exported as metrics (\<open>metrics\<close>).

  \<^bold>\<open>The theories and the code.\<close>
  \<^item> \<open>Prelude\<close>, \<open>GoStrings\<close>, \<open>Http\<close>, \<open>Sha256\<close>, \<open>Json\<close>: Go itself as far as the agent uses it.  Strings are byte sequences,
    integers are words of their width or integers with the wrap-around written out, a Go map is an association list
    with distinct keys whose iteration order is an argument, \<open>if err != nil { return err }\<close> is \<open>bindE\<close>; a
    response is the sequence of operations on the \<open>ResponseWriter\<close>; JSON values are trees, and a JSON file is the tree it parses to.
  \<^item> \<open>Wire\<close> (C1--C3): \<open>v2rayapi/v2rayapi.go\<close>, every message type.  Decoding inverts encoding, unknown fields of the
    wire types 0, 1, 2 and 5 are skipped, others are an error.  A message holds its elements themselves, where the code holds pointers that
    it never sets to \<open>nil\<close>.
  \<^item> \<open>Replay\<close>, \<open>Auth\<close> (C4--C10): \<open>auth/*.go\<close>, \<open>middleware/auth.go\<close>.  The nonce cache refines a bounded log (locale \<open>replay_guard\<close>);
    exactly the authentic, fresh requests pass; replays are rejected, except of timestamps that pass by overflow; correctly signed
    requests get through.
  \<^item> \<open>Idempotency\<close> (C11--C14): the store and the middleware, as its two critical sections around the handler.
  \<^item> \<open>Models\<close>, \<open>ConfigManager\<close> (C15--C18): \<open>models\<close>, \<open>sync/config_manager.go\<close>.  Additions are undone by deletions, byte for byte;
    a failure leaves the file alone unless it is the write itself that fails.
  \<^item> \<open>Diff\<close>, \<open>Plan\<close> (C19, C20, C23, C24): \<open>sync/diff.go\<close>, \<open>sync/plan.go\<close>.  Diffs are complete and minimal, plans are ordered by
    dependency, a successful plan converges on the tags, a failed reload is rolled back; \<open>failed_create_deletes_inbound\<close> states a flaw
    of the rollback.
  \<^item> \<open>Convergence\<close> (C22): what a synchronisation does to the users, through \<open>ConfigManager\<close>, \<open>Plan\<close> and \<open>Engine\<close> (locale \<open>user_steps\<close>, an
    extension of the contract \<open>tag_steps\<close> of \<open>Plan\<close>, over the multiset of users that \<open>GetUsers\<close> lists).  The users listed afterwards are
    the desired ones, with every field that is read back, when ids and tags are unique.  Lemmas state flaws: a user cannot be moved to
    another inbound, of two desired users with one id one is dropped, and an inbound that has users, or a user that has limits, is
    rewritten by every drift check.
  \<^item> \<open>Concurrency\<close> (C21): \<open>cfglock\<close>, and the operations of \<open>ConfigClient\<close> and \<open>ConfigManager\<close> as programs of system calls under their locks.
    Every interleaving of goroutines is equivalent to a serial order, there is no deadlock and no infinite schedule.
  \<^item> \<open>ConfigClient\<close>, \<open>SingBoxClient\<close> (C26--C28): \<open>singbox/client.go\<close> at the level of system calls that may fail, and the interface
    \<open>SingBoxClient\<close> as a record with the locale \<open>sing_box_client\<close> for its laws, interpreted by \<open>ConfigClient\<close>.
  \<^item> \<open>Api\<close>, \<open>InboundHandler\<close>, \<open>UserHandler\<close> (C29--C31): decoding and envelopes, \<open>handlers/inbounds.go\<close>, \<open>handlers/users.go\<close>.
  \<^item> \<open>Debounce\<close> (C32, C33): the deferred reload of \<open>singbox/client.go\<close> as a step relation over all interleavings of writers,
    timers and reloads.  It terminates, and its rollback overwrites only bytes that the client wrote in the window that failed.
  \<^item> \<open>Retry\<close>, \<open>Fastify\<close> (C34): \<open>client/*.go\<close>, the client of the control plane.
  \<^item> \<open>Engine\<close> (C35, C36): \<open>sync/engine.go\<close>, \<open>sync/status.go\<close>, \<open>handlers/sync.go\<close>, \<open>server/handlers.go\<close>, \<open>server/lifecycle.go\<close>.
    Versions only grow; an accepted desired state is what is in the file afterwards (from the body of the request to the
    bytes on disk); \<open>readyz_ignores_sync\<close> states a flaw of the readiness probe.
  \<^item> \<open>Lifecycle\<close> (C37): the goroutines of \<open>server/lifecycle.go\<close> and the requests that share the engine, one call after the other, as a
    step relation.  They end, and the status settles; \<open>older_version_applied_last\<close> is an interleaving in which the version check does not help.
  \<^item> \<open>Core\<close> (C38): \<open>sync/reloader.go\<close>, \<open>singbox/core_service.go\<close>, \<open>handlers/core.go\<close>.  The shown configuration reveals no secret.
  \<^item> \<open>Subscription\<close> (C39): \<open>handlers/subscription.go\<close>; C39 states that cached subscriptions outlive their users.
  \<^item> \<open>Stats\<close>, \<open>Metrics\<close>: the stats client on top of the codec, \<open>singbox/stats_provider.go\<close>, \<open>handlers/stats.go\<close>, \<open>metrics\<close>.  A user's
    counters are found under the patterns that were asked for; exported counters never exceed the traffic.
  \<^item> \<open>Server\<close> (C40): \<open>server/server.go\<close>, \<open>server/metrics.go\<close>, \<open>server/middleware.go\<close>.  The state all handlers share, the routes and the
    middlewares; nothing changes without authentication, and logging is transparent.
  \<^item> \<open>Config\<close>, \<open>Cfglock\<close>: \<open>config\<close>, \<open>cfglock\<close>.  What validation guarantees; one lock per file.
  \<^item> \<open>Agent\<close> (C25): \<open>Start\<close> and \<open>Shutdown\<close> of \<open>server/server.go\<close>, \<open>cmd/agent\<close> and \<open>cmd/statsprobe\<close>.  Start-up is a function of flags,
    configuration and environment; then signals, the server, the goroutines, \<open>Start\<close> and \<open>main\<close> take steps in any order, also between the
    calls of \<open>shutdownServer\<close>, which run under its lock.  The parts are shut down once and in order, and the process can always end;
    \<open>goroutines_outlive_stop\<close> is a run in which \<open>lifecycle.Start\<close> comes after \<open>lifecycle.Stop\<close>.

  \<^bold>\<open>Parameters.\<close>  What is not in the repository is an argument of the definitions that use it: clocks, fresh identifiers, the
  outcome of each system call (files, commands, signals), the network, the text of foreign errors, the reader of JSON and
  YAML text, Prometheus.  Hypotheses on them are stated with each theorem: the orders of map iteration are permutations
  (\<open>is_order\<close>), system calls succeed (\<open>client_ok\<close>) where a success is claimed.

  \<^bold>\<open>Bounds.\<close>  There is no fuel: every loop is a function with a termination proof or a fold over its input.  Loops that
  run until the process ends (heartbeat, drift check, statistics) are folds over the ticks they receive, and the first two also a step
  relation in \<open>Lifecycle\<close>.  A schedule in \<open>Concurrency\<close> is any finite list of goroutines, and it is shown that none goes on for ever.
  Exact results on floating-point numbers are stated below \<open>2^53\<close>, on delays below \<open>2^62\<close>.

  \<^bold>\<open>Not modelled.\<close>  Sockets, TLS, the time limits of \<open>net/http\<close> and gRPC, which are libraries; log output except the access log; the
  test programs under \<open>test\<close>.  Handlers run one after another, except where a theory says otherwise: the deferred
  reload (\<open>Debounce\<close>), updates of the configuration file (\<open>Concurrency\<close>), synchronisations (\<open>Lifecycle\<close>), shutdown (\<open>Agent\<close>), and the two
  halves of the idempotency middleware.
\<close>

end
